(* ===== verification/Prelude.thy ===== *)
theory Prelude
  imports Main "HOL-Library.AList" "HOL-Library.Multiset" "HOL-Library.Word"
begin

text \<open>
  Shared vocabulary of the development: Go maps, byte strings and the string functions of
  Go's standard library (\<^verbatim>\<open>strings\<close>, \<^verbatim>\<open>strconv\<close>) that the service uses, and
  the generic lemmas on them.

  A Go map that the code ranges over is a list of entries with pairwise distinct keys. The
  order of the list is the order in which the next \<^verbatim>\<open>range\<close> visits the map; Go leaves
  it open, so theorems are stated for every such list. A Go map that is only read and written
  by key is a HOL map. A \<^verbatim>\<open>json.RawMessage\<close> is a \<open>raw\<close>: \<open>None\<close> is the nil
  slice, \<open>Some bs\<close> a slice that holds the bytes \<open>bs\<close>.
\<close>

named_theorems go_map \<open>rewriting of Go map operations\<close>
named_theorems go_str \<open>rewriting of Go string operations\<close>


type_synonym raw = "string option"
type_synonym ('k, 'v) gomap = "('k \<times> 'v) list"

section \<open>Results\<close>

lemma map_sum_id_Inr [simp]: "map_sum id f x = Inr y \<longleftrightarrow> (\<exists>z. x = Inr z \<and> y = f z)"
  by (cases x) auto

lemma map_sum_id_Inl [simp]: "map_sum id f x = Inl e \<longleftrightarrow> x = Inl e"
  by (cases x) auto

section \<open>Go maps\<close>

definition wf_map :: "('k, 'v) gomap \<Rightarrow> bool" where
  "wf_map m \<longleftrightarrow> distinct (map fst m)"

definition mput :: "'k \<Rightarrow> 'v \<Rightarrow> ('k, 'v) gomap \<Rightarrow> ('k, 'v) gomap" where
  "mput k v m = AList.update k v m"

definition mdel :: "'k \<Rightarrow> ('k, 'v) gomap \<Rightarrow> ('k, 'v) gomap" where
  "mdel k m = AList.delete k m"

abbreviation mkeys :: "('k, 'v) gomap \<Rightarrow> 'k list" where
  "mkeys m \<equiv> map fst m"

text \<open>\<^verbatim>\<open>m[k]\<close> on a map of slices: the zero value nil for an absent key.\<close>

definition mraw :: "('k, raw) gomap \<Rightarrow> 'k \<Rightarrow> raw" where
  "mraw m k = (case map_of m k of None \<Rightarrow> None | Some v \<Rightarrow> v)"

text \<open>\<^verbatim>\<open>m[k]\<close> on a map of bools: the zero value false for an absent key.\<close>

definition mbool :: "('k, bool) gomap \<Rightarrow> 'k \<Rightarrow> bool" where
  "mbool m k \<longleftrightarrow> map_of m k = Some True"

text \<open>\<^verbatim>\<open>len(v) == 0\<close> for a slice: nil or empty.\<close>

definition raw_empty :: "raw \<Rightarrow> bool" where
  "raw_empty v \<longleftrightarrow> v = None \<or> v = Some []"

lemma wf_map_Nil [simp]: "wf_map []"
  by (simp add: wf_map_def)

lemma map_of_mput [simp, go_map]: "map_of (mput k v m) = (map_of m)(k \<mapsto> v)"
  by (simp add: mput_def update_conv')

lemma map_of_mdel [simp, go_map]: "map_of (mdel k m) = (map_of m)(k := None)"
  by (simp add: mdel_def delete_conv')

lemma wf_map_mput [simp]: "wf_map m \<Longrightarrow> wf_map (mput k v m)"
  by (simp add: wf_map_def mput_def distinct_update)

lemma wf_map_mdel [simp]: "wf_map m \<Longrightarrow> wf_map (mdel k m)"
  by (auto simp: wf_map_def mdel_def distinct_delete)

lemma mkeys_mput [go_map]: "mkeys (mput k v m) = (if k \<in> set (mkeys m) then mkeys m else mkeys m @ [k])"
  by (simp add: mput_def update_keys)

lemma keys_mput [simp]: "fst ` set (mput k v m) = insert k (fst ` set m)"
  by (simp add: dom_map_of_conv_image_fst [symmetric])

lemma keys_mdel [simp]: "fst ` set (mdel k m) = fst ` set m - {k}"
  by (simp add: dom_map_of_conv_image_fst [symmetric])

lemma wf_map_of_iff: "wf_map m \<Longrightarrow> map_of m k = Some v \<longleftrightarrow> (k, v) \<in> set m"
  by (simp add: wf_map_def)

lemma map_of_eq_None_keys: "map_of m k = None \<longleftrightarrow> k \<notin> set (mkeys m)"
  by (simp add: map_of_eq_None_iff)

lemma wf_map_ConsD: "wf_map ((k, v) # m) \<Longrightarrow> wf_map m \<and> map_of m k = None"
  by (simp add: wf_map_def map_of_eq_None_iff)

text \<open>Two lists with the same entries are the same Go map: only the range order differs.\<close>

lemma wf_map_order:
  assumes "mset m' = mset m"
  shows "wf_map m' \<longleftrightarrow> wf_map m"
proof -
  have "mset (map fst m') = mset (map fst m)"
    using assms by simp
  then show ?thesis
    unfolding wf_map_def by (rule mset_eq_imp_distinct_iff)
qed

lemma map_of_order_irrelevant:
  assumes "wf_map m" and "mset m' = mset m"
  shows "map_of m' = map_of m"
proof -
  have "wf_map m'"
    using assms(1) wf_map_order [OF assms(2)] by simp
  moreover have "set m' = set m"
    using assms(2) by (rule mset_eq_setD)
  ultimately show ?thesis
    using assms(1) map_of_inject_set [of m' m] unfolding wf_map_def by blast
qed

text \<open>
  The order in which one \<^verbatim>\<open>range\<close> visits a map, as chosen by an arbitrary function: any
  permutation is possible, and a function that does not permute has no effect.
\<close>

definition range_order :: "('a list \<Rightarrow> 'a list) \<Rightarrow> 'a list \<Rightarrow> 'a list" where
  "range_order ord m = (if mset (ord m) = mset m then ord m else m)"

lemma mset_range_order [simp]: "mset (range_order ord m) = mset m"
  by (simp add: range_order_def)

lemma set_range_order [simp]: "set (range_order ord m) = set m"
  by (rule mset_eq_setD) simp

lemma map_of_range_order [simp]: "wf_map m \<Longrightarrow> map_of (range_order ord m) = map_of m"
  by (rule map_of_order_irrelevant) simp_all

lemma wf_map_range_order [simp]: "wf_map (range_order ord m) = wf_map m"
  by (rule wf_map_order) simp

lemma range_order_Nil_iff [simp]: "range_order ord m = [] \<longleftrightarrow> m = []"
  by (metis set_range_order set_empty)

lemma set_mput: "set (mput k v m) \<subseteq> insert (k, v) (set m)"
proof (induction m)
  case (Cons p m)
  then show ?case by (cases p) (auto simp: mput_def)
qed (simp add: mput_def)

text \<open>
  A Go loop that assigns \<^verbatim>\<open>m[f(x)] = g(x)\<close> for each \<^verbatim>\<open>x\<close> of a slice.
\<close>

definition mput_all :: "('k \<times> 'v) list \<Rightarrow> ('k, 'v) gomap \<Rightarrow> ('k, 'v) gomap" where
  "mput_all kvs m = fold (\<lambda>(k, v). mput k v) kvs m"

lemma mput_all_Nil [simp]: "mput_all [] m = m"
  by (simp add: mput_all_def)

lemma mput_all_Cons [simp]: "mput_all ((k, v) # kvs) m = mput_all kvs (mput k v m)"
  by (simp add: mput_all_def)

lemma mput_all_append: "mput_all (xs @ ys) m = mput_all ys (mput_all xs m)"
  by (simp add: mput_all_def)

lemma wf_map_mput_all [simp]: "wf_map m \<Longrightarrow> wf_map (mput_all kvs m)"
proof (induction kvs arbitrary: m)
  case (Cons kv kvs)
  then show ?case by (cases kv) simp
qed simp

lemma map_of_mput_all [go_map]: "map_of (mput_all kvs m) = map_of m ++ map_of (rev kvs)"
proof (induction kvs arbitrary: m)
  case Nil
  then show ?case by simp
next
  case (Cons kv kvs)
  then show ?case
    by (cases kv) (simp add: fun_eq_iff map_add_def split: option.split)
qed

lemma set_mput_all: "set (mput_all kvs m) \<subseteq> set m \<union> set kvs"
proof (induction kvs arbitrary: m)
  case (Cons kv kvs)
  show ?case
  proof (cases kv)
    case (Pair k v)
    have "set (mput_all kvs (mput k v m)) \<subseteq> set (mput k v m) \<union> set kvs"
      by (rule Cons.IH)
    also have "\<dots> \<subseteq> insert (k, v) (set m) \<union> set kvs"
      by (rule Un_mono [OF set_mput order_refl])
    finally show ?thesis
      by (simp add: Pair)
  qed
qed simp

lemma keys_mput_all [simp]: "fst ` set (mput_all kvs m) = fst ` set m \<union> fst ` set kvs"
proof (induction kvs arbitrary: m)
  case Nil
  then show ?case by simp
next
  case (Cons kv kvs)
  then show ?case by (cases kv) simp
qed

text \<open>
  \<open>mput_all\<close> of entries that do not conflict keeps all of them.
\<close>

lemma set_mput_all_functional:
  assumes "\<And>k d d'. (k, d) \<in> set ts \<union> set m \<Longrightarrow> (k, d') \<in> set ts \<union> set m \<Longrightarrow> d = d'"
  shows "set (mput_all ts m) = set ts \<union> set m"
proof
  show "set (mput_all ts m) \<subseteq> set ts \<union> set m"
    using set_mput_all [of ts m] by blast
  show "set ts \<union> set m \<subseteq> set (mput_all ts m)"
  proof
    fix kd assume kd: "kd \<in> set ts \<union> set m"
    obtain k d where [simp]: "kd = (k, d)" by (cases kd)
    from kd have "k \<in> fst ` set (mput_all ts m)"
      by (force simp: keys_mput_all)
    then obtain d' where d': "(k, d') \<in> set (mput_all ts m)"
      by (auto simp del: keys_mput_all)
    with set_mput_all [of ts m] kd assms [of k d d'] have "d' = d" by auto
    with d' show "kd \<in> set (mput_all ts m)" by simp
  qed
qed

section \<open>Strings\<close>

text \<open>
  \<^verbatim>\<open>strings.Split(s, sep)\<close>, \<^verbatim>\<open>strings.SplitN(s, sep, n)\<close> and
  \<^verbatim>\<open>strings.Join(parts, sep)\<close> for separators of one byte.
\<close>

fun split_on :: "char \<Rightarrow> string \<Rightarrow> string list" where
  "split_on d [] = [[]]"
| "split_on d (c # cs) =
     (if c = d then [] # split_on d cs
      else (case split_on d cs of [] \<Rightarrow> [[c]] | p # ps \<Rightarrow> (c # p) # ps))"

fun split_n :: "char \<Rightarrow> nat \<Rightarrow> string \<Rightarrow> string list" where
  "split_n d 0 s = []"
| "split_n d (Suc 0) s = [s]"
| "split_n d (Suc (Suc n)) [] = [[]]"
| "split_n d (Suc (Suc n)) (c # cs) =
     (if c = d then [] # split_n d (Suc n) cs
      else (case split_n d (Suc (Suc n)) cs of [] \<Rightarrow> [[c]] | p # ps \<Rightarrow> (c # p) # ps))"

fun join_with :: "string \<Rightarrow> string list \<Rightarrow> string" where
  "join_with d [] = []"
| "join_with d [p] = p"
| "join_with d (p # q # ps) = p @ d @ join_with d (q # ps)"

text \<open>\<^verbatim>\<open>strings.Count(s, c)\<close> for one byte.\<close>

definition count_char :: "char \<Rightarrow> string \<Rightarrow> nat" where
  "count_char c s = length (filter (\<lambda>x. x = c) s)"

text \<open>\<^verbatim>\<open>strings.Replace(s, c, r, 1)\<close> and \<^verbatim>\<open>strings.ReplaceAll(s, c, r)\<close>.\<close>

fun replace_first :: "char \<Rightarrow> string \<Rightarrow> string \<Rightarrow> string" where
  "replace_first d r [] = []"
| "replace_first d r (c # cs) = (if c = d then r @ cs else c # replace_first d r cs)"

definition replace_all :: "char \<Rightarrow> string \<Rightarrow> string \<Rightarrow> string" where
  "replace_all d r s = concat (map (\<lambda>c. if c = d then r else [c]) s)"

text \<open>\<^verbatim>\<open>strings.TrimSpace\<close> on ASCII input.\<close>

definition is_space :: "char \<Rightarrow> bool" where
  "is_space c \<longleftrightarrow> c \<in> {CHR 0x20, CHR 0x09, CHR 0x0A, CHR 0x0B, CHR 0x0C, CHR 0x0D}"

definition trim_space :: "string \<Rightarrow> string" where
  "trim_space s = rev (dropWhile is_space (rev (dropWhile is_space s)))"

lemma split_on_neq_Nil [simp]: "split_on d s \<noteq> []"
  by (induction s) (auto split: list.splits)

lemma split_n_neq_Nil [simp]: "split_n d (Suc n) s \<noteq> []"
  by (induction d "Suc n" s arbitrary: n rule: split_n.induct) (auto split: list.splits)

lemma join_with_Cons: "ps \<noteq> [] \<Longrightarrow> join_with d (p # ps) = p @ d @ join_with d ps"
  by (cases ps) auto

lemma join_with_head: "join_with d ((c # p) # ps) = c # join_with d (p # ps)"
  by (cases ps) auto

lemma join_split [simp, go_str]: "join_with [d] (split_on d s) = s"
  by (induction s) (auto simp: join_with_Cons join_with_head split: list.splits)

lemma join_split_n [simp, go_str]: "join_with [d] (split_n d (Suc n) s) = s"
  by (induction d "Suc n" s arbitrary: n rule: split_n.induct)
     (auto simp: join_with_Cons join_with_head split: list.splits)

lemma length_split_on [go_str]: "length (split_on d s) = Suc (count_char d s)"
  by (induction s) (auto simp: count_char_def split: list.splits)

lemma length_split_n [go_str]: "length (split_n d (Suc n) s) = Suc (min n (count_char d s))"
  by (induction d "Suc n" s arbitrary: n rule: split_n.induct)
     (auto simp: count_char_def split: list.splits)

lemma split_n_pieces: "p \<in> set (butlast (split_n d (Suc n) s)) \<Longrightarrow> d \<notin> set p"
proof (induction d "Suc n" s arbitrary: n p rule: split_n.induct)
  case (4 d n c cs)
  show ?case
  proof (cases "c = d")
    case True
    then show ?thesis
      using 4(1) [OF True, of p] 4(3) by (cases "p = []") simp_all
  next
    case False
    obtain q qs where q: "split_n d (Suc (Suc n)) cs = q # qs"
      by (cases "split_n d (Suc (Suc n)) cs") auto
    then have p: "qs \<noteq> []" "p = c # q \<or> p \<in> set (butlast qs)"
      using False 4(3) by (auto split: if_splits)
    then show ?thesis
      using 4(2) [OF False, of q] 4(2) [OF False, of p] q False by auto
  qed
qed simp_all

lemma split_on_notin: "d \<notin> set s \<Longrightarrow> split_on d s = [s]"
  by (induction s) auto

lemma split_on_append [go_str]:
  "d \<notin> set p \<Longrightarrow> split_on d (p @ d # s) = p # split_on d s"
  by (induction p) auto

lemma split_on_join:
  assumes "ws \<noteq> []" "\<forall>w \<in> set ws. d \<notin> set w"
  shows "split_on d (join_with [d] ws) = ws"
  using assms
proof (induction ws)
  case (Cons w ws)
  then show ?case
    by (cases ws) (simp_all add: split_on_notin split_on_append)
qed simp

lemma trim_space_id:
  assumes "s = [] \<or> \<not> is_space (hd s) \<and> \<not> is_space (last s)"
  shows "trim_space s = s"
proof -
  have "dropWhile is_space s = s"
    using assms by (cases s) auto
  moreover have "dropWhile is_space (rev s) = rev s"
    using assms by (cases s rule: rev_cases) auto
  ultimately show ?thesis by (simp add: trim_space_def)
qed

lemma join_with_ends:
  assumes "ws \<noteq> []" "\<forall>w \<in> set ws. w \<noteq> []"
  shows "join_with sep ws \<noteq> [] \<and> hd (join_with sep ws) = hd (hd ws) \<and> last (join_with sep ws) = last (last ws)"
  using assms
proof (induction ws)
  case (Cons w ws)
  then show ?case
    by (cases ws) (auto simp: hd_append)
qed simp

text \<open>A line of words that are separated by one space.\<close>

lemma split_words:
  assumes "ws \<noteq> []" "\<forall>w \<in> set ws. w \<noteq> [] \<and> list_all (\<lambda>c. \<not> is_space c) w"
  shows "split_on CHR '' '' (trim_space (join_with '' '' ws)) = ws"
    "split_on CHR '' '' (trim_space (join_with '' '' ws @ [CHR 0x0A])) = ws"
proof -
  let ?s = "join_with '' '' ws"
  have ends: "?s \<noteq> []" "hd ?s = hd (hd ws)" "last ?s = last (last ws)"
    using join_with_ends [of ws "'' ''"] assms by auto
  have "hd ws \<in> set ws" "last ws \<in> set ws"
    using assms(1) by simp_all
  then have "\<not> is_space (hd ?s)" "\<not> is_space (last ?s)"
    using assms(2) ends(2,3) by (auto simp: list_all_iff)
  then have trim: "trim_space ?s = ?s"
    by (simp add: trim_space_id)
  have "\<forall>w \<in> set ws. CHR '' '' \<notin> set w"
    using assms(2) by (auto simp: list_all_iff is_space_def)
  then show split: "split_on CHR '' '' (trim_space ?s) = ws"
    using split_on_join [OF assms(1)] by (simp add: trim)
  have "trim_space (?s @ [CHR 0x0A]) = trim_space ?s"
    using ends(1) \<open>\<not> is_space (hd ?s)\<close> by (cases ?s) (simp_all add: trim_space_def is_space_def)
  with split show "split_on CHR '' '' (trim_space (?s @ [CHR 0x0A])) = ws" by simp
qed

lemma split_n_notin: "d \<notin> set s \<Longrightarrow> split_n d (Suc n) s = [s]"
  by (induction d "Suc n" s arbitrary: n rule: split_n.induct) auto

lemma split_n_append [go_str]:
  "d \<notin> set p \<Longrightarrow> split_n d (Suc (Suc n)) (p @ d # s) = p # split_n d (Suc n) s"
  by (induction p) auto

text \<open>A line of assignments \<^verbatim>\<open>key=value\<close>.\<close>

definition assignment :: "string \<times> string \<Rightarrow> string" where
  "assignment kv = fst kv @ CHR ''='' # snd kv"

definition assignments_ok :: "(string \<times> string) list \<Rightarrow> bool" where
  "assignments_ok ps \<longleftrightarrow> ps \<noteq> [] \<and>
     (\<forall>(k, v) \<in> set ps. CHR ''='' \<notin> set k \<and> list_all (\<lambda>c. \<not> is_space c) k \<and> list_all (\<lambda>c. \<not> is_space c) v)"

definition assignments_line :: "(string \<times> string) list \<Rightarrow> string" where
  "assignments_line ps = join_with '' '' (map assignment ps)"

lemma split_assignment: "CHR ''='' \<notin> set k \<Longrightarrow> split_n CHR ''='' 2 (assignment (k, v)) = [k, v]"
  using split_n_append [of "CHR ''=''" k 0 v] by (simp add: assignment_def numeral_2_eq_2)

lemma split_assignments:
  assumes "assignments_ok ps"
  shows "split_on CHR '' '' (trim_space (assignments_line ps)) = map assignment ps"
    "split_on CHR '' '' (trim_space (assignments_line ps @ [CHR 0x0A])) = map assignment ps"
    "CHR 0x0A \<notin> set (assignments_line ps)"
proof -
  have ws: "map assignment ps \<noteq> []" "\<forall>w \<in> set (map assignment ps). w \<noteq> [] \<and> list_all (\<lambda>c. \<not> is_space c) w"
    using assms by (auto simp: assignments_ok_def assignment_def is_space_def)
  show "split_on CHR '' '' (trim_space (assignments_line ps)) = map assignment ps"
    "split_on CHR '' '' (trim_space (assignments_line ps @ [CHR 0x0A])) = map assignment ps"
    using split_words [OF ws] by (simp_all add: assignments_line_def)
  have "c \<in> set (join_with '' '' ws') \<Longrightarrow> c = CHR '' '' \<or> (\<exists>w \<in> set ws'. c \<in> set w)" for c ws'
    by (induction "'' ''" ws' rule: join_with.induct) auto
  from this [of "CHR 0x0A" "map assignment ps"] show "CHR 0x0A \<notin> set (assignments_line ps)"
    using ws(2) by (auto simp: assignments_line_def list_all_iff is_space_def)
qed

lemma count_char_append [simp, go_str]: "count_char c (s @ t) = count_char c s + count_char c t"
  by (simp add: count_char_def)

lemma count_char_Cons [go_str]: "count_char c (x # s) = (if x = c then Suc (count_char c s) else count_char c s)"
  by (simp add: count_char_def)

lemma count_char_Nil [simp]: "count_char c [] = 0"
  by (simp add: count_char_def)

lemma count_char_0_iff: "count_char c s = 0 \<longleftrightarrow> c \<notin> set s"
  by (auto simp: count_char_def filter_empty_conv)

lemma replace_first_notin: "d \<notin> set s \<Longrightarrow> replace_first d r s = s"
  by (induction s) auto

lemma replace_first_at: "d \<notin> set p \<Longrightarrow> replace_first d r (p @ d # s) = p @ r @ s"
  by (induction p) auto

section \<open>Decimal numbers\<close>

text \<open>
  \<^verbatim>\<open>strconv.Itoa\<close> and the \<^verbatim>\<open>%d\<close> verb, and \<^verbatim>\<open>strconv.ParseInt(s, 10, 64)\<close>
  on a JSON number literal. Go's \<^verbatim>\<open>int\<close> is a 64 bit integer on the platforms the
  service runs on; the code does no arithmetic on ids, so only the range matters.
\<close>

definition digit :: "nat \<Rightarrow> char" where
  "digit n = char_of (48 + n)"

definition is_digit :: "char \<Rightarrow> bool" where
  "is_digit c \<longleftrightarrow> 48 \<le> (of_char c :: nat) \<and> (of_char c :: nat) \<le> 57"

lemma is_digit_code [code]:
  "is_digit c \<longleftrightarrow> digit4 c \<and> digit5 c \<and> \<not> digit6 c \<and> \<not> digit7 c \<and> (digit3 c \<longrightarrow> \<not> digit1 c \<and> \<not> digit2 c)"
  by (cases c) (auto simp: is_digit_def)

definition digit_val :: "char \<Rightarrow> nat" where
  "digit_val c = of_char c - 48"

fun show_nat :: "nat \<Rightarrow> string" where
  "show_nat n = (if n < 10 then [digit n] else show_nat (n div 10) @ [digit (n mod 10)])"

declare show_nat.simps [simp del]

definition Itoa :: "int \<Rightarrow> string" where
  "Itoa i = (if i < 0 then CHR ''-'' # show_nat (nat (- i)) else show_nat (nat i))"

definition digits_val :: "string \<Rightarrow> nat" where
  "digits_val s = foldl (\<lambda>a c. 10 * a + digit_val c) 0 s"

definition int64_range :: "int \<Rightarrow> bool" where
  "int64_range i \<longleftrightarrow> - (2 ^ 63) \<le> i \<and> i < 2 ^ 63"

definition ParseInt :: "string \<Rightarrow> int option" where
  "ParseInt s =
     (let neg = (case s of c # _ \<Rightarrow> c = CHR ''-'' | [] \<Rightarrow> False);
          ds = (if neg then tl s else s);
          v = (if neg then - int (digits_val ds) else int (digits_val ds))
      in if ds \<noteq> [] \<and> list_all is_digit ds \<and> int64_range v then Some v else None)"

lemma of_char_digit [simp]: "n < 10 \<Longrightarrow> (of_char (digit n) :: nat) = 48 + n"
  by (simp add: digit_def)

lemma is_digit_digit [simp]: "n < 10 \<Longrightarrow> is_digit (digit n)"
  by (simp add: is_digit_def)

lemma digit_val_digit [simp]: "n < 10 \<Longrightarrow> digit_val (digit n) = n"
  by (simp add: digit_val_def)

lemma show_nat_digits: "list_all is_digit (show_nat n)"
proof (induction n rule: show_nat.induct)
  case (1 n)
  then show ?case by (subst show_nat.simps) simp
qed

lemma show_nat_neq_Nil [simp]: "show_nat n \<noteq> []"
  by (subst show_nat.simps) simp

lemma digits_val_snoc [simp]: "digits_val (s @ [c]) = 10 * digits_val s + digit_val c"
  by (simp add: digits_val_def)

lemma digits_val_show_nat [simp]: "digits_val (show_nat n) = n"
proof (induction n rule: show_nat.induct)
  case (1 n)
  show ?case
  proof (cases "n < 10")
    case True
    then show ?thesis by (subst show_nat.simps) (simp add: digits_val_def)
  next
    case False
    with "1.IH" show ?thesis by (subst show_nat.simps) simp
  qed
qed

lemma is_digit_not_minus: "is_digit c \<Longrightarrow> c \<noteq> CHR ''-''"
  by (auto simp: is_digit_def)

lemma is_digit_not_slash: "is_digit c \<Longrightarrow> c \<noteq> CHR ''/''"
  by (auto simp: is_digit_def)

lemma show_nat_Cons: obtains c cs where "show_nat n = c # cs" and "is_digit c" and "list_all is_digit cs"
  using show_nat_digits [of n] by (cases "show_nat n") auto

lemma ParseInt_Itoa [simp]: "int64_range i \<Longrightarrow> ParseInt (Itoa i) = Some i"
proof (cases "i < 0")
  case True
  assume "int64_range i"
  with True show ?thesis
    by (simp add: ParseInt_def Itoa_def Let_def show_nat_digits)
next
  case False
  assume "int64_range i"
  moreover obtain c cs where "show_nat (nat i) = c # cs" "is_digit c"
    by (rule show_nat_Cons)
  ultimately show ?thesis
    using False show_nat_digits [of "nat i"] digits_val_show_nat [of "nat i"]
    by (auto simp: ParseInt_def Itoa_def Let_def dest: is_digit_not_minus)
qed

lemma Itoa_neq_Nil [simp]: "Itoa i \<noteq> []"
  by (simp add: Itoa_def)

lemma Itoa_inj: "Itoa i = Itoa j \<longleftrightarrow> i = j"
proof
  assume eq: "Itoa i = Itoa j"
  have hd_nat: "CHR ''-'' # s \<noteq> show_nat n" for n s
    by (rule show_nat_Cons [of n]) (auto dest: is_digit_not_minus)
  have inj: "show_nat a = show_nat b \<Longrightarrow> a = b" for a b
    by (metis digits_val_show_nat)
  show "i = j"
    using eq hd_nat hd_nat [symmetric]
    by (auto simp: Itoa_def split: if_splits dest!: inj)
qed simp

lemma Itoa_no_slash [simp]: "CHR ''/'' \<notin> set (Itoa i)"
  using show_nat_digits [of "nat i"] show_nat_digits [of "nat (- i)"]
  by (auto simp: Itoa_def list_all_iff dest: is_digit_not_slash)



end
