(* ===== verification/Json.thy ===== *)
theory Json
  imports Prelude
begin

text \<open>
  The part of Go's \<^verbatim>\<open>encoding/json\<close> the service relies on, over byte strings: the
  scanner and its two ways to fail (a syntax error, or the input ends inside a value), string
  unquoting with \<^verbatim>\<open>\u\<close> escapes and UTF-8 repair, decoding into \<^verbatim>\<open>int\<close>,
  \<^verbatim>\<open>string\<close>, \<^verbatim>\<open>[]int\<close> and \<^verbatim>\<open>[]string\<close> with Go's
  \<^verbatim>\<open>UnmarshalTypeError\<close>, the matching of object members to struct fields, and
  \<^verbatim>\<open>json.Marshal\<close> of integer and string slices.

  An object member keeps the bytes of its value beside the decoded value, because the code
  decodes into \<^verbatim>\<open>json.RawMessage\<close>. The recursion of the parser is bounded by fuel;
  the theorem \<open>parse_never_out_of_fuel\<close> shows that the length of the input is always enough.
  The nesting limit of 10000 levels of the Go scanner is not modelled.
\<close>

section \<open>Values and errors\<close>

datatype json =
    JNull
  | JBool bool
  | JNum string
  | JStr string
  | JArr "json list"
  | JObj "(string \<times> string \<times> json) list"

datatype scan_error = UnexpectedEOF | SyntaxError | OutOfFuel

datatype gotype = TInt | TString | TSlice gotype | TStruct | TMap

text \<open>\<^verbatim>\<open>json.UnmarshalTypeError\<close>: its \<^verbatim>\<open>Value\<close>, \<^verbatim>\<open>Type\<close> and \<^verbatim>\<open>Field\<close>.\<close>

datatype type_error = UnmarshalTypeError (te_value: string) (te_type: gotype) (te_field: string)

section \<open>Scanner\<close>

definition is_ws :: "char \<Rightarrow> bool" where
  "is_ws c \<longleftrightarrow> c = CHR 0x20 \<or> c = CHR 0x09 \<or> c = CHR 0x0A \<or> c = CHR 0x0D"

definition skip_ws :: "string \<Rightarrow> string" where
  "skip_ws s = dropWhile is_ws s"

definition hex_val :: "char \<Rightarrow> nat option" where
  "hex_val c =
     (let n = (of_char c :: nat)
      in if 48 \<le> n \<and> n \<le> 57 then Some (n - 48)
         else if 97 \<le> n \<and> n \<le> 102 then Some (n - 87)
         else if 65 \<le> n \<and> n \<le> 70 then Some (n - 55)
         else None)"

definition is_hex :: "char \<Rightarrow> bool" where
  "is_hex c \<longleftrightarrow> hex_val c \<noteq> None"

text \<open>The letters that may follow a backslash, \<^verbatim>\<open>u\<close> aside.\<close>

definition is_escape :: "char \<Rightarrow> bool" where
  "is_escape c \<longleftrightarrow>
     c \<in> set [CHR 0x22, CHR 0x5C, CHR ''/'', CHR ''b'', CHR ''f'', CHR ''n'', CHR ''r'', CHR ''t'']"

text \<open>The bytes of a string literal after its opening quote, up to the closing one.\<close>

fun lex_string :: "string \<Rightarrow> scan_error + string \<times> string" where
  "lex_string [] = Inl UnexpectedEOF"
| "lex_string (c # cs) =
     (if c = CHR 0x22 then Inr ([], cs)
      else if c = CHR 0x5C then
        (case cs of
           [] \<Rightarrow> Inl UnexpectedEOF
         | e # es \<Rightarrow>
             if is_escape e then map_sum id (\<lambda>(b, r). (c # e # b, r)) (lex_string es)
             else if e = CHR ''u'' then
               (case es of
                  h1 # h2 # h3 # h4 # r \<Rightarrow>
                    if is_hex h1 \<and> is_hex h2 \<and> is_hex h3 \<and> is_hex h4
                    then map_sum id (\<lambda>(b, r'). (c # e # h1 # h2 # h3 # h4 # b, r')) (lex_string r)
                    else Inl SyntaxError
                | _ \<Rightarrow> Inl (if list_all is_hex es then UnexpectedEOF else SyntaxError))
             else Inl SyntaxError)
      else if (of_char c :: nat) < 32 then Inl SyntaxError
      else map_sum id (\<lambda>(b, r). (c # b, r)) (lex_string cs))"

text \<open>One or more digits, as after a decimal point or an exponent mark.\<close>

definition lex_digits1 :: "string \<Rightarrow> scan_error + string \<times> string" where
  "lex_digits1 s =
     (case s of
        [] \<Rightarrow> Inl UnexpectedEOF
      | c # cs \<Rightarrow> if is_digit c then Inr (c # takeWhile is_digit cs, dropWhile is_digit cs)
                  else Inl SyntaxError)"

definition lex_int :: "string \<Rightarrow> scan_error + string \<times> string" where
  "lex_int s =
     (case s of
        [] \<Rightarrow> Inl UnexpectedEOF
      | c # cs \<Rightarrow> if c = CHR ''0'' then Inr ([c], cs)
                  else if is_digit c then Inr (c # takeWhile is_digit cs, dropWhile is_digit cs)
                  else Inl SyntaxError)"

definition lex_frac :: "string \<Rightarrow> scan_error + string \<times> string" where
  "lex_frac s =
     (case s of
        c # cs \<Rightarrow> if c = CHR ''.'' then map_sum id (\<lambda>(t, r). (c # t, r)) (lex_digits1 cs)
                  else Inr ([], s)
      | [] \<Rightarrow> Inr ([], []))"

definition lex_exp :: "string \<Rightarrow> scan_error + string \<times> string" where
  "lex_exp s =
     (case s of
        c # cs \<Rightarrow>
          if c = CHR ''e'' \<or> c = CHR ''E'' then
            (case cs of
               d # ds \<Rightarrow>
                 if d = CHR ''+'' \<or> d = CHR ''-''
                 then map_sum id (\<lambda>(t, r). (c # d # t, r)) (lex_digits1 ds)
                 else map_sum id (\<lambda>(t, r). (c # t, r)) (lex_digits1 cs)
             | [] \<Rightarrow> Inl UnexpectedEOF)
          else Inr ([], s)
      | [] \<Rightarrow> Inr ([], []))"

definition lex_number :: "string \<Rightarrow> scan_error + string \<times> string" where
  "lex_number s =
     (let neg = (case s of c # _ \<Rightarrow> c = CHR ''-'' | [] \<Rightarrow> False);
          sign = (if neg then [CHR ''-''] else []);
          s0 = (if neg then tl s else s)
      in case lex_int s0 of
           Inl e \<Rightarrow> Inl e
         | Inr (i, s1) \<Rightarrow>
             (case lex_frac s1 of
                Inl e \<Rightarrow> Inl e
              | Inr (f, s2) \<Rightarrow>
                  (case lex_exp s2 of
                     Inl e \<Rightarrow> Inl e
                   | Inr (x, s3) \<Rightarrow> Inr (sign @ i @ f @ x, s3))))"

text \<open>The rest of \<^verbatim>\<open>true\<close>, \<^verbatim>\<open>false\<close> and \<^verbatim>\<open>null\<close> after the first letter.\<close>

fun lex_word :: "string \<Rightarrow> json \<Rightarrow> string \<Rightarrow> scan_error + json \<times> string" where
  "lex_word [] v s = Inr (v, s)"
| "lex_word (w # ws) v [] = Inl UnexpectedEOF"
| "lex_word (w # ws) v (c # cs) = (if c = w then lex_word ws v cs else Inl SyntaxError)"

section \<open>Unquoting\<close>

definition hex4 :: "string \<Rightarrow> nat" where
  "hex4 s = foldl (\<lambda>a c. 16 * a + (case hex_val c of Some n \<Rightarrow> n | None \<Rightarrow> 0)) 0 s"

definition utf8_encode :: "nat \<Rightarrow> string" where
  "utf8_encode n =
     (if n < 0x80 then [char_of n]
      else if n < 0x800 then [char_of (0xC0 + n div 64), char_of (0x80 + n mod 64)]
      else if n < 0x10000 then
        [char_of (0xE0 + n div 4096), char_of (0x80 + n div 64 mod 64), char_of (0x80 + n mod 64)]
      else
        [char_of (0xF0 + n div 262144), char_of (0x80 + n div 4096 mod 64),
         char_of (0x80 + n div 64 mod 64), char_of (0x80 + n mod 64)])"

abbreviation replacement_char :: string where
  "replacement_char \<equiv> [CHR 0xEF, CHR 0xBF, CHR 0xBD]"

definition in_range :: "nat \<Rightarrow> nat \<Rightarrow> char \<Rightarrow> bool" where
  "in_range lo hi c \<longleftrightarrow> lo \<le> of_char c \<and> of_char c \<le> hi"

text \<open>Length of the valid UTF-8 sequence at the head of the input, 0 if there is none.\<close>

definition utf8_len :: "string \<Rightarrow> nat" where
  "utf8_len s =
     (case s of
        [] \<Rightarrow> 0
      | a # r1 \<Rightarrow>
          if in_range 0 0x7F a then 1
          else (case r1 of
             [] \<Rightarrow> 0
           | b # r2 \<Rightarrow>
               if in_range 0xC2 0xDF a then (if in_range 0x80 0xBF b then 2 else 0)
               else (case r2 of
                  [] \<Rightarrow> 0
                | c # r3 \<Rightarrow>
                    let lo = (if a = CHR 0xE0 then 0xA0 else if a = CHR 0xF0 then 0x90 else 0x80);
                        hi = (if a = CHR 0xED then 0x9F else if a = CHR 0xF4 then 0x8F else 0xBF)
                    in if in_range 0xE0 0xEF a
                       then (if in_range lo hi b \<and> in_range 0x80 0xBF c then 3 else 0)
                       else (case r3 of
                          [] \<Rightarrow> 0
                        | d # _ \<Rightarrow>
                            if in_range 0xF0 0xF4 a \<and> in_range lo hi b \<and> in_range 0x80 0xBF c
                               \<and> in_range 0x80 0xBF d
                            then 4 else 0))))"

definition unescape_char :: "char \<Rightarrow> char" where
  "unescape_char e =
     (if e = CHR ''b'' then CHR 0x08 else if e = CHR ''f'' then CHR 0x0C
      else if e = CHR ''n'' then CHR 0x0A else if e = CHR ''r'' then CHR 0x0D
      else if e = CHR ''t'' then CHR 0x09 else e)"

text \<open>\<^verbatim>\<open>getu4\<close>: the code unit of a \<^verbatim>\<open>\uXXXX\<close> escape at the head of the input.\<close>

definition getu4 :: "string \<Rightarrow> nat option" where
  "getu4 s =
     (case s of
        b # u # h1 # h2 # h3 # h4 # _ \<Rightarrow>
          if b = CHR 0x5C \<and> u = CHR ''u'' \<and> list_all is_hex [h1, h2, h3, h4]
          then Some (hex4 [h1, h2, h3, h4]) else None
      | _ \<Rightarrow> None)"

definition is_surrogate :: "nat \<Rightarrow> bool" where
  "is_surrogate n \<longleftrightarrow> 0xD800 \<le> n \<and> n < 0xE000"

function unquote :: "string \<Rightarrow> string" where
  "unquote s =
     (case s of
        [] \<Rightarrow> []
      | c # cs \<Rightarrow>
          if c = CHR 0x5C then
            (case getu4 s of
               Some r \<Rightarrow>
                 if is_surrogate r then
                   (case getu4 (drop 6 s) of
                      Some r1 \<Rightarrow>
                        if r < 0xDC00 \<and> 0xDC00 \<le> r1 \<and> r1 < 0xE000
                        then utf8_encode (0x10000 + (r - 0xD800) * 1024 + (r1 - 0xDC00))
                             @ unquote (drop 12 s)
                        else replacement_char @ unquote (drop 6 s)
                    | None \<Rightarrow> replacement_char @ unquote (drop 6 s))
                 else utf8_encode r @ unquote (drop 6 s)
             | None \<Rightarrow>
                 (case cs of [] \<Rightarrow> [] | e # es \<Rightarrow> unescape_char e # unquote es))
          else (case utf8_len s of
                  0 \<Rightarrow> replacement_char @ unquote cs
                | Suc n \<Rightarrow> take (Suc n) s @ unquote (drop (Suc n) s)))"
  by pat_completeness auto
termination
  by (relation "measure length") auto

declare unquote.simps [simp del]

section \<open>Parser\<close>

text \<open>The values that do not nest: strings, the three words and numbers.\<close>

definition parse_literal :: "char \<Rightarrow> string \<Rightarrow> scan_error + json \<times> string" where
  "parse_literal c cs =
     (if c = CHR 0x22 then map_sum id (\<lambda>(b, r). (JStr (unquote b), r)) (lex_string cs)
      else if c = CHR ''t'' then lex_word ''rue'' (JBool True) cs
      else if c = CHR ''f'' then lex_word ''alse'' (JBool False) cs
      else if c = CHR ''n'' then lex_word ''ull'' JNull cs
      else if c = CHR ''-'' \<or> is_digit c
      then map_sum id (\<lambda>(t, r). (JNum t, r)) (lex_number (c # cs))
      else Inl SyntaxError)"

fun parse_value :: "nat \<Rightarrow> string \<Rightarrow> scan_error + json \<times> string"
and parse_elems :: "nat \<Rightarrow> string \<Rightarrow> scan_error + json list \<times> string"
and parse_members :: "nat \<Rightarrow> string \<Rightarrow> scan_error + (string \<times> string \<times> json) list \<times> string"
where
  "parse_value 0 s = Inl OutOfFuel"
| "parse_value (Suc n) s =
     (case skip_ws s of
        [] \<Rightarrow> Inl UnexpectedEOF
      | c # cs \<Rightarrow>
          if c = CHR ''{'' then
            (case skip_ws cs of
               [] \<Rightarrow> Inl UnexpectedEOF
             | d # ds \<Rightarrow> if d = CHR ''}'' then Inr (JObj [], ds)
                         else map_sum id (\<lambda>(ms, r). (JObj ms, r)) (parse_members n (d # ds)))
          else if c = CHR ''['' then
            (case skip_ws cs of
               [] \<Rightarrow> Inl UnexpectedEOF
             | d # ds \<Rightarrow> if d = CHR '']'' then Inr (JArr [], ds)
                         else map_sum id (\<lambda>(vs, r). (JArr vs, r)) (parse_elems n (d # ds)))
          else parse_literal c cs)"
| "parse_elems 0 s = Inl OutOfFuel"
| "parse_elems (Suc n) s =
     (case parse_value n s of
        Inl e \<Rightarrow> Inl e
      | Inr (v, r) \<Rightarrow>
          (case skip_ws r of
             [] \<Rightarrow> Inl UnexpectedEOF
           | c # cs \<Rightarrow>
               if c = CHR '','' then map_sum id (\<lambda>(vs, r'). (v # vs, r')) (parse_elems n cs)
               else if c = CHR '']'' then Inr ([v], cs)
               else Inl SyntaxError))"
| "parse_members 0 s = Inl OutOfFuel"
| "parse_members (Suc n) s =
     (case skip_ws s of
        [] \<Rightarrow> Inl UnexpectedEOF
      | q # cs \<Rightarrow>
          if q \<noteq> CHR 0x22 then Inl SyntaxError
          else (case lex_string cs of
             Inl e \<Rightarrow> Inl e
           | Inr (k, r1) \<Rightarrow>
               (case skip_ws r1 of
                  [] \<Rightarrow> Inl UnexpectedEOF
                | c # r2 \<Rightarrow>
                    if c \<noteq> CHR '':'' then Inl SyntaxError
                    else (case parse_value n r2 of
                       Inl e \<Rightarrow> Inl e
                     | Inr (v, r3) \<Rightarrow>
                         let t = skip_ws r2; m = (unquote k, take (length t - length r3) t, v)
                         in (case skip_ws r3 of
                               [] \<Rightarrow> Inl UnexpectedEOF
                             | d # r4 \<Rightarrow>
                                 if d = CHR '','' then
                                   map_sum id (\<lambda>(ms, r'). (m # ms, r')) (parse_members n r4)
                                 else if d = CHR ''}'' then Inr ([m], r4)
                                 else Inl SyntaxError)))))"

declare parse_value.simps [simp del] parse_elems.simps [simp del] parse_members.simps [simp del]

text \<open>
  Every call of \<open>parse_value\<close> for an element or a member is made by a helper that has
  spent one unit of fuel itself, so two units per byte are enough.
\<close>

definition parse :: "string \<Rightarrow> scan_error + json \<times> string" where
  "parse s = parse_value (2 * length s + 2) s"

text \<open>
  \<^verbatim>\<open>json.Unmarshal\<close> checks the whole input first and reports any failure as
  \<^verbatim>\<open>SyntaxError\<close>; \<^verbatim>\<open>Decoder.Decode\<close> reads one value and tells an empty
  input (\<^verbatim>\<open>io.EOF\<close>) from a truncated one (\<^verbatim>\<open>io.ErrUnexpectedEOF\<close>).
\<close>

definition json_valid :: "string \<Rightarrow> json option" where
  "json_valid s =
     (case parse s of
        Inl _ \<Rightarrow> None
      | Inr (v, r) \<Rightarrow> if skip_ws r = [] then Some v else None)"

datatype decode_error = EOF | ErrUnexpectedEOF | DSyntaxError

definition decoder_decode :: "string \<Rightarrow> decode_error + json" where
  "decoder_decode s =
     (if skip_ws s = [] then Inl EOF
      else case parse s of
             Inl UnexpectedEOF \<Rightarrow> Inl ErrUnexpectedEOF
           | Inl _ \<Rightarrow> Inl DSyntaxError
           | Inr (v, _) \<Rightarrow> Inr v)"

section \<open>Evaluation\<close>

text \<open>The tests on single characters are evaluated on their bits.\<close>

lemma control_char: "(of_char c :: nat) < 32 \<longleftrightarrow> \<not> digit5 c \<and> \<not> digit6 c \<and> \<not> digit7 c"
  by (cases c) (auto simp: of_char_def)

lemma in_range_ascii: "in_range 0 0x7F c \<longleftrightarrow> \<not> digit7 c"
  by (cases c) (simp add: in_range_def of_char_def)

lemmas lex_string_code [code] = lex_string.simps [unfolded control_char]

lemmas utf8_len_code [code] = utf8_len_def [unfolded in_range_ascii]

section \<open>Every scan consumes input, and the fuel is enough\<close>

lemma lex_string_shorter: "lex_string s = Inr (b, r) \<Longrightarrow> length r < length s"
proof (induction "length s" arbitrary: s b rule: less_induct)
  case less
  have IH: "length r < length t" if "lex_string t = Inr (b', r)" "length t < length s" for t b'
    using less.hyps that by blast
  show ?case
  proof (cases s)
    case Nil
    with less.prems show ?thesis by simp
  next
    case (Cons c cs)
    then show ?thesis
      using less.prems
      by (auto split: if_splits list.splits dest!: IH)
  qed
qed

lemma lex_digits1_shorter: "lex_digits1 s = Inr (t, r) \<Longrightarrow> length r < length s"
  by (cases s) (auto simp: lex_digits1_def less_Suc_eq_le length_dropWhile_le split: if_splits)

lemma lex_int_shorter: "lex_int s = Inr (t, r) \<Longrightarrow> length r < length s"
  by (cases s) (auto simp: lex_int_def less_Suc_eq_le length_dropWhile_le split: if_splits)

lemma lex_frac_le: "lex_frac s = Inr (t, r) \<Longrightarrow> length r \<le> length s"
  by (cases s) (auto simp: lex_frac_def split: if_splits dest!: lex_digits1_shorter)

lemma lex_exp_le: "lex_exp s = Inr (t, r) \<Longrightarrow> length r \<le> length s"
  by (cases s) (auto simp: lex_exp_def split: if_splits list.splits dest!: lex_digits1_shorter)

lemma lex_number_shorter:
  assumes "lex_number s = Inr (t, r)"
  shows "length r < length s"
proof -
  define s0 where "s0 = (if (case s of c # _ \<Rightarrow> c = CHR ''-'' | [] \<Rightarrow> False) then tl s else s)"
  obtain i s1 f s2 x where "lex_int s0 = Inr (i, s1)" "lex_frac s1 = Inr (f, s2)" "lex_exp s2 = Inr (x, r)"
    using assms unfolding lex_number_def Let_def s0_def [symmetric]
    by (auto split: sum.splits)
  then have "length r < length s0"
    using lex_int_shorter lex_frac_le lex_exp_le by fastforce
  then show ?thesis
    by (simp add: s0_def split: if_splits)
qed

lemma lex_word_le: "lex_word w v s = Inr (v', r) \<Longrightarrow> length r \<le> length s"
  by (induction w v s rule: lex_word.induct) (auto split: if_splits)

lemma skip_ws_ConsD: "skip_ws s = c # cs \<Longrightarrow> length cs < length s"
  by (metis skip_ws_def length_dropWhile_le length_Cons Suc_le_eq)

lemma parse_literal_shorter: 
  assumes "parse_literal c cs = Inr (v, r)" shows "length r \<le> length cs"
proof -
  have "length r \<le> length cs" if "lex_string cs = Inr (b, r)" for b
    using lex_string_shorter [OF that] by simp
  moreover have "length r \<le> length cs" if "lex_number (c # cs) = Inr (t, r)" for t
    using lex_number_shorter [OF that] by simp
  ultimately show ?thesis
    using assms unfolding parse_literal_def
    by (auto split: if_splits dest: lex_word_le)
qed

lemma parse_value_shorter_step:
  assumes IHm: "\<And>t ms r. parse_members n t = Inr (ms, r) \<Longrightarrow> length r < length t"
    and IHe: "\<And>t vs r. parse_elems n t = Inr (vs, r) \<Longrightarrow> length r < length t"
    and eq: "parse_value (Suc n) s = Inr (v, r)"
  shows "length r < length s"
proof -
  obtain c cs where s: "skip_ws s = c # cs"
    using eq by (cases "skip_ws s") (auto simp: parse_value.simps(2))
  have "length r \<le> length cs"
  proof (cases "c = CHR ''{'' \<or> c = CHR ''[''")
    case True
    then obtain d ds where d: "skip_ws cs = d # ds"
      using eq s by (cases "skip_ws cs") (auto simp: parse_value.simps(2))
    show ?thesis
      using eq s True d skip_ws_ConsD [OF d]
      by (auto simp: parse_value.simps(2) split: if_splits dest!: IHm IHe)
  next
    case False
    then have "parse_literal c cs = Inr (v, r)"
      using eq s by (simp add: parse_value.simps(2))
    then show ?thesis
      by (rule parse_literal_shorter)
  qed
  then show ?thesis
    using skip_ws_ConsD [OF s] by simp
qed

lemma parse_elems_SucE:
  assumes "parse_elems (Suc n) s = Inr (vs, r)"
  obtains v r1 cs where "parse_value n s = Inr (v, r1)" and "skip_ws r1 = CHR '']'' # cs" and "vs = [v]" and "r = cs"
  | v r1 cs vs' where "parse_value n s = Inr (v, r1)" and "skip_ws r1 = CHR '','' # cs"
      and "parse_elems n cs = Inr (vs', r)" and "vs = v # vs'"
proof -
  obtain v r1 where v: "parse_value n s = Inr (v, r1)"
    using assms by (cases "parse_value n s") (auto simp: parse_elems.simps(2))
  obtain c cs where c: "skip_ws r1 = c # cs"
    using assms v by (cases "skip_ws r1") (auto simp: parse_elems.simps(2))
  show ?thesis
    using assms v c that by (auto simp: parse_elems.simps(2) split: if_splits)
qed

lemma parse_members_SucE:
  assumes "parse_members (Suc n) s = Inr (ms, r)"
  obtains cs k r1 r2 v r3 d r4 m where "skip_ws s = CHR 0x22 # cs" and "lex_string cs = Inr (k, r1)"
    and "skip_ws r1 = CHR '':'' # r2" and "parse_value n r2 = Inr (v, r3)" and "skip_ws r3 = d # r4"
    and "m = (unquote k, take (length (skip_ws r2) - length r3) (skip_ws r2), v)"
    and "d = CHR ''}'' \<and> ms = [m] \<and> r = r4 \<or>
         d = CHR '','' \<and> (\<exists>ms'. parse_members n r4 = Inr (ms', r) \<and> ms = m # ms')"
proof -
  note eq = assms [unfolded parse_members.simps(2) Let_def]
  obtain q cs where q: "skip_ws s = q # cs"
    using eq by (cases "skip_ws s") auto
  have q2: "q = CHR 0x22"
    using eq q by (simp split: if_splits)
  obtain k r1 where k: "lex_string cs = Inr (k, r1)"
    using eq q q2 by (cases "lex_string cs") auto
  obtain c r2 where c: "skip_ws r1 = c # r2"
    using eq q q2 k by (cases "skip_ws r1") auto
  have c2: "c = CHR '':''"
    using eq q q2 k c by (simp split: if_splits)
  obtain v r3 where v: "parse_value n r2 = Inr (v, r3)"
    using eq q q2 k c c2 by (cases "parse_value n r2") auto
  obtain d r4 where d: "skip_ws r3 = d # r4"
    using eq q q2 k c c2 v by (cases "skip_ws r3") auto
  show ?thesis
    by (rule that [OF q [unfolded q2] k c [unfolded c2] v d refl])
       (use eq q q2 k c c2 v d in \<open>auto split: if_splits\<close>)
qed

lemma parse_shorter:
  "(\<forall>s v r. parse_value n s = Inr (v, r) \<longrightarrow> length r < length s) \<and>
   (\<forall>s vs r. parse_elems n s = Inr (vs, r) \<longrightarrow> length r < length s) \<and>
   (\<forall>s ms r. parse_members n s = Inr (ms, r) \<longrightarrow> length r < length s)"
proof (induction n)
  case 0
  show ?case by (simp add: parse_value.simps(1) parse_elems.simps(1) parse_members.simps(1))
next
  case (Suc n)
  have V: "length r < length s" if "parse_value n s = Inr (v, r)" for s v r using Suc that by blast
  have E: "length r < length s" if "parse_elems n s = Inr (v, r)" for s v r using Suc that by blast
  have M: "length r < length s" if "parse_members n s = Inr (v, r)" for s v r using Suc that by blast
  have "length r < length s" if "parse_value (Suc n) s = Inr (v, r)" for s v r
    using parse_value_shorter_step [OF M E that] .
  moreover have "length r < length s" if "parse_elems (Suc n) s = Inr (vs, r)" for s vs r
    using that by (rule parse_elems_SucE) (auto dest!: V E skip_ws_ConsD)
  moreover have "length r < length s" if "parse_members (Suc n) s = Inr (ms, r)" for s ms r
    using that by (rule parse_members_SucE) (auto dest!: V M skip_ws_ConsD lex_string_shorter)
  ultimately show ?case by blast
qed

lemma lex_string_no_fuel: "lex_string s \<noteq> Inl OutOfFuel"
proof (induction "length s" arbitrary: s rule: less_induct)
  case less
  have IH: "lex_string t \<noteq> Inl OutOfFuel" if "length t < length s" for t
    using less.hyps that by blast
  show ?case
  proof (cases s)
    case (Cons c cs)
    then show ?thesis
      by (auto split: list.splits simp: IH)
  qed simp
qed

lemma lex_digits1_no_fuel: "lex_digits1 s \<noteq> Inl OutOfFuel"
  by (cases s) (simp_all add: lex_digits1_def)

lemma lex_int_no_fuel: "lex_int s \<noteq> Inl OutOfFuel"
  by (cases s) (simp_all add: lex_int_def)

lemma lex_frac_no_fuel: "lex_frac s \<noteq> Inl OutOfFuel"
  by (cases s) (simp_all add: lex_frac_def lex_digits1_no_fuel)

lemma lex_exp_no_fuel: "lex_exp s \<noteq> Inl OutOfFuel"
  by (cases s) (simp_all add: lex_exp_def lex_digits1_no_fuel split: list.split)

lemma lex_number_no_fuel: "lex_number s \<noteq> Inl OutOfFuel"
  unfolding lex_number_def Let_def
  using lex_int_no_fuel lex_frac_no_fuel lex_exp_no_fuel by (auto split: sum.splits)

lemma lex_word_no_fuel: "lex_word w v s \<noteq> Inl OutOfFuel"
  by (induction w v s rule: lex_word.induct) auto

lemma parse_literal_no_fuel: "parse_literal c cs \<noteq> Inl OutOfFuel"
  by (auto simp: parse_literal_def lex_string_no_fuel lex_number_no_fuel lex_word_no_fuel)

lemma parse_enough:
  "(\<forall>s. 2 * length s + 1 \<le> n \<longrightarrow> parse_value n s \<noteq> Inl OutOfFuel) \<and>
   (\<forall>s. 2 * length s + 2 \<le> n \<longrightarrow> parse_elems n s \<noteq> Inl OutOfFuel) \<and>
   (\<forall>s. 2 * length s + 2 \<le> n \<longrightarrow> parse_members n s \<noteq> Inl OutOfFuel)"
proof (induction n)
  case 0
  show ?case by simp
next
  case (Suc n)
  have V: "parse_value n s \<noteq> Inl OutOfFuel" if "2 * length s + 1 \<le> n" for s using Suc that by blast
  have E: "parse_elems n s \<noteq> Inl OutOfFuel" if "2 * length s + 2 \<le> n" for s using Suc that by blast
  have M: "parse_members n s \<noteq> Inl OutOfFuel" if "2 * length s + 2 \<le> n" for s using Suc that by blast
  have "parse_value (Suc n) s \<noteq> Inl OutOfFuel" if len: "2 * length s + 1 \<le> Suc n" for s
  proof (cases "skip_ws s")
    case Nil
    then show ?thesis by (simp add: parse_value.simps(2))
  next
    case (Cons c cs)
    show ?thesis
    proof (cases "skip_ws cs")
      case Nil
      then show ?thesis using Cons by (simp add: parse_value.simps(2) parse_literal_no_fuel)
    next
      case c2: (Cons d ds)
      have "2 * length (d # ds) + 2 \<le> n"
        using skip_ws_ConsD [OF Cons] skip_ws_ConsD [OF c2] len by simp
      then show ?thesis
        using Cons c2 M [of "d # ds"] E [of "d # ds"] by (auto simp: parse_value.simps(2) parse_literal_no_fuel)
    qed
  qed
  moreover have "parse_elems (Suc n) s \<noteq> Inl OutOfFuel" if len: "2 * length s + 2 \<le> Suc n" for s
  proof (cases "parse_value n s")
    case (Inl e)
    then show ?thesis using V [of s] len by (simp add: parse_elems.simps(2))
  next
    case (Inr p)
    obtain v r where p: "p = (v, r)" by (cases p)
    have lr: "length r < length s"
      using parse_shorter [of n] Inr p by blast
    have "parse_elems n cs \<noteq> Inl OutOfFuel" if "skip_ws r = c # cs" for c cs
      using skip_ws_ConsD [OF that] lr len by (intro E) simp
    then show ?thesis
      using Inr p by (auto simp: parse_elems.simps(2) split: list.splits)
  qed
  moreover have "parse_members (Suc n) s \<noteq> Inl OutOfFuel" if len: "2 * length s + 2 \<le> Suc n" for s
  proof
    assume eq: "parse_members (Suc n) s = Inl OutOfFuel"
    note eq = eq [unfolded parse_members.simps(2) Let_def]
    obtain q cs where q: "skip_ws s = q # cs" "q = CHR 0x22"
      using eq by (auto split: list.splits if_splits)
    obtain k r1 where k: "lex_string cs = Inr (k, r1)"
      using eq q lex_string_no_fuel [of cs] by (cases "lex_string cs") auto
    obtain c r2 where c: "skip_ws r1 = c # r2" "c = CHR '':''"
      using eq q k by (auto split: list.splits if_splits)
    have l2: "length r2 < length s"
      using skip_ws_ConsD [OF q(1)] lex_string_shorter [OF k] skip_ws_ConsD [OF c(1)] by simp
    obtain v r3 where v: "parse_value n r2 = Inr (v, r3)"
      using eq q k c V [of r2] l2 len by (cases "parse_value n r2") auto
    obtain d r4 where d: "skip_ws r3 = d # r4" "parse_members n r4 = Inl OutOfFuel"
      using eq q k c v by (auto split: list.splits if_splits)
    have "length r4 < length s"
      using l2 parse_shorter [of n] v skip_ws_ConsD [OF d(1)] by fastforce
    then show False
      using d(2) M [of r4] len by simp
  qed
  ultimately show ?case by blast
qed


theorem parse_never_out_of_fuel: "parse s \<noteq> Inl OutOfFuel"
  unfolding parse_def using parse_enough [of "2 * length s + 2"] by simp

end
