(* ===== verification/Json_Codec.thy ===== *)
theory Json_Codec
  imports Json
begin

text \<open>
  Decoding of JSON values into the Go types the service uses, encoding of slices, and the
  round trips between them.
\<close>

section \<open>Decoding\<close>

definition value_kind :: "json \<Rightarrow> string" where
  "value_kind v =
     (case v of JNull \<Rightarrow> ''null'' | JBool _ \<Rightarrow> ''bool'' | JNum _ \<Rightarrow> ''number''
      | JStr _ \<Rightarrow> ''string'' | JArr _ \<Rightarrow> ''array'' | JObj _ \<Rightarrow> ''object'')"

definition type_err :: "json \<Rightarrow> gotype \<Rightarrow> type_error" where
  "type_err v t = UnmarshalTypeError (value_kind v) t []"

text \<open>A null leaves the zero value of the target untouched and is no error.\<close>

definition decode_int :: "json \<Rightarrow> type_error + int" where
  "decode_int v =
     (case v of
        JNull \<Rightarrow> Inr 0
      | JNum t \<Rightarrow>
          (case ParseInt t of
             Some i \<Rightarrow> Inr i
           | None \<Rightarrow> Inl (UnmarshalTypeError (''number '' @ t) TInt []))
      | _ \<Rightarrow> Inl (type_err v TInt))"

definition decode_string :: "json \<Rightarrow> type_error + string" where
  "decode_string v =
     (case v of JNull \<Rightarrow> Inr [] | JStr s \<Rightarrow> Inr s | _ \<Rightarrow> Inl (type_err v TString))"

text \<open>The decoder goes on after a type error and reports the first one.\<close>

fun first_error :: "('e + 'a) list \<Rightarrow> 'e + 'a list" where
  "first_error [] = Inr []"
| "first_error (Inl e # xs) = Inl e"
| "first_error (Inr a # xs) = map_sum id (Cons a) (first_error xs)"

definition decode_slice :: "gotype \<Rightarrow> (json \<Rightarrow> type_error + 'a) \<Rightarrow> json \<Rightarrow> type_error + 'a list" where
  "decode_slice t dec v =
     (case v of
        JNull \<Rightarrow> Inr []
      | JArr vs \<Rightarrow> first_error (map dec vs)
      | _ \<Rightarrow> Inl (type_err v (TSlice t)))"

abbreviation decode_ints :: "json \<Rightarrow> type_error + int list" where
  "decode_ints \<equiv> decode_slice TInt decode_int"

abbreviation decode_strings :: "json \<Rightarrow> type_error + string list" where
  "decode_strings \<equiv> decode_slice TString decode_string"

text \<open>\<^verbatim>\<open>json.Unmarshal(data, &x)\<close>: a failed syntax check or a type error.\<close>

datatype unmarshal_error = USyntaxError | UTypeError type_error

definition raw_bytes :: "raw \<Rightarrow> string" where
  "raw_bytes v = (case v of None \<Rightarrow> [] | Some bs \<Rightarrow> bs)"

definition unmarshal :: "(json \<Rightarrow> type_error + 'a) \<Rightarrow> string \<Rightarrow> unmarshal_error + 'a" where
  "unmarshal dec bs =
     (case json_valid bs of
        None \<Rightarrow> Inl USyntaxError
      | Some v \<Rightarrow> map_sum UTypeError id (dec v))"

section \<open>Object members and struct fields\<close>

text \<open>
  A member belongs to a struct field when the names agree up to letter case. Folding maps the
  two non-ASCII letters that fold to ASCII ones, the long s and the Kelvin sign, as Go does.
\<close>

definition lower_char :: "char \<Rightarrow> char" where
  "lower_char c = (if in_range 65 90 c then char_of ((of_char c :: nat) + 32) else c)"

fun fold_name :: "string \<Rightarrow> string" where
  "fold_name (a # b # c # s) =
     (if a = CHR 0xC5 \<and> b = CHR 0xBF then CHR ''s'' # fold_name (c # s)
      else if a = CHR 0xE2 \<and> b = CHR 0x84 \<and> c = CHR 0xAA then CHR ''k'' # fold_name s
      else lower_char a # fold_name (b # c # s))"
| "fold_name [a, b] =
     (if a = CHR 0xC5 \<and> b = CHR 0xBF then [CHR ''s''] else [lower_char a, lower_char b])"
| "fold_name [a] = [lower_char a]"
| "fold_name [] = []"

definition name_matches :: "string \<Rightarrow> string \<Rightarrow> bool" where
  "name_matches field name \<longleftrightarrow> fold_name name = fold_name field"

section \<open>Encoding\<close>

definition hex_digit :: "nat \<Rightarrow> char" where
  "hex_digit n = (if n < 10 then char_of (48 + n) else char_of (87 + n))"

text \<open>\<^verbatim>\<open>json.Marshal\<close> escapes the HTML characters too.\<close>

definition html_safe :: "char \<Rightarrow> bool" where
  "html_safe c \<longleftrightarrow>
     in_range 0x20 0x7F c \<and> c \<notin> {CHR 0x22, CHR 0x5C, CHR ''<'', CHR ''>'', CHR ''&''}"

definition encode_ascii :: "char \<Rightarrow> string" where
  "encode_ascii c =
     (if html_safe c then [c]
      else if c = CHR 0x22 \<or> c = CHR 0x5C then [CHR 0x5C, c]
      else if c = CHR 0x0A then [CHR 0x5C, CHR ''n'']
      else if c = CHR 0x0D then [CHR 0x5C, CHR ''r'']
      else if c = CHR 0x09 then [CHR 0x5C, CHR ''t'']
      else [CHR 0x5C, CHR ''u'', CHR ''0'', CHR ''0'',
            hex_digit ((of_char c :: nat) div 16), hex_digit ((of_char c :: nat) mod 16)])"

function encode_body :: "string \<Rightarrow> string" where
  "encode_body s =
     (case s of
        [] \<Rightarrow> []
      | c # cs \<Rightarrow>
          if in_range 0 0x7F c then encode_ascii c @ encode_body cs
          else (case utf8_len s of
                  0 \<Rightarrow> CHR 0x5C # ''ufffd'' @ encode_body cs
                | Suc n \<Rightarrow>
                    (if take 2 s = [CHR 0xE2, CHR 0x80] \<and> take 1 (drop 2 s) = [CHR 0xA8]
                     then CHR 0x5C # ''u2028''
                     else if take 2 s = [CHR 0xE2, CHR 0x80] \<and> take 1 (drop 2 s) = [CHR 0xA9]
                     then CHR 0x5C # ''u2029''
                     else take (Suc n) s) @ encode_body (drop (Suc n) s)))"
  by pat_completeness auto
termination
  by (relation "measure length") auto

declare encode_body.simps [simp del]

definition marshal_string :: "string \<Rightarrow> string" where
  "marshal_string s = CHR 0x22 # encode_body s @ [CHR 0x22]"

definition marshal_list :: "string list \<Rightarrow> string" where
  "marshal_list ts = CHR ''['' # join_with '','' ts @ '']''"

definition marshal_ints :: "int list \<Rightarrow> string" where
  "marshal_ints xs = marshal_list (map Itoa xs)"

definition marshal_strings :: "string list \<Rightarrow> string" where
  "marshal_strings xs = marshal_list (map marshal_string xs)"


text \<open>Canonical text of a JSON value, and the values that have one.\<close>

fun render :: "json \<Rightarrow> string" where
  "render JNull = ''null''"
| "render (JBool b) = (if b then ''true'' else ''false'')"
| "render (JNum t) = t"
| "render (JStr s) = marshal_string s"
| "render (JArr vs) = marshal_list (map render vs)"
| "render (JObj ms) =
     CHR ''{'' # join_with '','' (map (\<lambda>(n, _, v). marshal_string n @ CHR '':'' # render v) ms) @ ''}''"

definition is_ascii :: "char \<Rightarrow> bool" where
  "is_ascii c \<longleftrightarrow> in_range 0 0x7F c"

lemma is_ascii_code [code]: "is_ascii c \<longleftrightarrow> \<not> digit7 c"
  by (simp add: is_ascii_def in_range_ascii)

fun canonical :: "json \<Rightarrow> bool" where
  "canonical JNull \<longleftrightarrow> True"
| "canonical (JBool b) \<longleftrightarrow> True"
| "canonical (JNum t) \<longleftrightarrow> (case ParseInt t of Some i \<Rightarrow> Itoa i = t | None \<Rightarrow> False)"
| "canonical (JStr s) \<longleftrightarrow> list_all is_ascii s"
| "canonical (JArr vs) \<longleftrightarrow> list_all canonical vs"
| "canonical (JObj ms) \<longleftrightarrow>
     list_all (\<lambda>(n, t, v). list_all is_ascii n \<and> t = render v \<and> canonical v) ms"

abbreviation render_member :: "string \<times> string \<times> json \<Rightarrow> string" where
  "render_member \<equiv> \<lambda>(n, _, v). marshal_string n @ CHR '':'' # render v"

section \<open>Round trips\<close>

text \<open>What may follow a value in encoded form.\<close>

definition delim :: "string \<Rightarrow> bool" where
  "delim r \<longleftrightarrow> (case r of [] \<Rightarrow> True | c # _ \<Rightarrow> c = CHR '','' \<or> c = CHR '']'' \<or> c = CHR ''}'' \<or> is_ws c)"

lemma delim_simps [simp]:
  "delim []" "delim (CHR '','' # r)" "delim (CHR '']'' # r)" "delim (CHR ''}'' # r)" "is_ws c \<Longrightarrow> delim (c # r)"
  by (simp_all add: delim_def)

lemma first_error_map_Inr: "(\<And>x. x \<in> set xs \<Longrightarrow> f x = Inr (g x)) \<Longrightarrow> first_error (map f xs) = Inr (map g xs)"
  by (induction xs) auto


subsection \<open>Integers\<close>

lemma show_nat_hd: "0 < n \<Longrightarrow> hd (show_nat n) \<noteq> CHR ''0''"
proof (induction n rule: show_nat.induct)
  case (1 n)
  show ?case
  proof (cases "n < 10")
    case True
    have "of_char (digit n) \<noteq> (of_char (CHR ''0'') :: nat)"
      using True "1.prems" by simp
    then have "digit n \<noteq> CHR ''0''" by metis
    with True show ?thesis by (subst show_nat.simps) simp
  next
    case False
    then have "hd (show_nat (n div 10)) \<noteq> CHR ''0''"
      using "1.IH" by simp
    with False show ?thesis by (subst show_nat.simps) simp
  qed
qed

lemma show_nat_0: "show_nat 0 = ''0''"
  by code_simp

lemma delim_no_number:
  assumes "delim r"
  shows "takeWhile is_digit r = []" and "dropWhile is_digit r = r" and "lex_frac r = Inr ([], r)"
    and "lex_exp r = Inr ([], r)"
  using assms
  by (auto simp: delim_def is_ws_def is_digit_def lex_frac_def lex_exp_def split: list.splits)

lemma lex_int_show_nat:
  assumes "delim r"
  shows "lex_int (show_nat n @ r) = Inr (show_nat n, r)"
proof (cases "n = 0")
  case True
  then show ?thesis by (simp add: show_nat_0 lex_int_def)
next
  case False
  obtain c cs where s: "show_nat n = c # cs" and c: "is_digit c" and cs: "list_all is_digit cs"
    by (rule show_nat_Cons)
  have "c \<noteq> CHR ''0''"
    using show_nat_hd [of n] False s by simp
  moreover have "takeWhile is_digit (cs @ r) = cs" and "dropWhile is_digit (cs @ r) = r"
    using cs delim_no_number(1,2) [OF assms] by (simp_all add: list_all_iff takeWhile_append dropWhile_append)
  ultimately show ?thesis
    using s c by (simp add: lex_int_def)
qed

lemma lex_number_Itoa:
  assumes "delim r"
  shows "lex_number (Itoa i @ r) = Inr (Itoa i, r)"
proof (cases "i < 0")
  case True
  then show ?thesis
    using lex_int_show_nat [OF assms, of "nat (- i)"] delim_no_number [OF assms]
    by (simp add: lex_number_def Itoa_def Let_def)
next
  case False
  obtain c cs where s: "show_nat (nat i) = c # cs" and c: "is_digit c"
    by (rule show_nat_Cons)
  show ?thesis
    using False lex_int_show_nat [OF assms, of "nat i"] delim_no_number [OF assms] s is_digit_not_minus [OF c]
    by (simp add: lex_number_def Itoa_def Let_def)
qed

lemma Itoa_hd: obtains c cs where "Itoa i = c # cs" and "c = CHR ''-'' \<or> is_digit c"
  by (cases "i < 0") (auto simp: Itoa_def intro: show_nat_Cons [of "nat i"])

lemma number_start:
  assumes "c = CHR ''-'' \<or> is_digit c"
  shows "\<not> is_ws c" and "c \<notin> {CHR ''{'', CHR ''['', CHR '']'', CHR 0x22, CHR ''t'', CHR ''f'', CHR ''n''}"
  using assms by (auto simp: is_ws_def is_digit_def)

lemma parse_value_Itoa:
  assumes "delim r"
  shows "parse_value (Suc n) (Itoa i @ r) = Inr (JNum (Itoa i), r)"
proof -
  obtain c cs where s: "Itoa i = c # cs" and c: "c = CHR ''-'' \<or> is_digit c"
    by (rule Itoa_hd)
  show ?thesis
    using lex_number_Itoa [OF assms, of i] number_start [OF c] c s
    by (auto simp: parse_value.simps(2) parse_literal_def skip_ws_def)
qed

subsection \<open>ASCII strings\<close>

definition hex_escape :: "nat \<Rightarrow> string" where
  "hex_escape n = [CHR ''0'', CHR ''0'', hex_digit (n div 16), hex_digit (n mod 16)]"

lemma hex_val_hex_digit: "n < 16 \<Longrightarrow> hex_val (hex_digit n) = Some n"
  by (auto simp: hex_val_def hex_digit_def Let_def)

lemma hex_val_zero: "hex_val CHR ''0'' = Some 0"
  by (simp add: hex_val_def)

lemma hex_escape_ok:
  assumes "n < 128"
  shows "list_all is_hex (hex_escape n)" and "hex4 (hex_escape n) = n" and "length (hex_escape n) = 4"
proof -
  have "n div 16 < 16" using assms by simp
  then show "list_all is_hex (hex_escape n)" and "hex4 (hex_escape n) = n"
    by (simp_all add: hex_escape_def is_hex_def hex4_def hex_val_hex_digit hex_val_zero)
qed (simp add: hex_escape_def)

text \<open>The three shapes of an encoded ASCII character.\<close>

lemma encode_ascii_cases:
  assumes "is_ascii c"
  obtains (plain) "encode_ascii c = [c]" and "c \<noteq> CHR 0x22" and "c \<noteq> CHR 0x5C" and "32 \<le> (of_char c :: nat)"
  | (short) e where "encode_ascii c = [CHR 0x5C, e]" and "is_escape e" and "unescape_char e = c"
  | (hex) "encode_ascii c = CHR 0x5C # CHR ''u'' # hex_escape (of_char c)"
proof -
  consider "html_safe c" | "c \<in> {CHR 0x22, CHR 0x5C, CHR 0x0A, CHR 0x0D, CHR 0x09}"
    | "\<not> html_safe c" "c \<notin> {CHR 0x22, CHR 0x5C, CHR 0x0A, CHR 0x0D, CHR 0x09}"
    by blast
  then show thesis
  proof cases
    case 1
    then show thesis
      using plain by (simp add: encode_ascii_def html_safe_def in_range_def)
  next
    case 2
    then have "\<exists>e. encode_ascii c = [CHR 0x5C, e] \<and> is_escape e \<and> unescape_char e = c"
      by (auto simp: encode_ascii_def html_safe_def in_range_def is_escape_def unescape_char_def)
    then show thesis using short by blast
  next
    case 3
    then show thesis
      using hex by (simp add: encode_ascii_def hex_escape_def)
  qed
qed

lemma utf8_len_ascii: "is_ascii c \<Longrightarrow> utf8_len (c # s) = 1"
  by (simp add: utf8_len_def is_ascii_def)

lemma unquote_plain:
  assumes "is_ascii c" and "c \<noteq> CHR 0x5C"
  shows "unquote (c # s) = c # unquote s"
  using assms by (subst unquote.simps) (simp add: utf8_len_ascii)

lemma unquote_short:
  assumes "is_escape e"
  shows "unquote (CHR 0x5C # e # s) = unescape_char e # unquote s"
proof -
  have "getu4 (CHR 0x5C # e # s) = None"
    using assms by (auto simp: getu4_def is_escape_def split: list.split)
  then show ?thesis by (subst unquote.simps) simp
qed

lemma is_ascii_of_char: "is_ascii c \<Longrightarrow> (of_char c :: nat) < 128"
  by (simp add: is_ascii_def in_range_def)

lemma unquote_hex:
  assumes "is_ascii c"
  shows "unquote (CHR 0x5C # CHR ''u'' # hex_escape (of_char c) @ s) = c # unquote s"
proof -
  note n = is_ascii_of_char [OF assms]
  note h = hex_escape_ok [OF n]
  have "getu4 (CHR 0x5C # CHR ''u'' # hex_escape (of_char c) @ s) = Some (of_char c)"
    using h by (simp add: getu4_def hex_escape_def)
  moreover have "utf8_encode (of_char c) = [c]"
    using n by (simp add: utf8_encode_def)
  ultimately show ?thesis
    using n by (subst unquote.simps) (simp add: is_surrogate_def hex_escape_def)
qed

lemma encode_body_ascii: "is_ascii c \<Longrightarrow> encode_body (c # s) = encode_ascii c @ encode_body s"
  by (subst encode_body.simps) (simp add: is_ascii_def)

lemma encode_body_Nil: "encode_body [] = []"
  by (subst encode_body.simps) simp

lemma lex_string_hex:
  assumes "list_all is_hex h" and "length h = 4" and "lex_string t = Inr (b, r)"
  shows "lex_string (CHR 0x5C # CHR ''u'' # h @ t) = Inr (CHR 0x5C # CHR ''u'' # h @ b, r)"
proof -
  obtain h1 h2 h3 h4 where "h = [h1, h2, h3, h4]"
    using assms(2) by (auto simp: length_Suc_conv eval_nat_numeral)
  then show ?thesis using assms by (simp add: is_escape_def)
qed

lemma lex_string_encode:
  "list_all is_ascii s \<Longrightarrow> lex_string (encode_body s @ CHR 0x22 # r) = Inr (encode_body s, r)"
proof (induction s)
  case Nil
  then show ?case by (simp add: encode_body_Nil)
next
  case (Cons c s)
  then have c: "is_ascii c" and IH: "lex_string (encode_body s @ CHR 0x22 # r) = Inr (encode_body s, r)"
    by simp_all
  from c show ?case
  proof (cases rule: encode_ascii_cases)
    case plain
    then show ?thesis using c IH by (simp add: encode_body_ascii)
  next
    case (short e)
    then show ?thesis using c IH by (simp add: encode_body_ascii)
  next
    case hex
    note h = hex_escape_ok [OF is_ascii_of_char [OF c]]
    show ?thesis
      using hex c lex_string_hex [OF h(1) h(3) IH] by (simp add: encode_body_ascii del: lex_string.simps)
  qed
qed

lemma unquote_Nil: "unquote [] = []"
  by (subst unquote.simps) simp

lemma unquote_encode: "list_all is_ascii s \<Longrightarrow> unquote (encode_body s) = s"
proof (induction s)
  case Nil
  then show ?case by (simp add: encode_body_Nil unquote_Nil)
next
  case (Cons c s)
  then have c: "is_ascii c" and IH: "unquote (encode_body s) = s"
    by simp_all
  from c show ?case
  proof (cases rule: encode_ascii_cases)
    case plain
    then show ?thesis using c IH by (simp add: encode_body_ascii unquote_plain)
  next
    case (short e)
    then show ?thesis using c IH by (simp add: encode_body_ascii unquote_short)
  next
    case hex
    then show ?thesis using c IH by (simp add: encode_body_ascii unquote_hex)
  qed
qed

lemma parse_value_marshal_string:
  assumes "list_all is_ascii s"
  shows "parse_value (Suc n) (marshal_string s @ r) = Inr (JStr s, r)"
  using lex_string_encode [OF assms, of r] unquote_encode [OF assms]
  by (simp add: marshal_string_def parse_value.simps(2) skip_ws_def is_ws_def parse_literal_def)

subsection \<open>Canonical values\<close>

lemma render_hd:
  assumes "canonical v"
  shows "\<exists>c cs. render v = c # cs \<and> \<not> is_ws c \<and> c \<noteq> CHR '']'' \<and> c \<noteq> CHR ''}''"
proof (cases v)
  case (JNum t)
  with assms obtain i where t: "t = Itoa i"
    by (auto split: option.splits)
  obtain c cs where eq: "Itoa i = c # cs" and c: "c = CHR ''-'' \<or> is_digit c"
    by (rule Itoa_hd)
  have "render v = c # cs" and "c \<noteq> CHR ''}''"
    using JNum t eq c by (auto simp: is_digit_def)
  then show ?thesis
    using number_start [OF c] by blast
qed (simp_all add: is_ws_def marshal_string_def marshal_list_def)

lemma skip_ws_render: "canonical v \<Longrightarrow> skip_ws (render v @ r) = render v @ r"
  using render_hd [of v] by (auto simp: skip_ws_def)

lemma skip_ws_Cons: "\<not> is_ws c \<Longrightarrow> skip_ws (c # s) = c # s"
  by (simp add: skip_ws_def)

lemma not_ws [simp]:
  "\<not> is_ws CHR ''{''" "\<not> is_ws CHR ''['' " "\<not> is_ws CHR ''}''" "\<not> is_ws CHR '']''" "\<not> is_ws CHR '',''"
  "\<not> is_ws CHR '':''" "\<not> is_ws CHR 0x22" "\<not> is_ws CHR ''t''" "\<not> is_ws CHR ''f''" "\<not> is_ws CHR ''n''"
  by (simp_all add: is_ws_def)

text \<open>
  A text of a value: it starts with the first character of the value, and a scan of it ends
  where a delimiter or white space follows. The text of an object is made of the texts of its
  members.
\<close>

definition text_of :: "string \<Rightarrow> json \<Rightarrow> bool" where
  "text_of t v \<longleftrightarrow>
     (\<exists>c cs. t = c # cs \<and> \<not> is_ws c \<and> c \<noteq> CHR '']'' \<and> c \<noteq> CHR ''}'') \<and>
     (\<forall>n r. 2 * length t + 2 \<le> n \<longrightarrow> delim r \<longrightarrow> parse_value n (t @ r) = Inr (v, r))"

abbreviation member_text :: "string \<times> string \<times> json \<Rightarrow> string" where
  "member_text \<equiv> \<lambda>(n, t, _). marshal_string n @ CHR '':'' # t"

definition obj_text :: "(string \<times> string \<times> json) list \<Rightarrow> string" where
  "obj_text ms = CHR ''{'' # join_with '','' (map member_text ms) @ ''}''"

lemma text_of_parse: "text_of t v \<Longrightarrow> delim r \<Longrightarrow> 2 * length t + 2 \<le> n \<Longrightarrow> parse_value n (t @ r) = Inr (v, r)"
  by (simp add: text_of_def)

lemma text_of_hd:
  assumes "text_of t v"
  obtains c cs where "t = c # cs" "\<not> is_ws c" "c \<noteq> CHR '']''" "c \<noteq> CHR ''}''"
  using assms unfolding text_of_def by blast

lemma skip_ws_text: "text_of t v \<Longrightarrow> skip_ws (t @ r) = t @ r"
  by (erule text_of_hd) (simp add: skip_ws_Cons)

lemma length_join_with: "(\<Sum>t\<leftarrow>ts. length t + 1) \<le> length (join_with '','' ts) + 1"
  by (induction "'',''" ts rule: join_with.induct) auto

lemma parse_elems_text:
  assumes "list_all2 text_of ts vs" "vs \<noteq> []" "2 * (\<Sum>t\<leftarrow>ts. length t + 1) + 1 \<le> n"
  shows "parse_elems n (join_with '','' ts @ CHR '']'' # r) = Inr (vs, r)"
  using assms
proof (induction ts vs arbitrary: n rule: list_all2_induct)
  case Nil
  then show ?case by simp
next
  case (Cons t ts v vs)
  obtain m where n: "n = Suc m" and m: "2 * length t + 2 \<le> m" "2 * (\<Sum>t\<leftarrow>ts. length t + 1) + 1 \<le> m"
    using Cons.prems(2) by (cases n) auto
  note v = text_of_parse [OF Cons.hyps(1) _ m(1)]
  show ?case
  proof (cases "vs = []")
    case True
    then have "ts = []" using Cons.hyps(2) by simp
    with True n v show ?thesis
      by (simp add: parse_elems.simps(2) skip_ws_Cons)
  next
    case False
    then have "ts \<noteq> []" using Cons.hyps(2) by auto
    with False n v Cons.IH [OF False m(2)] show ?thesis
      by (simp add: join_with_Cons parse_elems.simps(2) skip_ws_Cons)
  qed
qed

lemma parse_member_text:
  assumes "list_all is_ascii k" and "text_of t v" and "parse_value n (t @ s) = Inr (v, s)"
  shows "parse_members (Suc n) (member_text (k, t, v) @ s) =
    (case skip_ws s of
       [] \<Rightarrow> Inl UnexpectedEOF
     | d # r4 \<Rightarrow>
         if d = CHR '','' then map_sum id (\<lambda>(ms, r'). ((k, t, v) # ms, r')) (parse_members n r4)
         else if d = CHR ''}'' then Inr ([(k, t, v)], r4)
         else Inl SyntaxError)"
proof -
  have "take (length (t @ s) - length s) (t @ s) = t" by simp
  then show ?thesis
    using lex_string_encode [OF assms(1)] unquote_encode [OF assms(1)] assms(3) skip_ws_text [OF assms(2)]
    by (simp only: parse_members.simps(2) marshal_string_def skip_ws_Cons Let_def not_ws append_Cons
        append_assoc prod.case list.case sum.case if_False if_True append_Nil simp_thms)
qed

abbreviation member_ok :: "string \<times> string \<times> json \<Rightarrow> bool" where
  "member_ok \<equiv> \<lambda>(k, t, v). list_all is_ascii k \<and> text_of t v"

lemma parse_members_text:
  assumes "list_all member_ok ms" "ms \<noteq> []" "2 * (\<Sum>t\<leftarrow>map member_text ms. length t + 1) + 1 \<le> n"
  shows "parse_members n (join_with '','' (map member_text ms) @ CHR ''}'' # r) = Inr (ms, r)"
  using assms
proof (induction ms arbitrary: n)
  case Nil
  then show ?case by simp
next
  case (Cons x ms)
  obtain k t v where x: "x = (k, t, v)" by (cases x)
  obtain m where n: "n = Suc m" and m: "2 * length t + 2 \<le> m"
      "2 * (\<Sum>t\<leftarrow>map member_text ms. length t + 1) + 1 \<le> m"
    using Cons.prems(3) x by (cases n) auto
  have h: "list_all is_ascii k" "text_of t v"
    using Cons.prems(1) x by simp_all
  note v = text_of_parse [OF h(2) _ m(1)]
  show ?case
  proof (cases "ms = []")
    case True
    from parse_member_text [OF h v] show ?thesis
      using True n x by (simp add: skip_ws_Cons)
  next
    case False
    have "parse_members m (join_with '','' (map member_text ms) @ CHR ''}'' # r) = Inr (ms, r)"
      using Cons.IH [OF _ False m(2)] Cons.prems(1) by simp
    then show ?thesis
      using parse_member_text [OF h v, of "CHR '','' # join_with '','' (map member_text ms) @ CHR ''}'' # r"] False n x
      by (simp add: join_with_Cons skip_ws_Cons)
  qed
qed

lemma parse_obj_text:
  assumes "list_all member_ok ms" "2 * length (obj_text ms) + 1 \<le> n"
  shows "parse_value n (obj_text ms @ r) = Inr (JObj ms, r)"
proof -
  obtain m where m: "n = Suc m" "2 * (\<Sum>t\<leftarrow>map member_text ms. length t + 1) + 1 \<le> m"
    using assms(2) length_join_with [of "map member_text ms"] by (cases n) (auto simp: obj_text_def)
  show ?thesis
  proof (cases ms)
    case Nil
    then show ?thesis
      using m by (simp add: obj_text_def parse_value.simps(2) skip_ws_Cons)
  next
    case (Cons w ws)
    let ?b = "join_with '','' (map member_text ms) @ CHR ''}'' # r"
    have b: "parse_members m ?b = Inr (ms, r)"
      using parse_members_text [OF assms(1) _ m(2)] Cons by simp
    obtain ds where d: "?b = CHR 0x22 # ds"
      using Cons by (cases ws; cases w) (auto simp: marshal_string_def)
    show ?thesis
      using m(1) b d by (simp add: obj_text_def parse_value.simps(2) skip_ws_Cons)
  qed
qed

lemma text_of_obj: "list_all member_ok ms \<Longrightarrow> text_of (obj_text ms) (JObj ms)"
  using parse_obj_text [of ms] by (auto simp: text_of_def) (simp_all add: obj_text_def)

lemma text_of_arr:
  assumes "list_all2 text_of ts vs"
  shows "text_of (marshal_list ts) (JArr vs)"
proof -
  have "parse_value n (marshal_list ts @ r) = Inr (JArr vs, r)" if len: "2 * length (marshal_list ts) + 2 \<le> n" for n r
  proof -
    obtain m where m: "n = Suc m" "2 * (\<Sum>t\<leftarrow>ts. length t + 1) + 1 \<le> m"
      using len length_join_with [of ts] by (cases n) (auto simp: marshal_list_def)
    show ?thesis
    proof (cases vs)
      case Nil
      then show ?thesis
        using m assms by (simp add: marshal_list_def parse_value.simps(2) skip_ws_Cons)
    next
      case (Cons w ws)
      then obtain t ts' where ts: "ts = t # ts'" "text_of t w"
        using assms by (cases ts) auto
      let ?b = "join_with '','' ts @ CHR '']'' # r"
      have b: "parse_elems m ?b = Inr (vs, r)"
        using parse_elems_text [OF assms _ m(2)] Cons by simp
      obtain c cs where c: "t = c # cs" "\<not> is_ws c" "c \<noteq> CHR '']''"
        using ts(2) by (rule text_of_hd)
      then obtain ds where d: "?b = c # ds"
        using ts by (cases ts') auto
      show ?thesis
        using m(1) b d c by (simp add: marshal_list_def parse_value.simps(2) skip_ws_Cons)
    qed
  qed
  then show ?thesis
    by (simp add: text_of_def) (simp add: marshal_list_def)
qed

lemma text_of_literal:
  assumes "canonical v" "\<And>n r. delim r \<Longrightarrow> parse_value (Suc n) (render v @ r) = Inr (v, r)"
  shows "text_of (render v) v"
  unfolding text_of_def
proof (intro conjI allI impI)
  fix n r assume "2 * length (render v) + 2 \<le> n" "delim r"
  with assms(2) show "parse_value n (render v @ r) = Inr (v, r)"
    by (cases n) simp_all
qed (rule render_hd [OF assms(1)])

lemma text_of_render: "canonical v \<Longrightarrow> text_of (render v) v"
proof (induction v)
  case (JNum t)
  then obtain i where "t = Itoa i"
    by (auto split: option.splits)
  with JNum show ?case
    by (intro text_of_literal) (simp_all add: parse_value_Itoa)
next
  case (JStr s)
  then show ?case
    by (intro text_of_literal) (simp_all add: parse_value_marshal_string)
next
  case (JArr vs)
  then have "list_all2 text_of (map render vs) vs"
    by (simp add: list_all2_map1 list.rel_refl_strong list_all_iff)
  then show ?case
    using text_of_arr by simp
next
  case (JObj ms)
  have "list_all member_ok ms"
    using JObj by (fastforce simp: list_all_iff)
  moreover have "render (JObj ms) = obj_text ms"
    using JObj.prems by (auto simp: obj_text_def list_all_iff intro!: arg_cong [of _ _ "join_with '',''"])
  ultimately show ?case
    using text_of_obj by simp
qed (intro text_of_literal; simp add: parse_value.simps(2) parse_literal_def skip_ws_Cons)+

lemma parse_text: "text_of t v \<Longrightarrow> parse t = Inr (v, [])"
  using text_of_parse [of t v "[]" "2 * length t + 2"] by (simp add: parse_def)

theorem parse_render: "canonical v \<Longrightarrow> parse (render v) = Inr (v, [])"
  by (rule parse_text [OF text_of_render])

text \<open>An object ends with its closing brace, whatever follows.\<close>

theorem parse_object: "list_all member_ok ms \<Longrightarrow> parse (obj_text ms @ r) = Inr (JObj ms, r)"
  unfolding parse_def by (rule parse_obj_text) simp_all

theorem parse_object_ws:
  assumes "list_all member_ok ms" "is_ws c"
  shows "parse (c # obj_text ms @ r) = Inr (JObj ms, r)"
proof -
  have "parse (c # s) = parse_value (2 * length s + 4) s" for s
    using assms(2) by (simp add: parse_def skip_ws_def parse_value.simps numeral_eq_Suc)
  then show ?thesis
    using parse_obj_text [OF assms(1)] by simp
qed

lemma decoder_decode_object: "list_all member_ok ms \<Longrightarrow> decoder_decode (obj_text ms @ r) = Inr (JObj ms)"
  by (simp add: decoder_decode_def parse_object) (simp add: obj_text_def skip_ws_Cons)

lemma json_valid_text: "text_of t v \<Longrightarrow> json_valid t = Some v"
  by (simp add: json_valid_def parse_text skip_ws_def)

lemma decoder_decode_text:
  assumes "text_of t v"
  shows "decoder_decode t = Inr v"
proof -
  obtain c cs where "t = c # cs" "\<not> is_ws c"
    using assms by (rule text_of_hd)
  then have "skip_ws t \<noteq> []"
    by (simp add: skip_ws_Cons)
  then show ?thesis
    by (simp add: decoder_decode_def parse_text [OF assms])
qed

corollary json_valid_render: "canonical v \<Longrightarrow> json_valid (render v) = Some v"
  by (rule json_valid_text [OF text_of_render])

corollary decoder_decode_render: "canonical v \<Longrightarrow> decoder_decode (render v) = Inr v"
  by (rule decoder_decode_text [OF text_of_render])

subsection \<open>Slices\<close>

lemma canonical_Itoa [simp]: "int64_range i \<Longrightarrow> canonical (JNum (Itoa i))"
  by simp

lemma json_valid_marshal_ints:
  "list_all int64_range xs \<Longrightarrow> json_valid (marshal_ints xs) = Some (JArr (map (\<lambda>i. JNum (Itoa i)) xs))"
  using json_valid_render [of "JArr (map (\<lambda>i. JNum (Itoa i)) xs)"]
  by (simp add: marshal_ints_def list_all_iff o_def)

theorem unmarshal_marshal_ints:
  "list_all int64_range xs \<Longrightarrow> unmarshal decode_ints (marshal_ints xs) = Inr xs"
  using first_error_map_Inr [of xs "\<lambda>i. decode_int (JNum (Itoa i))" id]
  by (simp add: unmarshal_def json_valid_marshal_ints decode_slice_def decode_int_def list_all_iff o_def)

theorem unmarshal_marshal_strings:
  assumes "list_all (list_all is_ascii) xs"
  shows "unmarshal decode_strings (marshal_strings xs) = Inr xs"
proof -
  have "json_valid (marshal_strings xs) = Some (JArr (map JStr xs))"
    using json_valid_render [of "JArr (map JStr xs)"] assms
    by (simp add: marshal_strings_def list_all_iff o_def)
  then show ?thesis
    using first_error_map_Inr [of xs "\<lambda>s. decode_string (JStr s)" id]
    by (simp add: unmarshal_def decode_slice_def decode_string_def o_def)
qed

text \<open>Decoded integers are in the range of the Go type.\<close>

lemma decode_int_range: "decode_int v = Inr i \<Longrightarrow> int64_range i"
  by (auto simp: decode_int_def ParseInt_def Let_def int64_range_def split: json.splits option.splits if_splits)

lemma map_sum_Inr_id: "map_sum f id x = Inr y \<longleftrightarrow> x = Inr y"
  by (cases x) auto

lemma first_error_Inr: "first_error xs = Inr ys \<Longrightarrow> xs = map Inr ys"
  by (induction xs arbitrary: ys rule: first_error.induct) auto

lemma decode_ints_range:
  assumes "unmarshal decode_ints bs = Inr nums"
  shows "list_all int64_range nums"
proof -
  from assms obtain v where v: "decode_ints v = Inr nums"
    by (auto simp: unmarshal_def map_sum_Inr_id split: option.splits)
  show ?thesis
  proof (cases "\<exists>vs. v = JArr vs")
    case True
    then obtain vs where "first_error (map decode_int vs) = Inr nums"
      using v by (auto simp: decode_slice_def)
    from first_error_Inr [OF this] have "\<exists>v. decode_int v = Inr i" if "i \<in> set nums" for i
      using that by (metis (no_types, lifting) image_iff list.set_map)
    then show ?thesis
      by (auto simp: list_all_iff dest: decode_int_range)
  next
    case False
    then show ?thesis
      using v by (auto simp: decode_slice_def split: json.splits)
  qed
qed

end
