(* ===== verification/Go_Error.thy ===== *)
theory Go_Error
  imports Json_Codec
begin

text \<open>
  Go error values: the error types of \<^verbatim>\<open>internal/keysbuilder/error.go\<close> and
  \<^verbatim>\<open>internal/http/error.go\<close>, the errors of the standard library that the code tells
  apart, and wrapping with \<^verbatim>\<open>fmt.Errorf("...%w")\<close>. \<open>errors_As\<close> is
  \<^verbatim>\<open>errors.As\<close> and \<^verbatim>\<open>errors.Is\<close>: the first error of the unwrap chain that
  satisfies a predicate.
\<close>

datatype invalid_error =
  InvalidError (ie_msg: string) (ie_field: string) (ie_sub: "invalid_error option")

datatype goerror =
    EInvalid invalid_error
  | EJSON goerror
  | EValue string string gotype goerror
  | ENoStatus goerror
  | EType type_error
  | ESyntax
  | EEOF
  | EUnexpectedEOF
  | ECanceled
  | EClosing
  | EPanic string
  | EMsg string
  | EWrap string goerror

section \<open>InvalidError\<close>

text \<open>The loop of \<^verbatim>\<open>fields()\<close>: the field names down to the innermost error.\<close>

fun InvalidError_chain :: "invalid_error \<Rightarrow> string list \<times> invalid_error" where
  "InvalidError_chain (InvalidError m f None) = ([], InvalidError m f None)"
| "InvalidError_chain (InvalidError m f (Some s)) =
     (let (fs, inner) = InvalidError_chain s in (f # fs, inner))"

definition InvalidError_fields :: "invalid_error \<Rightarrow> (string list \<times> invalid_error) option" where
  "InvalidError_fields e =
     (if ie_field e = [] then None
      else if ie_sub e = None then Some ([ie_field e], e)
      else Some (InvalidError_chain e))"

definition InvalidError_Error :: "invalid_error \<Rightarrow> string" where
  "InvalidError_Error e =
     (case InvalidError_fields e of
        None \<Rightarrow> ie_msg e
      | Some (fs, inner) \<Rightarrow>
          ''field '' @ [CHR 0x22] @ join_with ''.'' fs @ [CHR 0x22] @ '': '' @ ie_msg inner)"

definition InvalidError_Fields :: "invalid_error \<Rightarrow> string list" where
  "InvalidError_Fields e = (case InvalidError_fields e of None \<Rightarrow> [] | Some (fs, _) \<Rightarrow> fs)"

section \<open>Chains of errors\<close>

fun Unwrap :: "goerror \<Rightarrow> goerror option" where
  "Unwrap (EJSON e) = Some e"
| "Unwrap (EValue _ _ _ e) = Some e"
| "Unwrap (EWrap _ e) = Some e"
| "Unwrap _ = None"

fun errors_As :: "(goerror \<Rightarrow> bool) \<Rightarrow> goerror \<Rightarrow> goerror option" where
  "errors_As p (EJSON e) = (if p (EJSON e) then Some (EJSON e) else errors_As p e)"
| "errors_As p (EValue k g t e) =
     (if p (EValue k g t e) then Some (EValue k g t e) else errors_As p e)"
| "errors_As p (EWrap m e) = (if p (EWrap m e) then Some (EWrap m e) else errors_As p e)"
| "errors_As p e = (if p e then Some e else None)"

text \<open>The errors of \<^verbatim>\<open>json.Decoder.Decode\<close> before any decoding into a Go value.\<close>

definition decoder_error :: "decode_error \<Rightarrow> goerror" where
  "decoder_error e = (case e of EOF \<Rightarrow> EEOF | ErrUnexpectedEOF \<Rightarrow> EUnexpectedEOF | DSyntaxError \<Rightarrow> ESyntax)"

text \<open>The errors of \<^verbatim>\<open>json.Unmarshal\<close>.\<close>

definition unmarshal_goerror :: "unmarshal_error \<Rightarrow> goerror" where
  "unmarshal_goerror e = (case e of USyntaxError \<Rightarrow> ESyntax | UTypeError t \<Rightarrow> EType t)"

text \<open>Go type names, as printed by \<^verbatim>\<open>%s\<close> on a \<^verbatim>\<open>reflect.Type\<close>, and kinds.\<close>

fun gotype_string :: "gotype \<Rightarrow> string" where
  "gotype_string TInt = ''int''"
| "gotype_string TString = ''string''"
| "gotype_string (TSlice t) = ''[]'' @ gotype_string t"
| "gotype_string TStruct = ''struct''"
| "gotype_string TMap = ''map''"

text \<open>The texts of standard library errors are a parameter \<open>std\<close>.\<close>

fun Error_string :: "(goerror \<Rightarrow> string) \<Rightarrow> goerror \<Rightarrow> string" where
  "Error_string std (EInvalid e) = InvalidError_Error e"
| "Error_string std (EJSON e) = Error_string std e"
| "Error_string std (EValue k g t e) =
     ''invalid value in key '' @ k @ ''. Got '' @ g @ '', expected '' @ gotype_string t"
| "Error_string std (ENoStatus e) = Error_string std e"
| "Error_string std (EMsg m) = m"
| "Error_string std (EWrap m e) = m @ Error_string std e"
| "Error_string std e = std e"

text \<open>
  The error types with a method \<^verbatim>\<open>Type() string\<close>: these are the errors that are shown
  to a client.
\<close>

fun Error_Type :: "goerror \<Rightarrow> string option" where
  "Error_Type (EInvalid e) = Some ''SyntaxError''"
| "Error_Type (EJSON e) = Some ''JsonError''"
| "Error_Type (EValue k g t e) = Some ''ValueError''"
| "Error_Type _ = None"

fun is_EType :: "goerror \<Rightarrow> bool" where
  "is_EType (EType _) = True"
| "is_EType _ = False"

lemma errors_As_Some: "errors_As p e = Some e' \<Longrightarrow> p e'"
  by (induction p e rule: errors_As.induct) (auto split: if_splits)

lemma errors_As_EWrap [simp]:
  "\<not> p (EWrap m e) \<Longrightarrow> errors_As p (EWrap m e) = errors_As p e"
  by simp

lemma InvalidError_chain_leaf: "ie_sub (snd (InvalidError_chain e)) = None"
  by (induction e rule: InvalidError_chain.induct) (auto split: prod.splits)

end
