(* ===== verification/Cache.thy ===== *)
theory Cache
  imports Go_Error
begin

text \<open>
  The cache of \<^verbatim>\<open>internal/datastore/cache.go\<close>. Its two maps are only read and written by
  key, so they are HOL maps. The channels of \<^verbatim>\<open>pending\<close> are numbered; \<open>closed\<close>
  holds the closed ones, and closing a channel a second time sets \<open>panicked\<close>, as Go panics
  then. Every operation here is one critical section of the code, that is, the part that runs
  under \<^verbatim>\<open>mu\<close>; the interleavings of these parts are the subject of
  \<^verbatim>\<open>Cache_System\<close>.
\<close>

section \<open>State\<close>

datatype key_state = stNotExist | stExist | stPending | stInvalid

record cache =
  cdata :: "string \<rightharpoonup> raw"
  pending :: "string \<rightharpoonup> nat"
  closed :: "nat set"
  next_chan :: nat
  panicked :: bool

definition newCache :: cache where
  "newCache = \<lparr>cdata = Map.empty, pending = Map.empty, closed = {}, next_chan = 0, panicked = False\<rparr>"

definition keyState :: "cache \<Rightarrow> string \<Rightarrow> key_state" where
  "keyState c key =
     (case cdata c key of
        Some _ \<Rightarrow> (case pending c key of Some _ \<Rightarrow> stInvalid | None \<Rightarrow> stExist)
      | None \<Rightarrow> (case pending c key of Some _ \<Rightarrow> stPending | None \<Rightarrow> stNotExist))"

section \<open>Operations\<close>

definition close_chan :: "nat \<Rightarrow> cache \<Rightarrow> cache" where
  "close_chan p c =
     (if p \<in> closed c then c\<lparr>panicked := True\<rparr> else c\<lparr>closed := insert p (closed c)\<rparr>)"

text \<open>\<^verbatim>\<open>close(p); delete(c.pending, key)\<close> when the key is in the map.\<close>

definition close_pending :: "string \<Rightarrow> cache \<Rightarrow> cache" where
  "close_pending key c =
     (case pending c key of
        None \<Rightarrow> c
      | Some p \<Rightarrow> (close_chan p c)\<lparr>pending := (pending c)(key := None)\<rparr>)"

definition null_to_nil :: "raw \<Rightarrow> raw" where
  "null_to_nil value = (if value = Some ''null'' then None else value)"

definition cache_set :: "string \<Rightarrow> raw \<Rightarrow> cache \<Rightarrow> cache" where
  "cache_set key value c =
     close_pending key (c\<lparr>cdata := (cdata c)(key \<mapsto> null_to_nil value)\<rparr>)"

fun notExistToPending :: "string list \<Rightarrow> cache \<Rightarrow> string list \<times> cache" where
  "notExistToPending [] c = ([], c)"
| "notExistToPending (key # keys) c =
     (if keyState c key = stNotExist then
        (let (missing, c') = notExistToPending keys
               (c\<lparr>pending := (pending c)(key \<mapsto> next_chan c), next_chan := Suc (next_chan c)\<rparr>)
         in (key # missing, c'))
      else notExistToPending keys c)"

text \<open>
  The part of \<^verbatim>\<open>fetchMissing\<close> that runs under the lock, after \<^verbatim>\<open>set(keys)\<close>
  returned \<open>r\<close>: the two loops and the deferred one.
\<close>

definition store_data :: "(string, raw) gomap \<Rightarrow> cache \<Rightarrow> cache" where
  "store_data data c = fold (\<lambda>(k, v) c. if keyState c k = stPending then cache_set k v c else c) data c"

definition store_missing :: "string list \<Rightarrow> cache \<Rightarrow> cache" where
  "store_missing keys c = fold (\<lambda>k c. if keyState c k = stPending then cache_set k None c else c) keys c"

definition drop_pending :: "string list \<Rightarrow> cache \<Rightarrow> cache" where
  "drop_pending keys c = fold (\<lambda>k c. if keyState c k = stPending then close_pending k c else c) keys c"

definition fetchMissing :: "string list \<Rightarrow> goerror + (string, raw) gomap \<Rightarrow> cache \<Rightarrow> goerror option \<times> cache" where
  "fetchMissing keys r c =
     (case r of
        Inl e \<Rightarrow> (Some (EWrap ''fetching missing keys: '' e), drop_pending keys c)
      | Inr data \<Rightarrow> (None, drop_pending keys (store_missing keys (store_data data c))))"

definition SetIfExist :: "(string, raw) gomap \<Rightarrow> cache \<Rightarrow> cache" where
  "SetIfExist data c =
     fold (\<lambda>(key, value) c. if keyState c key = stNotExist then c else cache_set key value c) data c"

text \<open>
  The loop over the remaining keys that builds the values, from one \<^verbatim>\<open>RLock\<close> to the next \<^verbatim>\<open>RUnlock\<close>
  or \<^verbatim>\<open>return\<close>.
\<close>

datatype read_result =
    Values "raw list"
  | Blocked nat "raw list"
  | Failed goerror

fun read_loop :: "cache \<Rightarrow> string list \<Rightarrow> raw list \<Rightarrow> read_result" where
  "read_loop c [] values = Values values"
| "read_loop c (key # keys) values =
     (case keyState c key of
        stExist \<Rightarrow> read_loop c keys (values @ [the (cdata c key)])
      | stInvalid \<Rightarrow> Failed (EMsg (''key `'' @ key @ ''` is in invalid state''))
      | stNotExist \<Rightarrow> Failed (EMsg (''key `'' @ key @ ''` does not exist in cache''))
      | stPending \<Rightarrow> Blocked (the (pending c key)) values)"

text \<open>
  \<^verbatim>\<open>GetOrSet\<close> as one caller sees it while no other goroutine runs and the context is not
  done. A call that waits for a key of another call then only ends when the context ends.
  \<open>setf\<close> is the function that is called with the missing keys, on a state of its own.
\<close>

definition GetOrSet :: "(string list \<Rightarrow> 'w \<Rightarrow> (goerror + (string, raw) gomap) \<times> 'w) \<Rightarrow> string list
    \<Rightarrow> cache \<Rightarrow> 'w \<Rightarrow> (goerror + raw list) \<times> cache \<times> 'w" where
  "GetOrSet setf keys c w =
     (let (missingKeys, c1) = notExistToPending keys c;
          (err, c2, w2) =
            (if missingKeys = [] then (None, c1, w)
             else (let (r, w2) = setf missingKeys w; (err, c2) = fetchMissing missingKeys r c1
                   in (err, c2, w2)))
      in (case err of
            Some e \<Rightarrow> (Inl (EWrap ''fetching key: '' e), c2, w2)
          | None \<Rightarrow>
              ((case read_loop c2 keys [] of
                  Values vs \<Rightarrow> Inr vs
                | Failed e \<Rightarrow> Inl e
                | Blocked _ _ \<Rightarrow> Inl ECanceled), c2, w2)))"

section \<open>Invariant\<close>

definition cache_ok :: "cache \<Rightarrow> bool" where
  "cache_ok c \<longleftrightarrow>
     dom (cdata c) \<inter> dom (pending c) = {} \<and> inj_on (pending c) (dom (pending c)) \<and>
     ran (pending c) \<inter> closed c = {} \<and> (\<forall>p \<in> ran (pending c). p < next_chan c) \<and>
     (\<forall>p \<in> closed c. p < next_chan c) \<and> \<not> panicked c"

lemma cache_okD:
  assumes "cache_ok c"
  shows "cdata c k = Some v \<Longrightarrow> pending c k = None"
    and "pending c k = Some p \<Longrightarrow> cdata c k = None"
    and "pending c k = Some p \<Longrightarrow> pending c k' = Some p \<Longrightarrow> k = k'"
    and "pending c k = Some p \<Longrightarrow> p \<notin> closed c"
    and "pending c k = Some p \<Longrightarrow> p < next_chan c"
    and "p \<in> closed c \<Longrightarrow> p < next_chan c"
    and "\<not> panicked c"
  using assms by (auto simp: cache_ok_def ran_def dom_def inj_on_def)

lemma cache_okI:
  assumes "\<And>k v p. cdata c k = Some v \<Longrightarrow> pending c k = Some p \<Longrightarrow> False"
    and "\<And>k k' p. pending c k = Some p \<Longrightarrow> pending c k' = Some p \<Longrightarrow> k = k'"
    and "\<And>k p. pending c k = Some p \<Longrightarrow> p \<notin> closed c \<and> p < next_chan c"
    and "\<And>p. p \<in> closed c \<Longrightarrow> p < next_chan c"
    and "\<not> panicked c"
  shows "cache_ok c"
  using assms by (fastforce simp: cache_ok_def ran_def dom_def inj_on_def)

lemma keyState_simps:
  "keyState c k = stNotExist \<longleftrightarrow> cdata c k = None \<and> pending c k = None"
  "keyState c k = stExist \<longleftrightarrow> cdata c k \<noteq> None \<and> pending c k = None"
  "keyState c k = stPending \<longleftrightarrow> cdata c k = None \<and> pending c k \<noteq> None"
  "keyState c k = stInvalid \<longleftrightarrow> cdata c k \<noteq> None \<and> pending c k \<noteq> None"
  by (auto simp: keyState_def split: option.splits)

lemma cache_ok_newCache [simp]: "cache_ok newCache"
  by (rule cache_okI) (simp_all add: newCache_def)

lemma cache_ok_not_invalid: "cache_ok c \<Longrightarrow> keyState c k \<noteq> stInvalid"
  by (auto simp: keyState_simps dest: cache_okD(2))

lemma close_pending_fields [simp]:
  "cdata (close_pending k c) = cdata c"
  "pending (close_pending k c) = (pending c)(k := None)"
  "next_chan (close_pending k c) = next_chan c"
  by (auto simp: close_pending_def close_chan_def split: option.splits)

lemma close_pending_closed:
  "cache_ok c \<Longrightarrow> closed (close_pending k c) = closed c \<union> set_option (pending c k)"
  by (auto simp: close_pending_def close_chan_def split: option.splits dest: cache_okD(4))

lemma close_pending_panicked [simp]: "cache_ok c \<Longrightarrow> \<not> panicked (close_pending k c)"
  by (auto simp: close_pending_def close_chan_def split: option.splits dest: cache_okD(4,7))

lemma cache_ok_close_pending [simp]: "cache_ok c \<Longrightarrow> cache_ok (close_pending k c)"
  by (rule cache_okI)
    (auto simp: close_pending_closed split: if_splits dest: cache_okD)

lemma cache_set_fields [simp]:
  "cdata (cache_set k v c) = (cdata c)(k \<mapsto> null_to_nil v)"
  "pending (cache_set k v c) = (pending c)(k := None)"
  "next_chan (cache_set k v c) = next_chan c"
  by (auto simp: cache_set_def)

lemma cache_set_closed:
  "cache_ok c \<Longrightarrow> closed (cache_set k v c) = closed c \<union> set_option (pending c k)"
  by (auto simp: cache_set_def close_pending_def close_chan_def split: option.splits dest: cache_okD(4))

lemma cache_ok_cache_set [simp]: "cache_ok c \<Longrightarrow> cache_ok (cache_set k v c)"
proof (rule cache_okI)
  assume "cache_ok c"
  then show "\<not> panicked (cache_set k v c)"
    by (auto simp: cache_set_def close_pending_def close_chan_def split: option.splits dest: cache_okD(4,7))
qed (auto simp: cache_set_closed split: if_splits dest: cache_okD)

section \<open>Operations that release keys\<close>

text \<open>
  How everything that runs under the write lock after the keys were marked as pending changes
  the cache: no value gets lost, no key becomes pending, and when a key stops to be pending its
  channel is closed, so that every waiting goroutine wakes up.
\<close>

definition releases :: "cache \<Rightarrow> cache \<Rightarrow> bool" where
  "releases c c' \<longleftrightarrow>
     dom (cdata c) \<subseteq> dom (cdata c') \<and> pending c' \<subseteq>\<^sub>m pending c \<and> closed c \<subseteq> closed c' \<and>
     (\<forall>k p. pending c k = Some p \<longrightarrow> pending c' k = None \<longrightarrow> p \<in> closed c') \<and>
     next_chan c' = next_chan c"

lemma releases_refl [simp]: "releases c c"
  by (simp add: releases_def)

lemma releasesD:
  assumes "releases c c'"
  shows "cdata c k = Some v \<Longrightarrow> cdata c' k \<noteq> None"
    and "pending c' k = Some p \<Longrightarrow> pending c k = Some p"
    and "p \<in> closed c \<Longrightarrow> p \<in> closed c'"
    and "pending c k = Some p \<Longrightarrow> pending c' k = None \<Longrightarrow> p \<in> closed c'"
    and "next_chan c' = next_chan c"
  using assms by (auto simp: releases_def map_le_def dom_def)

lemma releases_trans:
  assumes "releases c c'" "releases c' c''"
  shows "releases c c''"
  unfolding releases_def
proof (intro conjI allI impI)
  show "dom (cdata c) \<subseteq> dom (cdata c'')" "closed c \<subseteq> closed c''" "next_chan c'' = next_chan c"
    using assms by (auto simp: releases_def)
  show "pending c'' \<subseteq>\<^sub>m pending c"
    using assms by (auto simp: releases_def intro: map_le_trans)
  fix k p assume k: "pending c k = Some p" "pending c'' k = None"
  show "p \<in> closed c''"
  proof (cases "pending c' k")
    case None
    with assms k(1) show ?thesis by (auto dest: releasesD(3,4))
  next
    case (Some p')
    then have "p' = p"
      using releasesD(2) [OF assms(1)] k(1) by fastforce
    then show ?thesis
      using releasesD(4) [OF assms(2)] k(2) Some by simp
  qed
qed

locale releasing =
  fixes oper :: "'a \<Rightarrow> cache \<Rightarrow> cache"
  assumes oper_ok: "cache_ok c \<Longrightarrow> cache_ok (oper x c)"
    and oper_releases: "cache_ok c \<Longrightarrow> releases c (oper x c)"
begin

lemma fold_ok: "cache_ok c \<Longrightarrow> cache_ok (fold oper xs c)"
  by (induction xs arbitrary: c) (simp_all add: oper_ok)

lemma fold_releases: "cache_ok c \<Longrightarrow> releases c (fold oper xs c)"
proof (induction xs arbitrary: c)
  case (Cons x xs)
  then have "releases (oper x c) (fold oper xs (oper x c))"
    by (simp add: oper_ok)
  with oper_releases [OF Cons.prems] show ?case
    by (auto intro: releases_trans)
qed simp

end

lemma releases_cache_set: "cache_ok c \<Longrightarrow> releases c (cache_set k v c)"
  by (auto simp: releases_def cache_set_closed map_le_def split: if_splits)

lemma releases_close_pending: "cache_ok c \<Longrightarrow> releases c (close_pending k c)"
  by (auto simp: releases_def close_pending_closed map_le_def split: if_splits)

interpretation set_when_pending: releasing
  "\<lambda>(k, v) c. if keyState c k = stPending then cache_set k v c else c"
  by unfold_locales (auto simp: releases_cache_set)

interpretation nil_when_pending: releasing
  "\<lambda>k c. if keyState c k = stPending then cache_set k None c else c"
  by unfold_locales (auto simp: releases_cache_set)

interpretation close_when_pending: releasing
  "\<lambda>k c. if keyState c k = stPending then close_pending k c else c"
  by unfold_locales (auto simp: releases_close_pending)

interpretation set_when_known: releasing
  "\<lambda>(k, v) c. if keyState c k = stNotExist then c else cache_set k v c"
  by unfold_locales (auto simp: releases_cache_set)

lemma cache_ok_store_data: "cache_ok c \<Longrightarrow> cache_ok (store_data data c)"
  unfolding store_data_def by (rule set_when_pending.fold_ok)

lemma cache_ok_store_missing: "cache_ok c \<Longrightarrow> cache_ok (store_missing keys c)"
  unfolding store_missing_def by (rule nil_when_pending.fold_ok)

lemma cache_ok_drop_pending: "cache_ok c \<Longrightarrow> cache_ok (drop_pending keys c)"
  unfolding drop_pending_def by (rule close_when_pending.fold_ok)

lemma cache_ok_SetIfExist: "cache_ok c \<Longrightarrow> cache_ok (SetIfExist data c)"
  unfolding SetIfExist_def by (rule set_when_known.fold_ok)

lemma releases_SetIfExist: "cache_ok c \<Longrightarrow> releases c (SetIfExist data c)"
  unfolding SetIfExist_def by (rule set_when_known.fold_releases)

lemma cache_ok_fetchMissing: "cache_ok c \<Longrightarrow> cache_ok (snd (fetchMissing keys r c))"
  by (simp add: fetchMissing_def cache_ok_drop_pending cache_ok_store_missing cache_ok_store_data split: sum.split)

lemma releases_fetchMissing: "cache_ok c \<Longrightarrow> releases c (snd (fetchMissing keys r c))"
proof -
  assume ok: "cache_ok c"
  have drop: "releases c' (drop_pending keys c')" if "cache_ok c'" for c'
    using that unfolding drop_pending_def by (rule close_when_pending.fold_releases)
  have data: "releases c (store_data data c)" for data
    using ok unfolding store_data_def by (rule set_when_pending.fold_releases)
  have miss: "releases c' (store_missing keys c')" if "cache_ok c'" for c'
    using that unfolding store_missing_def by (rule nil_when_pending.fold_releases)
  show ?thesis
    using ok releases_trans [OF releases_trans [OF data miss] drop] drop
    by (simp add: fetchMissing_def cache_ok_store_missing cache_ok_store_data split: sum.split)
qed

section \<open>Effect of the operations\<close>

lemma keyState_cache_set [simp]:
  "keyState (cache_set k' v c) k = (if k = k' then stExist else keyState c k)"
  by (simp add: keyState_def split: option.split)

lemma keyState_close_pending:
  "k \<noteq> k' \<Longrightarrow> keyState (close_pending k' c) k = keyState c k"
  by (simp add: keyState_def split: option.split)

lemma SetIfExist_Nil [simp]: "SetIfExist [] c = c"
  by (simp add: SetIfExist_def)

lemma SetIfExist_Cons [simp]:
  "SetIfExist ((k, v) # data) c =
     SetIfExist data (if keyState c k = stNotExist then c else cache_set k v c)"
  by (simp add: SetIfExist_def)

lemma SetIfExist_notin:
  "k \<notin> fst ` set data \<Longrightarrow> cdata (SetIfExist data c) k = cdata c k \<and> pending (SetIfExist data c) k = pending c k"
proof (induction data arbitrary: c)
  case (Cons kv data)
  then show ?case by (cases kv) auto
qed simp

lemma SetIfExist_in:
  assumes "wf_map data" "(k, v) \<in> set data"
  shows "cdata (SetIfExist data c) k = (if keyState c k = stNotExist then None else Some (null_to_nil v)) \<and>
    pending (SetIfExist data c) k = None"
  using assms
proof (induction data arbitrary: c)
  case (Cons kv data)
  obtain k' v' where kv: "kv = (k', v')" by (cases kv)
  have wf: "wf_map data" "k' \<notin> fst ` set data"
    using Cons.prems(1) kv by (auto simp: wf_map_def)
  show ?case
  proof (cases "k = k'")
    case True
    with wf Cons.prems(2) kv have "v' = v" by force
    with True wf kv SetIfExist_notin [of k data] show ?thesis
      by (auto simp: keyState_simps)
  next
    case False
    with Cons kv wf(1) show ?thesis by auto
  qed
qed simp

text \<open>A step of the loops of \<^verbatim>\<open>fetchMissing\<close>.\<close>

lemma store_data_Cons [simp]:
  "store_data [] c = c"
  "store_data ((k, v) # data) c =
     store_data data (if keyState c k = stPending then cache_set k v c else c)"
  by (simp_all add: store_data_def)

lemma store_missing_Cons [simp]:
  "store_missing [] c = c"
  "store_missing (k # keys) c = store_missing keys (if keyState c k = stPending then cache_set k None c else c)"
  by (simp_all add: store_missing_def)

lemma drop_pending_Cons [simp]:
  "drop_pending [] c = c"
  "drop_pending (k # keys) c = drop_pending keys (if keyState c k = stPending then close_pending k c else c)"
  by (simp_all add: drop_pending_def)

lemma store_data_notin:
  "k \<notin> fst ` set data \<or> keyState c k \<noteq> stPending \<Longrightarrow>
     cdata (store_data data c) k = cdata c k \<and> pending (store_data data c) k = pending c k"
proof (induction data arbitrary: c)
  case (Cons kv data)
  then show ?case by (cases kv) auto
qed simp

lemma store_data_in:
  assumes "wf_map data" "(k, v) \<in> set data" "keyState c k = stPending"
  shows "cdata (store_data data c) k = Some (null_to_nil v) \<and> pending (store_data data c) k = None"
  using assms
proof (induction data arbitrary: c)
  case (Cons kv data)
  obtain k' v' where kv: "kv = (k', v')" by (cases kv)
  have wf: "wf_map data" "k' \<notin> fst ` set data"
    using Cons.prems(1) kv by (auto simp: wf_map_def)
  show ?case
  proof (cases "k = k'")
    case True
    with wf Cons.prems(2) kv have "v' = v" by force
    with True wf kv Cons.prems(3) store_data_notin [of k data] show ?thesis by simp
  next
    case False
    with Cons kv wf(1) show ?thesis by auto
  qed
qed simp

lemma store_missing_effect:
  "cdata (store_missing keys c) k = (if k \<in> set keys \<and> keyState c k = stPending then Some None else cdata c k) \<and>
   pending (store_missing keys c) k = (if k \<in> set keys \<and> keyState c k = stPending then None else pending c k)"
  by (induction keys arbitrary: c) (auto simp: null_to_nil_def)

lemma drop_pending_effect:
  "cdata (drop_pending keys c) k = cdata c k \<and>
   pending (drop_pending keys c) k = (if k \<in> set keys \<and> keyState c k = stPending then None else pending c k)"
proof (induction keys arbitrary: c)
  case (Cons k' keys)
  show ?case
    using Cons [of "if keyState c k' = stPending then close_pending k' c else c"]
    by (cases "k = k'") (auto simp: keyState_simps keyState_close_pending)
qed simp

lemma drop_pending_None: "cache_ok c \<Longrightarrow> k \<in> set keys \<Longrightarrow> pending (drop_pending keys c) k = None"
  using drop_pending_effect [of keys c k] by (cases "pending c k") (auto simp: keyState_simps dest: cache_okD(2))

lemma fetchMissing_error:
  assumes "cache_ok c"
  shows "cdata (snd (fetchMissing keys (Inl e) c)) = cdata c"
    and "pending (snd (fetchMissing keys (Inl e) c)) k = (if k \<in> set keys then None else pending c k)"
  using assms drop_pending_effect [of keys c]
  by (auto simp: fetchMissing_def keyState_simps fun_eq_iff dest: cache_okD(1,2))

lemma fetchMissing_data:
  assumes "cache_ok c" "wf_map data"
  shows "cdata (snd (fetchMissing keys (Inr data) c)) k =
      (if pending c k = None then cdata c k
       else case map_of data k of
              Some v \<Rightarrow> Some (null_to_nil v)
            | None \<Rightarrow> if k \<in> set keys then Some None else None) \<and>
    pending (snd (fetchMissing keys (Inr data) c)) k =
      (if k \<in> set keys \<or> k \<in> fst ` set data then None else pending c k)"
proof -
  let ?c1 = "store_data data c"
  have st: "keyState c k = stPending \<longleftrightarrow> pending c k \<noteq> None"
    using assms(1) by (auto simp: keyState_simps dest: cache_okD(2))
  show ?thesis
  proof (cases "map_of data k")
    case None
    then have nk: "k \<notin> fst ` set data"
      by (simp add: map_of_eq_None_keys)
    then have "cdata ?c1 k = cdata c k \<and> pending ?c1 k = pending c k"
      by (intro store_data_notin) simp
    moreover have "pending c k \<noteq> None \<Longrightarrow> cdata c k = None"
      using assms(1) by (auto dest: cache_okD(2))
    ultimately show ?thesis
      using nk drop_pending_effect [of keys "store_missing keys ?c1" k] store_missing_effect [of keys ?c1 k] st
      by (auto simp: fetchMissing_def keyState_simps None)
  next
    case (Some v)
    then have v: "(k, v) \<in> set data" by (rule map_of_SomeD)
    then have key: "k \<in> fst ` set data" by force
    have "cdata ?c1 k = (if pending c k = None then cdata c k else Some (null_to_nil v)) \<and> pending ?c1 k = None"
    proof (cases "pending c k = None")
      case True
      with st store_data_notin [of k data c] show ?thesis by auto
    next
      case False
      with st store_data_in [OF assms(2) v] show ?thesis by auto
    qed
    with Some key show ?thesis
      using drop_pending_effect [of keys "store_missing keys ?c1" k] store_missing_effect [of keys ?c1 k]
      by (auto simp: fetchMissing_def keyState_simps)
  qed
qed

section \<open>Marking keys as pending\<close>

definition mark_pending :: "string \<Rightarrow> cache \<Rightarrow> cache" where
  "mark_pending k c = c\<lparr>pending := (pending c)(k \<mapsto> next_chan c), next_chan := Suc (next_chan c)\<rparr>"

lemma cache_ok_mark_pending:
  "cache_ok c \<Longrightarrow> keyState c k = stNotExist \<Longrightarrow> cache_ok (mark_pending k c)"
  by (rule cache_okI)
    (fastforce simp: mark_pending_def keyState_simps split: if_splits dest: cache_okD)+

lemma mark_pending_fields [simp]:
  "cdata (mark_pending k c) = cdata c" "closed (mark_pending k c) = closed c"
  "next_chan (mark_pending k c) = Suc (next_chan c)"
  "dom (pending (mark_pending k c)) = insert k (dom (pending c))"
  "keyState (mark_pending k c) k' = stNotExist \<longleftrightarrow> k' \<noteq> k \<and> keyState c k' = stNotExist"
  by (simp_all add: mark_pending_def keyState_simps)

lemma notExistToPending_Cons:
  "notExistToPending (key # keys) c =
     (if keyState c key = stNotExist then apfst (Cons key) (notExistToPending keys (mark_pending key c))
      else notExistToPending keys c)"
  by (simp add: mark_pending_def split: prod.split)

lemma notExistToPending_spec:
  assumes "cache_ok c" "notExistToPending keys c = (missing, c')"
  shows "cache_ok c' \<and> cdata c' = cdata c \<and> closed c' = closed c \<and> distinct missing \<and>
    set missing = {k \<in> set keys. keyState c k = stNotExist} \<and> pending c \<subseteq>\<^sub>m pending c' \<and>
    dom (pending c') = dom (pending c) \<union> set missing \<and> next_chan c \<le> next_chan c'"
  using assms
proof (induction keys arbitrary: c missing)
  case (Cons key keys)
  show ?case
  proof (cases "keyState c key = stNotExist")
    case True
    from Cons.prems(2) True obtain m where m: "notExistToPending keys (mark_pending key c) = (m, c')" "missing = key # m"
      by (cases "notExistToPending keys (mark_pending key c)")
        (auto simp: notExistToPending_Cons simp del: notExistToPending.simps)
    have le: "pending c \<subseteq>\<^sub>m pending (mark_pending key c)"
      using True by (auto simp: mark_pending_def keyState_simps map_le_def)
    from Cons.IH [OF cache_ok_mark_pending [OF Cons.prems(1) True] m(1)]
    have "cache_ok c'" "cdata c' = cdata c" "closed c' = closed c" "distinct m"
      "set m = {k \<in> set keys. k \<noteq> key \<and> keyState c k = stNotExist}"
      "pending (mark_pending key c) \<subseteq>\<^sub>m pending c'" "dom (pending c') = insert key (dom (pending c)) \<union> set m"
      "Suc (next_chan c) \<le> next_chan c'" by simp_all
    with m(2) True map_le_trans [OF le] show ?thesis by auto
  next
    case False
    with Cons show ?thesis by (auto simp: notExistToPending_Cons simp del: notExistToPending.simps)
  qed
qed simp

lemma notExistToPending_none: "(\<forall>k \<in> set keys. keyState c k \<noteq> stNotExist) \<Longrightarrow> notExistToPending keys c = ([], c)"
  by (induction keys) auto

lemma read_loop_exist:
  "(\<forall>k \<in> set keys. keyState c k = stExist) \<Longrightarrow>
     read_loop c keys vs = Values (vs @ map (\<lambda>k. the (cdata c k)) keys)"
  by (induction keys arbitrary: vs) auto

section \<open>Sequential behaviour\<close>

text \<open>No goroutine is fetching.\<close>

definition quiescent :: "cache \<Rightarrow> bool" where
  "quiescent c \<longleftrightarrow> cache_ok c \<and> pending c = Map.empty"

lemma quiescent_newCache [simp]: "quiescent newCache"
  by (simp add: quiescent_def) (simp add: newCache_def)

lemma quiescent_keyState: "quiescent c \<Longrightarrow> keyState c k = (if cdata c k = None then stNotExist else stExist)"
  by (auto simp: quiescent_def keyState_def split: option.split)

text \<open>The keys that \<^verbatim>\<open>GetOrSet\<close> asks for.\<close>

abbreviation missing_keys :: "string list \<Rightarrow> cache \<Rightarrow> string list" where
  "missing_keys keys c \<equiv> fst (notExistToPending keys c)"

lemma missing_keys_quiescent:
  assumes "quiescent c"
  shows "set (missing_keys keys c) = {k \<in> set keys. cdata c k = None}" "distinct (missing_keys keys c)"
  using notExistToPending_spec [of c keys "missing_keys keys c" "snd (notExistToPending keys c)"] assms
  by (auto simp: quiescent_keyState quiescent_def [of c] split: if_splits)

lemma after_notExistToPending:
  assumes "quiescent c"
  shows "cache_ok (snd (notExistToPending keys c))" "cdata (snd (notExistToPending keys c)) = cdata c"
    "dom (pending (snd (notExistToPending keys c))) = set (missing_keys keys c)"
  using notExistToPending_spec [of c keys "missing_keys keys c" "snd (notExistToPending keys c)"] assms
  by (simp_all add: quiescent_def)

lemma quiescent_fetchMissing:
  assumes "quiescent c" "\<And>data. r = Inr data \<Longrightarrow> wf_map data"
  shows "quiescent (snd (fetchMissing (missing_keys keys c) r (snd (notExistToPending keys c))))"
proof -
  let ?c = "snd (notExistToPending keys c)"
  note after = after_notExistToPending [OF assms(1), of keys]
  have "pending (snd (fetchMissing (missing_keys keys c) r ?c)) k = None" for k
  proof (cases "k \<in> set (missing_keys keys c)")
    case True
    then show ?thesis
      using fetchMissing_error(2) [OF after(1)] fetchMissing_data [OF after(1) assms(2)] by (cases r) auto
  next
    case False
    with after(3) have "pending ?c k = None" by auto
    then show ?thesis
      using releasesD(2) [OF releases_fetchMissing [OF after(1)]] by (metis not_None_eq option.simps(3))
  qed
  then show ?thesis
    using after(1) by (auto simp: quiescent_def cache_ok_fetchMissing)
qed

text \<open>The value of a key after a request for it was answered with \<open>data\<close>.\<close>

definition cached_or :: "cache \<Rightarrow> (string, raw) gomap \<Rightarrow> string \<Rightarrow> raw" where
  "cached_or c data k = (case cdata c k of Some v \<Rightarrow> v | None \<Rightarrow> null_to_nil (mraw data k))"

lemma fetched_value:
  assumes "quiescent c" "wf_map data" "k \<in> set keys"
  shows "cdata (snd (fetchMissing (missing_keys keys c) (Inr data) (snd (notExistToPending keys c)))) k =
    Some (cached_or c data k)"
proof -
  let ?c = "snd (notExistToPending keys c)"
  note after = after_notExistToPending [OF assms(1), of keys]
  have "pending ?c k = None \<longleftrightarrow> cdata c k \<noteq> None"
    using domIff [of k "pending ?c"] missing_keys_quiescent(1) [OF assms(1), of keys] assms(3)
    by (simp add: after(3))
  moreover have "cdata c k = None \<Longrightarrow> k \<in> set (missing_keys keys c)"
    using missing_keys_quiescent(1) [OF assms(1), of keys] assms(3) by simp
  ultimately show ?thesis
    using fetchMissing_data [OF after(1) assms(2), of "missing_keys keys c" k]
    by (auto simp: after(2) cached_or_def mraw_def null_to_nil_def split: option.splits)
qed

lemma GetOrSet_cached:
  assumes "quiescent c" "\<forall>k \<in> set keys. cdata c k \<noteq> None"
  shows "GetOrSet setf keys c w = (Inr (map (\<lambda>k. the (cdata c k)) keys), c, w)"
  using assms by (simp add: GetOrSet_def notExistToPending_none read_loop_exist quiescent_keyState)

lemma GetOrSet_fetched:
  assumes "quiescent c" "missing_keys keys c \<noteq> []" "setf (missing_keys keys c) w = (Inr data, w')" "wf_map data"
  shows "\<exists>c'. GetOrSet setf keys c w = (Inr (map (cached_or c data) keys), c', w') \<and> quiescent c' \<and>
    (\<forall>k \<in> set keys. cdata c' k = Some (cached_or c data k)) \<and>
    (\<forall>k. k \<notin> set keys \<longrightarrow> cdata c' k = cdata c k)"
proof -
  let ?c = "snd (notExistToPending keys c)"
  let ?c' = "snd (fetchMissing (missing_keys keys c) (Inr data) ?c)"
  have q: "quiescent ?c'"
    by (rule quiescent_fetchMissing [OF assms(1)]) (use assms(4) in simp)
  have val: "cdata ?c' k = Some (cached_or c data k)" if "k \<in> set keys" for k
    by (rule fetched_value [OF assms(1,4) that])
  have other: "cdata ?c' k = cdata c k" if "k \<notin> set keys" for k
  proof -
    have "pending ?c k = None"
      using that after_notExistToPending(3) [OF assms(1), of keys] missing_keys_quiescent(1) [OF assms(1), of keys]
      by (auto simp: dom_def)
    then show ?thesis
      using fetchMissing_data [OF after_notExistToPending(1) [OF assms(1), of keys] assms(4)]
      by (simp add: after_notExistToPending(2) [OF assms(1)])
  qed
  have "read_loop ?c' keys [] = Values (map (cached_or c data) keys)"
    using read_loop_exist [of keys ?c' "[]"] val quiescent_keyState [OF q] by simp
  moreover have "fst (fetchMissing (missing_keys keys c) (Inr data) ?c) = None"
    by (simp add: fetchMissing_def)
  ultimately have "GetOrSet setf keys c w = (Inr (map (cached_or c data) keys), ?c', w')"
    using assms(2,3) by (simp add: GetOrSet_def split_beta Let_def)
  with q val other show ?thesis by blast
qed

lemma GetOrSet_failed:
  assumes "quiescent c" "missing_keys keys c \<noteq> []" "setf (missing_keys keys c) w = (Inl e, w')"
  shows "\<exists>c'. GetOrSet setf keys c w =
      (Inl (EWrap ''fetching key: '' (EWrap ''fetching missing keys: '' e)), c', w') \<and>
    quiescent c' \<and> cdata c' = cdata c"
proof -
  let ?c = "snd (notExistToPending keys c)"
  let ?c' = "snd (fetchMissing (missing_keys keys c) (Inl e) ?c)"
  have "fst (fetchMissing (missing_keys keys c) (Inl e) ?c) = Some (EWrap ''fetching missing keys: '' e)"
    by (simp add: fetchMissing_def)
  then have "GetOrSet setf keys c w =
      (Inl (EWrap ''fetching key: '' (EWrap ''fetching missing keys: '' e)), ?c', w')"
    using assms(2,3) by (simp add: GetOrSet_def split_beta Let_def)
  moreover have "quiescent ?c'"
    by (rule quiescent_fetchMissing [OF assms(1)]) simp
  moreover have "cdata ?c' = cdata c"
    using fetchMissing_error(1) after_notExistToPending [OF assms(1)] by metis
  ultimately show ?thesis by blast
qed

end
