(* ===== verification/Cache_System.thy ===== *)
theory Cache_System
  imports Cache
begin

text \<open>
  The cache with its goroutines: any number of concurrent calls of \<^verbatim>\<open>GetOrSet\<close>, the
  goroutines that fetch missing keys, the goroutine of \<^verbatim>\<open>receiveKeyChanges\<close> that passes
  updates to \<^verbatim>\<open>SetIfExist\<close>, and the database. A step is one critical section or one
  channel operation of one goroutine.

  A critical section under the write lock is one step and needs that no read lock is held.
  A section under the read lock is also one step, since no writer can come in between. The two
  \<^verbatim>\<open>return\<close> statements inside the read lock keep the lock forever: \<open>leaked\<close> counts them.
\<close>

section \<open>State\<close>

text \<open>
  The position of a call of \<^verbatim>\<open>GetOrSet\<close> with its local variables. The index
  \<^verbatim>\<open>i\<close> of the loop is the number of the values so far.
\<close>

datatype pc =
    PIdle
  | PStart "string list"
  | PFetch "string list" nat
  | PRead "string list" "raw list"
  | PWait "string list" "raw list" nat
  | PWoken "string list" "raw list"
  | PReturn "string list" "goerror + raw list"

text \<open>The calls that wait for a second call of \<^verbatim>\<open>GetOrSet\<close> with one key.\<close>

type_synonym frame = "string list \<times> raw list"

record caller =
  caller_pc :: pc
  caller_frames :: "frame list"

datatype fetch =
    FUnused
  | FRequest "string list"
  | FResponse "string list" "goerror + (string, raw) gomap"
  | FSend "goerror option"
  | FDone

record sys =
  sys_cache :: cache
  leaked :: nat
  callers :: "nat \<Rightarrow> caller"
  fetches :: "nat \<Rightarrow> fetch"
  next_fetch :: nat
  db :: "string \<Rightarrow> raw"
  queue :: "(string, raw) gomap list"

definition init_sys :: "(string \<Rightarrow> raw) \<Rightarrow> sys" where
  "init_sys d =
     \<lparr>sys_cache = newCache, leaked = 0, callers = (\<lambda>_. \<lparr>caller_pc = PIdle, caller_frames = []\<rparr>),
      fetches = (\<lambda>_. FUnused), next_fetch = 0, db = d, queue = []\<rparr>"

definition set_caller :: "nat \<Rightarrow> pc \<Rightarrow> frame list \<Rightarrow> sys \<Rightarrow> sys" where
  "set_caller i p fs s = s\<lparr>callers := (callers s)(i := \<lparr>caller_pc = p, caller_frames = fs\<rparr>)\<rparr>"

definition set_fetch :: "nat \<Rightarrow> fetch \<Rightarrow> sys \<Rightarrow> sys" where
  "set_fetch f x s = s\<lparr>fetches := (fetches s)(f := x)\<rparr>"

abbreviation pc_of :: "sys \<Rightarrow> nat \<Rightarrow> pc" where
  "pc_of s i \<equiv> caller_pc (callers s i)"

abbreviation frames_of :: "sys \<Rightarrow> nat \<Rightarrow> frame list" where
  "frames_of s i \<equiv> caller_frames (callers s i)"

text \<open>What the datastore may answer: the requested keys with their current values.\<close>

definition answers :: "(string \<Rightarrow> raw) \<Rightarrow> string list \<Rightarrow> (string, raw) gomap \<Rightarrow> bool" where
  "answers d keys data \<longleftrightarrow>
     wf_map data \<and> fst ` set data \<subseteq> set keys \<and>
     (\<forall>k \<in> set keys. null_to_nil (mraw data k) = null_to_nil (d k))"

text \<open>The read section from the key with number \<open>length vs\<close> on.\<close>

definition read_section :: "cache \<Rightarrow> string list \<Rightarrow> raw list \<Rightarrow> pc \<times> nat" where
  "read_section c keys vs =
     (case read_loop c (drop (length vs) keys) vs of
        Values vs' \<Rightarrow> (PReturn keys (Inr vs'), 0)
      | Blocked p vs' \<Rightarrow> (PWait keys vs' p, 0)
      | Failed e \<Rightarrow> (PReturn keys (Inl e), 1))"

definition do_read :: "nat \<Rightarrow> string list \<Rightarrow> raw list \<Rightarrow> frame list \<Rightarrow> sys \<Rightarrow> sys" where
  "do_read i keys vs fs s =
     (let (p, l) = read_section (sys_cache s) keys vs
      in set_caller i p fs (s\<lparr>leaked := leaked s + l\<rparr>))"

definition nil_or :: "raw option \<Rightarrow> raw" where
  "nil_or x = (case x of None \<Rightarrow> None | Some v \<Rightarrow> v)"

section \<open>Steps\<close>

inductive step :: "sys \<Rightarrow> sys \<Rightarrow> bool" where
  call: "pc_of s i = PIdle \<Longrightarrow> step s (set_caller i (PStart keys) [] s)"
| start_cached: "pc_of s i = PStart keys \<Longrightarrow> leaked s = 0 \<Longrightarrow>
    notExistToPending keys (sys_cache s) = ([], c') \<Longrightarrow>
    step s (set_caller i (PRead keys []) (frames_of s i) (s\<lparr>sys_cache := c'\<rparr>))"
| start_fetch: "pc_of s i = PStart keys \<Longrightarrow> leaked s = 0 \<Longrightarrow>
    notExistToPending keys (sys_cache s) = (missing, c') \<Longrightarrow> missing \<noteq> [] \<Longrightarrow>
    step s (set_caller i (PFetch keys (next_fetch s)) (frames_of s i)
      (set_fetch (next_fetch s) (FRequest missing) (s\<lparr>sys_cache := c', next_fetch := Suc (next_fetch s)\<rparr>)))"
| respond: "fetches s f = FRequest keys \<Longrightarrow> answers (db s) keys data \<Longrightarrow>
    step s (set_fetch f (FResponse keys (Inr data)) s)"
| respond_error: "fetches s f = FRequest keys \<Longrightarrow> step s (set_fetch f (FResponse keys (Inl e)) s)"
| store: "fetches s f = FResponse keys r \<Longrightarrow> leaked s = 0 \<Longrightarrow>
    fetchMissing keys r (sys_cache s) = (err, c') \<Longrightarrow>
    step s (set_fetch f (FSend err) (s\<lparr>sys_cache := c'\<rparr>))"
| receive_ok: "pc_of s i = PFetch keys f \<Longrightarrow> fetches s f = FSend None \<Longrightarrow>
    step s (set_caller i (PRead keys []) (frames_of s i) (set_fetch f FDone s))"
| receive_error: "pc_of s i = PFetch keys f \<Longrightarrow> fetches s f = FSend (Some e) \<Longrightarrow>
    step s (set_caller i (PReturn keys (Inl (EWrap ''fetching key: '' e))) (frames_of s i) (set_fetch f FDone s))"
| cancel_fetch: "pc_of s i = PFetch keys f \<Longrightarrow>
    step s (set_caller i (PReturn keys (Inl ECanceled)) (frames_of s i) s)"
| cancel_wait: "pc_of s i = PWait keys vs p \<Longrightarrow>
    step s (set_caller i (PReturn keys (Inl ECanceled)) (frames_of s i) s)"
| read: "pc_of s i = PRead keys vs \<Longrightarrow> step s (do_read i keys vs (frames_of s i) s)"
| wake: "pc_of s i = PWait keys vs p \<Longrightarrow> p \<in> closed (sys_cache s) \<Longrightarrow>
    step s (set_caller i (PWoken keys vs) (frames_of s i) s)"
| woken: "pc_of s i = PWoken keys vs \<Longrightarrow> keyState (sys_cache s) (keys ! length vs) = stExist \<Longrightarrow>
    step s (do_read i keys (vs @ [nil_or (cdata (sys_cache s) (keys ! length vs))]) (frames_of s i) s)"
| retry: "pc_of s i = PWoken keys vs \<Longrightarrow> keyState (sys_cache s) (keys ! length vs) \<noteq> stExist \<Longrightarrow>
    step s (set_caller i (PStart [keys ! length vs]) ((keys, vs) # frames_of s i) s)"
| return_ok: "pc_of s i = PReturn ks (Inr r) \<Longrightarrow> frames_of s i = (keys, vs) # fs \<Longrightarrow>
    step s (do_read i keys (vs @ [nil_or (cdata (sys_cache s) (keys ! length vs))]) fs s)"
| return_error: "pc_of s i = PReturn ks (Inl e) \<Longrightarrow> frames_of s i = (keys, vs) # fs \<Longrightarrow>
    step s (set_caller i (PReturn keys (Inl (EWrap ''fetching keys for a second time: '' e))) fs s)"
| db_write: "wf_map batch \<Longrightarrow>
    step s (s\<lparr>db := (\<lambda>k. case map_of batch k of Some v \<Rightarrow> v | None \<Rightarrow> db s k), queue := queue s @ [batch]\<rparr>)"
| apply_update: "queue s = batch # q \<Longrightarrow> leaked s = 0 \<Longrightarrow>
    step s (s\<lparr>sys_cache := SetIfExist batch (sys_cache s), queue := q\<rparr>)"

inductive reachable :: "sys \<Rightarrow> bool" where
  reachable_init: "reachable (init_sys d)"
| reachable_step: "reachable s \<Longrightarrow> step s s' \<Longrightarrow> reachable s'"

lemma set_caller_fields [simp]:
  "sys_cache (set_caller i p fs s) = sys_cache s" "leaked (set_caller i p fs s) = leaked s"
  "callers (set_caller i p fs s) = (callers s)(i := \<lparr>caller_pc = p, caller_frames = fs\<rparr>)"
  "fetches (set_caller i p fs s) = fetches s" "next_fetch (set_caller i p fs s) = next_fetch s"
  "db (set_caller i p fs s) = db s" "queue (set_caller i p fs s) = queue s"
  by (simp_all add: set_caller_def)

lemma set_fetch_fields [simp]:
  "sys_cache (set_fetch f x s) = sys_cache s" "leaked (set_fetch f x s) = leaked s"
  "callers (set_fetch f x s) = callers s" "fetches (set_fetch f x s) = (fetches s)(f := x)"
  "next_fetch (set_fetch f x s) = next_fetch s" "db (set_fetch f x s) = db s" "queue (set_fetch f x s) = queue s"
  by (simp_all add: set_fetch_def)

lemma do_read_fields [simp]:
  "sys_cache (do_read i keys vs fs s) = sys_cache s"
  "leaked (do_read i keys vs fs s) = leaked s + snd (read_section (sys_cache s) keys vs)"
  "callers (do_read i keys vs fs s) =
     (callers s)(i := \<lparr>caller_pc = fst (read_section (sys_cache s) keys vs), caller_frames = fs\<rparr>)"
  "fetches (do_read i keys vs fs s) = fetches s" "next_fetch (do_read i keys vs fs s) = next_fetch s"
  "db (do_read i keys vs fs s) = db s" "queue (do_read i keys vs fs s) = queue s"
  by (simp_all add: do_read_def split: prod.split)

section \<open>The cache invariant in every reachable state\<close>

text \<open>How a step changes the cache.\<close>

lemma step_cache:
  assumes "step s s'"
  shows "sys_cache s' = sys_cache s \<or>
    (leaked s = 0 \<and>
      ((\<exists>keys. sys_cache s' = snd (notExistToPending keys (sys_cache s))) \<or>
       (\<exists>keys r. sys_cache s' = snd (fetchMissing keys r (sys_cache s))) \<or>
       (\<exists>batch. sys_cache s' = SetIfExist batch (sys_cache s))))"
  using assms by (cases rule: step.cases) (auto simp: eq_snd_iff)

lemma step_cache_ok: "step s s' \<Longrightarrow> cache_ok (sys_cache s) \<Longrightarrow> cache_ok (sys_cache s')"
  using step_cache [of s s'] notExistToPending_spec [of "sys_cache s"]
  by (auto simp: cache_ok_fetchMissing cache_ok_SetIfExist) (metis prod.collapse)

lemma reachable_cache_ok: "reachable s \<Longrightarrow> cache_ok (sys_cache s)"
  by (induction rule: reachable.induct) (simp add: init_sys_def, rule step_cache_ok)

lemma step_leaked_mono: "step s s' \<Longrightarrow> leaked s \<le> leaked s'"
  by (induction rule: step.induct) simp_all

section \<open>Every pending key belongs to one request\<close>

fun fetch_keys :: "fetch \<Rightarrow> string list" where
  "fetch_keys (FRequest keys) = keys"
| "fetch_keys (FResponse keys r) = keys"
| "fetch_keys _ = []"

definition fetch_inv :: "sys \<Rightarrow> bool" where
  "fetch_inv s \<longleftrightarrow>
     (\<forall>f k. k \<in> set (fetch_keys (fetches s f)) \<longrightarrow> cdata (sys_cache s) k \<noteq> None \<or> pending (sys_cache s) k \<noteq> None) \<and>
     (\<forall>k. pending (sys_cache s) k \<noteq> None \<longrightarrow> (\<exists>f. k \<in> set (fetch_keys (fetches s f)))) \<and>
     (\<forall>f g k. k \<in> set (fetch_keys (fetches s f)) \<longrightarrow> k \<in> set (fetch_keys (fetches s g)) \<longrightarrow> f = g) \<and>
     (\<forall>f. next_fetch s \<le> f \<longrightarrow> fetches s f = FUnused) \<and>
     (\<forall>f keys data. fetches s f = FResponse keys (Inr data) \<longrightarrow> wf_map data \<and> fst ` set data \<subseteq> set keys) \<and>
     (\<forall>b \<in> set (queue s). wf_map b)"

lemmas fetch_inv_conjuncts =
  fetch_inv_def [THEN iffD1, THEN conjunct1, rule_format]
  fetch_inv_def [THEN iffD1, THEN conjunct2, THEN conjunct1, rule_format]
  fetch_inv_def [THEN iffD1, THEN conjunct2, THEN conjunct2, THEN conjunct1, rule_format]
  fetch_inv_def [THEN iffD1, THEN conjunct2, THEN conjunct2, THEN conjunct2, THEN conjunct1, rule_format]
  fetch_inv_def [THEN iffD1, THEN conjunct2, THEN conjunct2, THEN conjunct2, THEN conjunct2, THEN conjunct1, rule_format]
  fetch_inv_def [THEN iffD1, THEN conjunct2, THEN conjunct2, THEN conjunct2, THEN conjunct2, THEN conjunct2, rule_format]

lemma fetch_invD:
  assumes "fetch_inv s"
  shows "k \<in> set (fetch_keys (fetches s f)) \<Longrightarrow> cdata (sys_cache s) k = None \<Longrightarrow> pending (sys_cache s) k \<noteq> None"
    and "pending (sys_cache s) k = Some p \<Longrightarrow> \<exists>f. k \<in> set (fetch_keys (fetches s f))"
    and "k \<in> set (fetch_keys (fetches s f)) \<Longrightarrow> k \<in> set (fetch_keys (fetches s g)) \<Longrightarrow> f = g"
    and "next_fetch s \<le> f \<Longrightarrow> fetches s f = FUnused"
    and "fetches s f = FResponse keys (Inr data) \<Longrightarrow> wf_map data \<and> fst ` set data \<subseteq> set keys"
    and "b \<in> set (queue s) \<Longrightarrow> wf_map b"
  subgoal using fetch_inv_conjuncts(1) [OF assms, of k f] by auto
  subgoal using fetch_inv_conjuncts(2) [OF assms, of k] by simp
  subgoal using fetch_inv_conjuncts(3) [OF assms, of k f g] by simp
  subgoal using fetch_inv_conjuncts(4) [OF assms] by simp
  subgoal using fetch_inv_conjuncts(5) [OF assms] by simp
  subgoal using fetch_inv_conjuncts(6) [OF assms] by simp
  done

lemma fetch_invI:
  assumes "\<And>f k. k \<in> set (fetch_keys (fetches s f)) \<Longrightarrow> cdata (sys_cache s) k = None \<Longrightarrow>
      pending (sys_cache s) k = None \<Longrightarrow> False"
    and "\<And>k p. pending (sys_cache s) k = Some p \<Longrightarrow> \<exists>f. k \<in> set (fetch_keys (fetches s f))"
    and "\<And>f g k. k \<in> set (fetch_keys (fetches s f)) \<Longrightarrow> k \<in> set (fetch_keys (fetches s g)) \<Longrightarrow> f = g"
    and "\<And>f. next_fetch s \<le> f \<Longrightarrow> fetches s f = FUnused"
    and "\<And>f keys data. fetches s f = FResponse keys (Inr data) \<Longrightarrow> wf_map data \<and> fst ` set data \<subseteq> set keys"
    and "\<And>b. b \<in> set (queue s) \<Longrightarrow> wf_map b"
  shows "fetch_inv s"
  unfolding fetch_inv_def
  apply (intro conjI allI impI ballI)
  subgoal using assms(1) by blast
  subgoal using assms(2) by blast
  subgoal using assms(3) by blast
  subgoal using assms(4) by blast
  subgoal using assms(5) by blast
  subgoal using assms(5) by blast
  subgoal using assms(6) by blast
  done

text \<open>Only the keys of the fetches, the cache and the queue matter.\<close>

lemma fetch_inv_cong:
  assumes "fetch_inv s" "sys_cache s' = sys_cache s" "next_fetch s' = next_fetch s"
    and "\<And>f. fetch_keys (fetches s' f) = fetch_keys (fetches s f)"
    and "\<And>f. next_fetch s \<le> f \<Longrightarrow> fetches s' f = fetches s f"
    and "\<And>f keys data. fetches s' f = FResponse keys (Inr data) \<Longrightarrow> wf_map data \<and> fst ` set data \<subseteq> set keys"
    and "\<forall>b \<in> set (queue s'). wf_map b"
  shows "fetch_inv s'"
  by (rule fetch_invI)
    (use assms fetch_invD(1-4) [OF assms(1)] in \<open>auto simp: assms(2-4)\<close>)

lemma notExistToPending_Nil: "notExistToPending keys c = ([], c') \<Longrightarrow> c' = c"
  by (induction keys) (auto split: if_splits prod.splits)

lemma fetch_inv_start:
  assumes "fetch_inv s" "cache_ok (sys_cache s)"
    and "notExistToPending keys (sys_cache s) = (missing, c')"
  shows "fetch_inv (set_caller i p fs (set_fetch (next_fetch s) (FRequest missing)
    (s\<lparr>sys_cache := c', next_fetch := Suc (next_fetch s)\<rparr>)))" (is "fetch_inv ?s")
proof -
  from notExistToPending_spec [OF assms(2,3)]
  have c': "cdata c' = cdata (sys_cache s)" "pending (sys_cache s) \<subseteq>\<^sub>m pending c'"
    "dom (pending c') = dom (pending (sys_cache s)) \<union> set missing"
    and missing: "set missing \<subseteq> {k. keyState (sys_cache s) k = stNotExist}" by auto
  have pend: "pending c' k \<noteq> None \<longleftrightarrow> pending (sys_cache s) k \<noteq> None \<or> k \<in> set missing" for k
    using c'(3) by (auto simp: set_eq_iff domIff)
  have new: "k \<notin> set (fetch_keys (fetches s f))" if "k \<in> set missing" for k f
    using that missing fetch_invD(1) [OF assms(1), of k f] by (auto simp: keyState_simps)
  show ?thesis
  proof (rule fetch_invI)
    fix f k assume "k \<in> set (fetch_keys (fetches ?s f))" "cdata (sys_cache ?s) k = None" "pending (sys_cache ?s) k = None"
    then show False
      using c'(1) pend [of k] fetch_invD(1) [OF assms(1), of k f] by (auto split: if_splits)
  next
    fix k p assume p: "pending (sys_cache ?s) k = Some p"
    show "\<exists>f. k \<in> set (fetch_keys (fetches ?s f))"
    proof (cases "k \<in> set missing")
      case True
      then show ?thesis by (intro exI [of _ "next_fetch s"]) simp
    next
      case False
      then obtain f where f: "k \<in> set (fetch_keys (fetches s f))"
        using p pend [of k] fetch_invD(2) [OF assms(1), of k] by auto
      then have "f \<noteq> next_fetch s"
        using fetch_invD(4) [OF assms(1), of "next_fetch s"] by auto
      with f show ?thesis by (intro exI [of _ f]) simp
    qed
  qed (use new fetch_invD(3-6) [OF assms(1)] in \<open>auto split: if_splits\<close>)
qed

lemma fetch_inv_store:
  assumes "fetch_inv s" "cache_ok (sys_cache s)" "fetches s f = FResponse keys r"
    and "fetchMissing keys r (sys_cache s) = (err, c')"
  shows "fetch_inv (set_fetch f (FSend err) (s\<lparr>sys_cache := c'\<rparr>))" (is "fetch_inv ?s")
proof -
  have c': "c' = snd (fetchMissing keys r (sys_cache s))"
    using assms(4) by simp
  have rel: "releases (sys_cache s) c'"
    unfolding c' by (rule releases_fetchMissing [OF assms(2)])
  have mine: "pending c' k = None" if "k \<in> set keys" for k
    using that fetchMissing_error(2) [OF assms(2)] fetchMissing_data [OF assms(2)]
      fetch_invD(5) [OF assms(1), of f keys] assms(3) unfolding c' by (cases r) auto
  have other: "pending c' k = pending (sys_cache s) k" if "k \<notin> set keys" for k
    using that fetchMissing_error(2) [OF assms(2)] fetchMissing_data [OF assms(2)]
      fetch_invD(5) [OF assms(1), of f keys] assms(3) unfolding c' by (cases r) auto
  have disj: "k \<notin> set keys" if "g \<noteq> f" "k \<in> set (fetch_keys (fetches s g))" for g k
    using that fetch_invD(3) [OF assms(1), of k f g] assms(3) by auto
  show ?thesis
  proof (rule fetch_invI)
    fix g k assume g: "k \<in> set (fetch_keys (fetches ?s g))" "cdata (sys_cache ?s) k = None" "pending (sys_cache ?s) k = None"
    then have "g \<noteq> f" "k \<in> set (fetch_keys (fetches s g))" by (auto split: if_splits)
    moreover have "cdata (sys_cache s) k = None"
      using g(2) releasesD(1) [OF rel, of k] by (cases "cdata (sys_cache s) k") auto
    ultimately show False
      using fetch_invD(1) [OF assms(1), of k g] disj [of g k] other [of k] g(3) by auto
  next
    fix k p assume p: "pending (sys_cache ?s) k = Some p"
    then have k: "k \<notin> set keys" using mine [of k] by auto
    then obtain g where "k \<in> set (fetch_keys (fetches s g))"
      using p other [of k] fetch_invD(2) [OF assms(1)] by auto
    moreover have "g \<noteq> f"
      using calculation k assms(3) by auto
    ultimately show "\<exists>g. k \<in> set (fetch_keys (fetches ?s g))" by auto
  qed (use fetch_invD(3-6) [OF assms(1)] assms(3) in \<open>auto split: if_splits\<close>)
qed

lemma fetch_inv_update:
  assumes "fetch_inv s" "queue s = batch # q"
  shows "fetch_inv (s\<lparr>sys_cache := SetIfExist batch (sys_cache s), queue := q\<rparr>)" (is "fetch_inv ?s")
proof -
  have wf: "wf_map batch"
    using fetch_invD(6) [OF assms(1)] assms(2) by simp
  have view: "cdata (sys_cache ?s) k \<noteq> None \<and> pending (sys_cache ?s) k = None \<or>
      cdata (sys_cache ?s) k = cdata (sys_cache s) k \<and> pending (sys_cache ?s) k = pending (sys_cache s) k" for k
  proof (cases "k \<in> fst ` set batch")
    case True
    then obtain v where "(k, v) \<in> set batch" by auto
    from SetIfExist_in [OF wf this, of "sys_cache s"] show ?thesis
      by (auto simp: keyState_simps)
  next
    case False
    with SetIfExist_notin [of k batch "sys_cache s"] show ?thesis by simp
  qed
  show ?thesis
  proof (rule fetch_invI)
    fix f k assume "k \<in> set (fetch_keys (fetches ?s f))" "cdata (sys_cache ?s) k = None" "pending (sys_cache ?s) k = None"
    then show False
      using view [of k] fetch_invD(1) [OF assms(1), of k f] by auto
  next
    fix k p assume "pending (sys_cache ?s) k = Some p"
    with view [of k] have "pending (sys_cache s) k = Some p" by auto
    then show "\<exists>f. k \<in> set (fetch_keys (fetches ?s f))"
      using fetch_invD(2) [OF assms(1)] by simp
  qed (use fetch_invD(3-6) [OF assms(1)] assms(2) in auto)
qed

lemma step_fetch_inv:
  assumes "step s s'" "fetch_inv s" "cache_ok (sys_cache s)"
  shows "fetch_inv s'"
  using assms(1)
proof (cases rule: step.cases)
  case (start_cached i keys c')
  then show ?thesis
    using assms(2) notExistToPending_Nil [of keys "sys_cache s" c']
    by (intro fetch_inv_cong [OF assms(2)]) (auto dest: fetch_invD(5,6))
next
  case (start_fetch i keys missing c')
  then show ?thesis by (simp add: fetch_inv_start [OF assms(2,3)])
next
  case (store f keys r err c')
  then show ?thesis by (simp add: fetch_inv_store [OF assms(2,3)])
next
  case (apply_update batch q)
  then show ?thesis by (simp add: fetch_inv_update [OF assms(2)])
qed (rule fetch_inv_cong [OF assms(2)];
     use assms(2) fetch_invD(4) [OF assms(2)] in
       \<open>auto simp: answers_def dest: fetch_invD(5,6) split: if_splits\<close>)+

lemma reachable_fetch_inv: "reachable s \<Longrightarrow> fetch_inv s"
proof (induction rule: reachable.induct)
  case (reachable_init d)
  show ?case by (rule fetch_invI) (simp_all add: init_sys_def newCache_def)
next
  case (reachable_step s s')
  then show ?case by (blast intro: step_fetch_inv reachable_cache_ok)
qed

section \<open>Coherence with the database\<close>

text \<open>The value of the last update of a key that is still on its way.\<close>

fun last_update :: "(string, raw) gomap list \<Rightarrow> string \<Rightarrow> raw option" where
  "last_update [] k = None"
| "last_update (b # q) k = (case last_update q k of Some v \<Rightarrow> Some v | None \<Rightarrow> map_of b k)"

definition latest :: "(string, raw) gomap list \<Rightarrow> string \<Rightarrow> raw \<Rightarrow> raw" where
  "latest q k v = (case last_update q k of Some u \<Rightarrow> null_to_nil u | None \<Rightarrow> v)"

lemma last_update_snoc:
  "last_update (q @ [b]) k = (case map_of b k of Some v \<Rightarrow> Some v | None \<Rightarrow> last_update q k)"
  by (induction q) (auto split: option.splits)

lemma latest_snoc:
  "latest (q @ [b]) k v = (case map_of b k of Some u \<Rightarrow> null_to_nil u | None \<Rightarrow> latest q k v)"
  by (simp add: latest_def last_update_snoc split: option.split)

lemma null_to_nil_idem [simp]: "null_to_nil (null_to_nil v) = null_to_nil v"
  by (simp add: null_to_nil_def)

definition coherent :: "sys \<Rightarrow> bool" where
  "coherent s \<longleftrightarrow>
     (\<forall>k u. last_update (queue s) k = Some u \<longrightarrow> null_to_nil u = null_to_nil (db s k)) \<and>
     (\<forall>k v. cdata (sys_cache s) k = Some v \<longrightarrow> latest (queue s) k v = null_to_nil (db s k)) \<and>
     (\<forall>f keys data k. fetches s f = FResponse keys (Inr data) \<longrightarrow> k \<in> set keys \<longrightarrow>
        pending (sys_cache s) k \<noteq> None \<longrightarrow> latest (queue s) k (null_to_nil (mraw data k)) = null_to_nil (db s k))"

lemmas coherentD =
  coherent_def [THEN iffD1, THEN conjunct1, rule_format]
  coherent_def [THEN iffD1, THEN conjunct2, THEN conjunct1, rule_format]
  coherent_def [THEN iffD1, THEN conjunct2, THEN conjunct2, rule_format]

lemma coherentI:
  assumes "\<And>k u. last_update (queue s) k = Some u \<Longrightarrow> null_to_nil u = null_to_nil (db s k)"
    and "\<And>k v. cdata (sys_cache s) k = Some v \<Longrightarrow> latest (queue s) k v = null_to_nil (db s k)"
    and "\<And>f keys data k p. fetches s f = FResponse keys (Inr data) \<Longrightarrow> k \<in> set keys \<Longrightarrow>
        pending (sys_cache s) k = Some p \<Longrightarrow> latest (queue s) k (null_to_nil (mraw data k)) = null_to_nil (db s k)"
  shows "coherent s"
  unfolding coherent_def using assms by blast

lemma coherent_cong:
  assumes "coherent s" "sys_cache s' = sys_cache s" "queue s' = queue s" "db s' = db s"
    and "\<And>f keys data. fetches s' f = FResponse keys (Inr data) \<Longrightarrow> fetches s f = FResponse keys (Inr data)"
  shows "coherent s'"
proof (rule coherentI)
  fix f keys data k p
  assume "fetches s' f = FResponse keys (Inr data)" "k \<in> set keys" "pending (sys_cache s') k = Some p"
  then show "latest (queue s') k (null_to_nil (mraw data k)) = null_to_nil (db s' k)"
    using coherentD(3) [OF assms(1) assms(5), of f keys data k] by (simp add: assms(2-4))
qed (use coherentD(1,2) [OF assms(1)] in \<open>simp_all add: assms(2-4)\<close>)

lemma coherent_start:
  assumes "coherent s" "fetch_inv s" "cache_ok (sys_cache s)"
    and "notExistToPending keys (sys_cache s) = (missing, c')"
    and "sys_cache s' = c'" "queue s' = queue s" "db s' = db s"
    and "\<And>f keys data. fetches s' f = FResponse keys (Inr data) \<Longrightarrow> fetches s f = FResponse keys (Inr data)"
  shows "coherent s'"
proof -
  from notExistToPending_spec [OF assms(3,4)]
  have c': "cdata c' = cdata (sys_cache s)" "dom (pending c') = dom (pending (sys_cache s)) \<union> set missing"
    and missing: "set missing \<subseteq> {k. keyState (sys_cache s) k = stNotExist}" by auto
  show ?thesis
  proof (rule coherentI)
    fix f keys data k p
    assume *: "fetches s' f = FResponse keys (Inr data)" "k \<in> set keys" "pending (sys_cache s') k = Some p"
    then have f: "fetches s f = FResponse keys (Inr data)" by (simp add: assms(8))
    then have "k \<notin> set missing"
      using fetch_invD(1) [OF assms(2), of k f] *(2) missing by (auto simp: keyState_simps)
    then have "pending (sys_cache s) k \<noteq> None"
      using c'(2) *(3) assms(5) by (auto simp: set_eq_iff dom_def)
    then show "latest (queue s') k (null_to_nil (mraw data k)) = null_to_nil (db s' k)"
      using coherentD(3) [OF assms(1) f *(2)] by (simp add: assms(6,7))
  qed (use coherentD(1,2) [OF assms(1)] c'(1) in \<open>simp_all add: assms(5-7)\<close>)
qed

lemma coherent_respond:
  assumes "coherent s" "answers (db s) keys data"
  shows "coherent (set_fetch f (FResponse keys (Inr data)) s)"
proof (rule coherentI)
  fix g keys' data' k p
  assume "fetches (set_fetch f (FResponse keys (Inr data)) s) g = FResponse keys' (Inr data')" "k \<in> set keys'"
    "pending (sys_cache (set_fetch f (FResponse keys (Inr data)) s)) k = Some p"
  then show "latest (queue (set_fetch f (FResponse keys (Inr data)) s)) k (null_to_nil (mraw data' k)) =
      null_to_nil (db (set_fetch f (FResponse keys (Inr data)) s) k)"
    using coherentD(3) [OF assms(1), of g keys' data' k] coherentD(1) [OF assms(1), of k] assms(2)
    by (auto simp: latest_def answers_def split: if_splits option.splits)
qed (use coherentD(1,2) [OF assms(1)] in simp_all)

lemma coherent_store:
  assumes "coherent s" "fetch_inv s" "cache_ok (sys_cache s)" "fetches s f = FResponse keys r"
    and "fetchMissing keys r (sys_cache s) = (err, c')"
  shows "coherent (set_fetch f (FSend err) (s\<lparr>sys_cache := c'\<rparr>))" (is "coherent ?s")
proof -
  have c': "c' = snd (fetchMissing keys r (sys_cache s))"
    using assms(5) by simp
  have rel: "releases (sys_cache s) c'"
    unfolding c' by (rule releases_fetchMissing [OF assms(3)])
  show ?thesis
  proof (rule coherentI)
    fix k v assume v: "cdata (sys_cache ?s) k = Some v"
    show "latest (queue ?s) k v = null_to_nil (db ?s k)"
    proof (cases r)
      case (Inl e)
      then show ?thesis
        using v fetchMissing_error(1) [OF assms(3)] coherentD(2) [OF assms(1)] by (simp add: c')
    next
      case (Inr data)
      with assms(4) fetch_invD(5) [OF assms(2)] have wf: "wf_map data" "fst ` set data \<subseteq> set keys" by blast+
      note eff = fetchMissing_data [OF assms(3) wf(1), of keys k]
      show ?thesis
      proof (cases "pending (sys_cache s) k = None")
        case True
        then show ?thesis
          using v eff Inr coherentD(2) [OF assms(1)] by (simp add: c')
      next
        case False
        have "v = null_to_nil (mraw data k) \<and> k \<in> set keys"
          using v eff Inr False wf(2)
          by (force simp: c' mraw_def null_to_nil_def split: option.splits if_splits dest: map_of_SomeD)
        then show ?thesis
          using coherentD(3) [OF assms(1), of f keys data k] assms(4) Inr False by simp
      qed
    qed
  next
    fix g keys' data' k p
    assume *: "fetches ?s g = FResponse keys' (Inr data')" "k \<in> set keys'" "pending (sys_cache ?s) k = Some p"
    then have "fetches s g = FResponse keys' (Inr data')" "pending (sys_cache s) k = Some p"
      using releasesD(2) [OF rel] by (auto split: if_splits)
    then show "latest (queue ?s) k (null_to_nil (mraw data' k)) = null_to_nil (db ?s k)"
      using coherentD(3) [OF assms(1)] *(2) by simp
  qed (use coherentD(1) [OF assms(1)] in simp)
qed

lemma coherent_update:
  assumes "coherent s" "fetch_inv s" "queue s = batch # q"
  shows "coherent (s\<lparr>sys_cache := SetIfExist batch (sys_cache s), queue := q\<rparr>)" (is "coherent ?s")
proof -
  have wf: "wf_map batch"
    using fetch_invD(6) [OF assms(2)] assms(3) by simp
  have keep: "latest q k v = latest (queue s) k v" if "k \<notin> fst ` set batch" for k v
    using that by (simp add: assms(3) latest_def map_of_eq_None_keys [THEN iffD2] split: option.split)
  show ?thesis
  proof (rule coherentI)
    fix k u assume "last_update (queue ?s) k = Some u"
    then show "null_to_nil u = null_to_nil (db ?s k)"
      using coherentD(1) [OF assms(1), of k u] by (simp add: assms(3))
  next
    fix k v assume v: "cdata (sys_cache ?s) k = Some v"
    show "latest (queue ?s) k v = null_to_nil (db ?s k)"
    proof (cases "k \<in> fst ` set batch")
      case True
      then obtain u where u: "(k, u) \<in> set batch" by auto
      then have "map_of batch k = Some u" using wf by (simp add: wf_map_def map_of_eq_Some_iff)
      moreover have "v = null_to_nil u"
        using SetIfExist_in [OF wf u, of "sys_cache s"] v by (auto split: if_splits)
      ultimately show ?thesis
        using coherentD(1) [OF assms(1), of k] by (auto simp: assms(3) latest_def split: option.splits)
    next
      case False
      then show ?thesis
        using v SetIfExist_notin [OF False] coherentD(2) [OF assms(1)] keep by simp
    qed
  next
    fix f keys data k p
    assume *: "fetches ?s f = FResponse keys (Inr data)" "k \<in> set keys" "pending (sys_cache ?s) k = Some p"
    then have "k \<notin> fst ` set batch"
      using SetIfExist_in [OF wf] by fastforce
    then show "latest (queue ?s) k (null_to_nil (mraw data k)) = null_to_nil (db ?s k)"
      using * SetIfExist_notin coherentD(3) [OF assms(1), of f keys data k] keep by simp
  qed
qed

lemma coherent_db_write:
  assumes "coherent s"
  shows "coherent (s\<lparr>db := (\<lambda>k. case map_of batch k of Some v \<Rightarrow> v | None \<Rightarrow> db s k), queue := queue s @ [batch]\<rparr>)"
  by (rule coherentI)
    (auto simp: last_update_snoc latest_snoc coherentD(1,2) [OF assms] split: option.splits
      intro: coherentD(3) [OF assms])

lemma step_coherent:
  assumes "step s s'" "coherent s" "fetch_inv s" "cache_ok (sys_cache s)"
  shows "coherent s'"
  using assms(1)
proof (cases rule: step.cases)
  case (start_cached i keys c')
  then show ?thesis by (intro coherent_start [OF assms(2-4)]) simp_all
next
  case (start_fetch i keys missing c')
  then show ?thesis by (intro coherent_start [OF assms(2-4)]) (simp_all split: if_splits)
next
  case (respond f keys data)
  then show ?thesis by (simp add: coherent_respond [OF assms(2)])
next
  case (store f keys r err c')
  then show ?thesis by (simp add: coherent_store [OF assms(2-4)])
next
  case (db_write batch)
  then show ?thesis by (simp add: coherent_db_write [OF assms(2)])
next
  case (apply_update batch q)
  then show ?thesis by (simp add: coherent_update [OF assms(2,3)])
qed (rule coherent_cong [OF assms(2)]; auto split: if_splits)+

lemma reachable_coherent: "reachable s \<Longrightarrow> coherent s"
proof (induction rule: reachable.induct)
  case (reachable_init d)
  show ?case by (rule coherentI) (simp_all add: init_sys_def newCache_def)
next
  case (reachable_step s s')
  then show ?case by (blast intro: step_coherent reachable_fetch_inv reachable_cache_ok)
qed

end
