(* ===== verification/Cache_Callers.thy ===== *)
theory Cache_Callers
  imports Cache_System
begin

text \<open>
  The calls of \<^verbatim>\<open>GetOrSet\<close> in the system of \<^verbatim>\<open>Cache_System\<close>: what a call knows at
  each position, that a blocked call is never forgotten, that a successful call has one value
  for every key, and what happens after a call returned while it held the read lock.
\<close>

section \<open>What never gets lost\<close>

definition evolves :: "cache \<Rightarrow> cache \<Rightarrow> bool" where
  "evolves c c' \<longleftrightarrow>
     (\<forall>k. cdata c k \<noteq> None \<longrightarrow> cdata c' k \<noteq> None) \<and> closed c \<subseteq> closed c' \<and>
     (\<forall>k p. pending c k = Some p \<longrightarrow> pending c' k = Some p \<or> p \<in> closed c')"

lemma evolves_refl [simp]: "evolves c c"
  by (simp add: evolves_def)

lemma evolvesD:
  assumes "evolves c c'"
  shows "cdata c k \<noteq> None \<Longrightarrow> cdata c' k \<noteq> None"
    and "p \<in> closed c \<Longrightarrow> p \<in> closed c'"
    and "pending c k = Some p \<Longrightarrow> pending c' k = Some p \<or> p \<in> closed c'"
  using assms unfolding evolves_def by blast+

lemma releases_evolves: "releases c c' \<Longrightarrow> evolves c c'"
  unfolding evolves_def
proof (intro conjI allI impI)
  assume r: "releases c c'"
  show "cdata c' k \<noteq> None" if "cdata c k \<noteq> None" for k
    using that releasesD(1) [OF r, of k] by auto
  show "closed c \<subseteq> closed c'"
    using releasesD(3) [OF r] by blast
  show "pending c' k = Some p \<or> p \<in> closed c'" if "pending c k = Some p" for k p
    using that releasesD(2,4) [OF r, of k] by (cases "pending c' k") auto
qed

lemma notExistToPending_evolves:
  "cache_ok c \<Longrightarrow> evolves c (snd (notExistToPending keys c))"
  using notExistToPending_spec [of c keys "missing_keys keys c" "snd (notExistToPending keys c)"]
  by (auto simp: evolves_def map_le_def dom_def)

lemma step_evolves:
  assumes "step s s'" "cache_ok (sys_cache s)"
  shows "evolves (sys_cache s) (sys_cache s')"
  using step_cache [OF assms(1)] assms(2)
  by (auto simp: notExistToPending_evolves releases_evolves [OF releases_fetchMissing]
      releases_evolves [OF releases_SetIfExist])

section \<open>Positions of a call\<close>

definition done_ok :: "cache \<Rightarrow> string list \<Rightarrow> raw list \<Rightarrow> bool" where
  "done_ok c keys vs \<longleftrightarrow> (\<forall>k \<in> set (take (length vs) keys). cdata c k \<noteq> None)"

fun pc_keys :: "pc \<Rightarrow> string list" where
  "pc_keys PIdle = []"
| "pc_keys (PStart keys) = keys"
| "pc_keys (PFetch keys f) = keys"
| "pc_keys (PRead keys vs) = keys"
| "pc_keys (PWait keys vs p) = keys"
| "pc_keys (PWoken keys vs) = keys"
| "pc_keys (PReturn keys r) = keys"

fun pc_ok :: "cache \<Rightarrow> pc \<Rightarrow> bool" where
  "pc_ok c (PRead keys vs) \<longleftrightarrow> length vs \<le> length keys \<and> done_ok c keys vs"
| "pc_ok c (PWait keys vs p) \<longleftrightarrow>
     length vs < length keys \<and> done_ok c keys vs \<and> (p \<in> closed c \<or> pending c (keys ! length vs) = Some p)"
| "pc_ok c (PWoken keys vs) \<longleftrightarrow> length vs < length keys \<and> done_ok c keys vs"
| "pc_ok c (PReturn keys (Inr vs)) \<longleftrightarrow> length vs = length keys \<and> (\<forall>k \<in> set keys. cdata c k \<noteq> None)"
| "pc_ok c _ \<longleftrightarrow> True"

text \<open>The frames of second calls: each of them waits for the one key of the call above it.\<close>

fun frames_ok :: "cache \<Rightarrow> string list \<Rightarrow> frame list \<Rightarrow> bool" where
  "frames_ok c keys [] \<longleftrightarrow> True"
| "frames_ok c keys ((ks, vs) # fs) \<longleftrightarrow>
     length vs < length ks \<and> keys = [ks ! length vs] \<and> done_ok c ks vs \<and> frames_ok c ks fs"

definition caller_ok :: "cache \<Rightarrow> caller \<Rightarrow> bool" where
  "caller_ok c cl \<longleftrightarrow>
     pc_ok c (caller_pc cl) \<and> frames_ok c (pc_keys (caller_pc cl)) (caller_frames cl)"

lemma done_ok_evolves: "done_ok c keys vs \<Longrightarrow> evolves c c' \<Longrightarrow> done_ok c' keys vs"
  by (auto simp: done_ok_def dest: evolvesD(1))

lemma pc_ok_evolves: "pc_ok c p \<Longrightarrow> evolves c c' \<Longrightarrow> pc_ok c' p"
proof (induction c p rule: pc_ok.induct)
  case (2 c keys vs p)
  then show ?case
    using evolvesD(2) [of c c' p] evolvesD(3) [of c c' "keys ! length vs" p] by (auto intro: done_ok_evolves)
next
  case (4 c keys vs)
  then show ?case
    using evolvesD(1) [of c c'] by simp
qed (auto intro: done_ok_evolves)

lemma frames_ok_evolves: "frames_ok c keys fs \<Longrightarrow> evolves c c' \<Longrightarrow> frames_ok c' keys fs"
  by (induction c keys fs rule: frames_ok.induct) (auto intro: done_ok_evolves)

lemma caller_ok_evolves: "caller_ok c cl \<Longrightarrow> evolves c c' \<Longrightarrow> caller_ok c' cl"
  by (auto simp: caller_ok_def intro: pc_ok_evolves frames_ok_evolves)

lemma read_loop_cases:
  "case read_loop c keys acc of
     Values vs \<Rightarrow> length vs = length acc + length keys \<and> (\<forall>k \<in> set keys. cdata c k \<noteq> None)
   | Blocked p vs \<Rightarrow> \<exists>n < length keys. length vs = length acc + n \<and>
       (\<forall>k \<in> set (take n keys). cdata c k \<noteq> None) \<and> pending c (keys ! n) = Some p
   | Failed e \<Rightarrow> True"
proof (induction c keys acc rule: read_loop.induct)
  case (2 c key keys acc)
  show ?case
  proof (cases "keyState c key")
    case stExist
    then have eq: "read_loop c (key # keys) acc = read_loop c keys (acc @ [the (cdata c key)])"
      by simp
    have d: "cdata c key \<noteq> None"
      using stExist by (simp add: keyState_simps)
    show ?thesis
    proof (cases "read_loop c keys (acc @ [the (cdata c key)])")
      case (Blocked p vs)
      with 2 [OF stExist] obtain n where n: "n < length keys" "length vs = length acc + Suc n"
        "\<forall>k \<in> set (take n keys). cdata c k \<noteq> None" "pending c (keys ! n) = Some p"
        by auto
      show ?thesis
        unfolding eq Blocked read_result.case by (rule exI [of _ "Suc n"]) (use n d in simp)
    qed (use 2 [OF stExist] eq d in auto)
  next
    case stPending
    then obtain p where "pending c key = Some p"
      by (auto simp: keyState_simps)
    with stPending show ?thesis by auto
  qed simp_all
qed simp

lemma read_section_ok:
  assumes "length vs \<le> length keys" "done_ok c keys vs"
  shows "pc_ok c (fst (read_section c keys vs)) \<and> pc_keys (fst (read_section c keys vs)) = keys"
proof -
  have "set keys = set (take (length vs) keys) \<union> set (drop (length vs) keys)"
    by (metis append_take_drop_id set_append)
  moreover have "take (length vs + n) keys = take (length vs) keys @ take n (drop (length vs) keys)" for n
    by (rule take_add)
  ultimately show ?thesis
    using read_loop_cases [where c = c and keys = "drop (length vs) keys" and acc = vs] assms
    by (auto simp: read_section_def done_ok_def split: read_result.splits)
qed

lemma done_ok_snoc:
  "length vs < length keys \<Longrightarrow> done_ok c keys vs \<Longrightarrow> cdata c (keys ! length vs) \<noteq> None
    \<Longrightarrow> done_ok c keys (vs @ [v])"
  by (auto simp: done_ok_def take_Suc_conv_app_nth)

lemma caller_ok_read:
  assumes "length vs \<le> length keys" "done_ok c keys vs" "frames_ok c keys fs"
  shows "caller_ok c \<lparr>caller_pc = fst (read_section c keys vs), caller_frames = fs\<rparr>"
  using read_section_ok [OF assms(1,2)] assms(3) by (simp add: caller_ok_def)

lemma step_callers_ok:
  assumes "step s s'" "cache_ok (sys_cache s)" "\<forall>i. caller_ok (sys_cache s) (callers s i)"
  shows "\<forall>i. caller_ok (sys_cache s') (callers s' i)"
proof -
  note ev = step_evolves [OF assms(1,2)]
  have old: "caller_ok (sys_cache s') (callers s i)" for i
    using assms(3) ev by (blast intro: caller_ok_evolves)
  have pc: "pc_ok (sys_cache s') (pc_of s i)" "frames_ok (sys_cache s') (pc_keys (pc_of s i)) (frames_of s i)" for i
    using old [of i] by (simp_all add: caller_ok_def)
  from assms(1) show ?thesis
  proof (cases rule: step.cases)
    case (start_cached i keys c')
    then show ?thesis
      using old pc [of i] by (simp add: caller_ok_def done_ok_def)
  next
    case (start_fetch i keys missing c')
    then show ?thesis
      using old pc [of i] by (simp add: caller_ok_def)
  next
    case (receive_ok i keys f)
    then show ?thesis
      using old pc [of i] by (simp add: caller_ok_def done_ok_def)
  next
    case (read i keys vs)
    then show ?thesis
      using old pc [of i] by (simp add: caller_ok_read)
  next
    case (woken i keys vs)
    then show ?thesis
      using old pc [of i] by (simp add: caller_ok_read done_ok_snoc keyState_simps)
  next
    case (return_ok i ks r keys vs fs)
    then show ?thesis
      using old pc [of i] by (simp add: caller_ok_read done_ok_snoc)
  next
    case (retry i keys vs)
    then show ?thesis
      using old pc [of i] by (simp add: caller_ok_def)
  next
    case (receive_error i keys f e)
    then show ?thesis
      using old pc [of i] by (simp add: caller_ok_def)
  next
    case (cancel_fetch i keys f)
    then show ?thesis
      using old pc [of i] by (simp add: caller_ok_def)
  next
    case (cancel_wait i keys vs p)
    then show ?thesis
      using old pc [of i] by (simp add: caller_ok_def)
  next
    case (wake i keys vs p)
    then show ?thesis
      using old pc [of i] by (simp add: caller_ok_def)
  next
    case (return_error i ks e keys vs fs)
    then show ?thesis
      using old pc [of i] by (simp add: caller_ok_def)
  qed (use old in \<open>simp_all add: caller_ok_def\<close>)
qed

lemma reachable_callers_ok: "reachable s \<Longrightarrow> caller_ok (sys_cache s) (callers s i)"
proof (induction arbitrary: i rule: reachable.induct)
  case (reachable_init d)
  show ?case by (simp add: init_sys_def caller_ok_def)
next
  case (reachable_step s s')
  then show ?case using step_callers_ok reachable_cache_ok by blast
qed

section \<open>Requests and their callers\<close>

definition owners_ok :: "sys \<Rightarrow> bool" where
  "owners_ok s \<longleftrightarrow>
     (\<forall>i keys f. pc_of s i = PFetch keys f \<longrightarrow>
        f < next_fetch s \<and> fetches s f \<noteq> FUnused \<and> fetches s f \<noteq> FDone \<and>
        (\<forall>j keys'. pc_of s j = PFetch keys' f \<longrightarrow> j = i))"

lemma owners_okD:
  assumes "owners_ok s" "pc_of s i = PFetch keys f"
  shows "f < next_fetch s" "fetches s f \<noteq> FUnused" "fetches s f \<noteq> FDone"
    "pc_of s j = PFetch keys' f \<Longrightarrow> j = i"
  using assms unfolding owners_ok_def by blast+

lemma owners_okI:
  assumes "\<And>i keys f. pc_of s i = PFetch keys f \<Longrightarrow> f < next_fetch s"
    and "\<And>i keys f. pc_of s i = PFetch keys f \<Longrightarrow> fetches s f \<noteq> FUnused \<and> fetches s f \<noteq> FDone"
    and "\<And>i j keys keys' f. pc_of s i = PFetch keys f \<Longrightarrow> pc_of s j = PFetch keys' f \<Longrightarrow> j = i"
  shows "owners_ok s"
  unfolding owners_ok_def using assms by blast

lemma read_section_no_fetch: "fst (read_section c keys vs) \<noteq> PFetch ks f"
  by (simp add: read_section_def split: read_result.split)

lemma owners_ok_cong:
  assumes "owners_ok s" "next_fetch s' = next_fetch s"
    and "\<And>j keys f. pc_of s' j = PFetch keys f \<Longrightarrow> pc_of s j = PFetch keys f"
    and "\<And>f. fetches s f \<noteq> FUnused \<Longrightarrow> fetches s f \<noteq> FDone \<Longrightarrow> fetches s' f \<noteq> FUnused \<and> fetches s' f \<noteq> FDone"
  shows "owners_ok s'"
proof (rule owners_okI)
  fix i keys f assume "pc_of s' i = PFetch keys f"
  then have i: "pc_of s i = PFetch keys f" by (rule assms(3))
  show "f < next_fetch s'" "fetches s' f \<noteq> FUnused \<and> fetches s' f \<noteq> FDone"
    using owners_okD(1-3) [OF assms(1) i] assms(4) by (simp_all add: assms(2))
  fix j keys' assume "pc_of s' j = PFetch keys' f"
  then show "j = i"
    by (rule owners_okD(4) [OF assms(1) i assms(3)])
qed

lemma owners_ok_received:
  assumes "owners_ok s" "pc_of s i = PFetch keys f" "\<And>ks g. p \<noteq> PFetch ks g"
  shows "owners_ok (set_caller i p fs (set_fetch f FDone s))"
proof (rule owners_okI)
  fix j ks g assume "pc_of (set_caller i p fs (set_fetch f FDone s)) j = PFetch ks g"
  then have j: "j \<noteq> i" "pc_of s j = PFetch ks g"
    using assms(3) by (auto split: if_splits)
  show "g < next_fetch (set_caller i p fs (set_fetch f FDone s))"
    using owners_okD(1) [OF assms(1) j(2)] by simp
  have "g \<noteq> f"
    using owners_okD(4) [OF assms(1,2)] j by blast
  then show "fetches (set_caller i p fs (set_fetch f FDone s)) g \<noteq> FUnused \<and>
      fetches (set_caller i p fs (set_fetch f FDone s)) g \<noteq> FDone"
    using owners_okD(2,3) [OF assms(1) j(2)] by simp
  fix j' ks' assume "pc_of (set_caller i p fs (set_fetch f FDone s)) j' = PFetch ks' g"
  then show "j' = j"
    using assms(3) owners_okD(4) [OF assms(1) j(2)] by (auto split: if_splits)
qed

lemma owners_ok_new:
  assumes "owners_ok s"
  shows "owners_ok (set_caller i (PFetch keys (next_fetch s)) fs
    (set_fetch (next_fetch s) (FRequest missing) (s\<lparr>sys_cache := c', next_fetch := Suc (next_fetch s)\<rparr>)))"
proof -
  have old: "f < next_fetch s" if "pc_of s j = PFetch ks f" for j ks f
    using owners_okD(1) [OF assms that] .
  show ?thesis
    by (rule owners_okI)
      (use old owners_okD [OF assms] in \<open>fastforce split: if_splits simp: less_Suc_eq\<close>)+
qed

lemma step_owners_ok:
  assumes "step s s'" "owners_ok s"
  shows "owners_ok s'"
  using assms(1)
proof (cases rule: step.cases)
  case (start_fetch i keys missing c')
  then show ?thesis by (simp add: owners_ok_new [OF assms(2)])
next
  case (receive_ok i keys f)
  then show ?thesis by (simp add: owners_ok_received [OF assms(2)])
next
  case (receive_error i keys f e)
  then show ?thesis by (simp add: owners_ok_received [OF assms(2)])
qed (rule owners_ok_cong [OF assms(2)]; simp add: read_section_no_fetch split: if_splits)+

lemma reachable_owners_ok: "reachable s \<Longrightarrow> owners_ok s"
proof (induction rule: reachable.induct)
  case (reachable_init d)
  show ?case by (simp add: owners_ok_def init_sys_def)
next
  case (reachable_step s s')
  then show ?case by (blast intro: step_owners_ok)
qed

text \<open>Under the lock, a response closes the channels of all its keys.\<close>

lemma fetchMissing_closes:
  assumes "cache_ok c" "pending c k = Some p" "k \<in> set keys"
  shows "p \<in> closed (snd (fetchMissing keys r c))"
proof -
  have "pending (snd (fetchMissing keys r c)) k = None"
    using assms(1,3)
    by (simp add: fetchMissing_def drop_pending_None cache_ok_store_data cache_ok_store_missing split: sum.split)
  then show ?thesis
    using releasesD(4) [OF releases_fetchMissing [OF assms(1)] assms(2)] by blast
qed

section \<open>A run\<close>

text \<open>
  Two calls for the same key; the request of the first one fails after the second one has seen
  the key as pending and before it reads the values.
\<close>

definition run_key :: string where
  "run_key = ''user/1/name''"

definition run_calls :: sys where
  "run_calls = set_caller 1 (PStart [run_key]) [] (set_caller 0 (PStart [run_key]) [] (init_sys (\<lambda>_. None)))"

definition run_pending :: cache where
  "run_pending = snd (notExistToPending [run_key] newCache)"

definition run_requested :: sys where
  "run_requested =
     set_caller 0 (PFetch [run_key] 0) [] (set_fetch 0 (FRequest [run_key])
       (run_calls\<lparr>sys_cache := run_pending, next_fetch := 1\<rparr>))"

definition run_waiting :: sys where
  "run_waiting = set_caller 1 (PRead [run_key] []) [] (run_requested\<lparr>sys_cache := run_pending\<rparr>)"

definition run_failed :: sys where
  "run_failed = set_fetch 0 (FResponse [run_key] (Inl (EMsg ''connection refused''))) run_waiting"

definition run_stored :: sys where
  "run_stored =
     set_fetch 0 (FSend (Some (EWrap ''fetching missing keys: '' (EMsg ''connection refused''))))
       (run_failed\<lparr>sys_cache := snd (fetchMissing [run_key] (Inl (EMsg ''connection refused'')) run_pending)\<rparr>)"

definition run_leaked :: sys where
  "run_leaked = do_read 1 [run_key] [] [] run_stored"

lemma reachable_run_calls: "reachable run_calls"
  unfolding run_calls_def
  by (rule reachable_step [OF reachable_step [OF reachable_init step.call] step.call]) (simp_all add: init_sys_def)

lemma run_pending_eq: "notExistToPending [run_key] newCache = ([run_key], run_pending)"
  by (simp add: run_pending_def keyState_def newCache_def)

lemma run_calls_cache: "sys_cache run_calls = newCache" "leaked run_calls = 0" "next_fetch run_calls = 0"
  "pc_of run_calls 0 = PStart [run_key]" "frames_of run_calls 0 = []"
  "pc_of run_calls (Suc 0) = PStart [run_key]" "frames_of run_calls (Suc 0) = []"
  by (simp_all add: run_calls_def init_sys_def)

lemma reachable_run_requested: "reachable run_requested"
  using reachable_step [OF reachable_run_calls step.start_fetch [of run_calls 0 "[run_key]" "[run_key]" run_pending]]
  by (simp add: run_calls_cache run_pending_eq run_requested_def del: notExistToPending.simps)

lemma reachable_run_waiting: "reachable run_waiting"
proof -
  have "notExistToPending [run_key] run_pending = ([], run_pending)"
    by (rule notExistToPending_none) (simp add: run_pending_def keyState_def newCache_def)
  then show ?thesis
    using reachable_step [OF reachable_run_requested step.start_cached [of run_requested 1 "[run_key]" run_pending]]
    by (simp add: run_requested_def run_calls_cache run_waiting_def del: notExistToPending.simps)
qed

lemma reachable_run_failed: "reachable run_failed"
  unfolding run_failed_def
  by (rule reachable_step [OF reachable_run_waiting step.respond_error])
    (simp add: run_waiting_def run_requested_def)

lemma reachable_run_stored: "reachable run_stored"
proof -
  let ?r = "Inl (EMsg ''connection refused'')"
  have f: "fetches run_failed 0 = FResponse [run_key] ?r" "leaked run_failed = 0" "sys_cache run_failed = run_pending"
    by (simp_all add: run_failed_def run_waiting_def run_requested_def run_calls_cache)
  have "fetchMissing [run_key] ?r (sys_cache run_failed) =
      (Some (EWrap ''fetching missing keys: '' (EMsg ''connection refused'')),
       snd (fetchMissing [run_key] ?r run_pending))"
    by (simp add: f(3) fetchMissing_def)
  then show ?thesis
    unfolding run_stored_def by (rule reachable_step [OF reachable_run_failed step.store [OF f(1,2)]])
qed

lemma reachable_run_leaked: "reachable run_leaked"
  using reachable_step [OF reachable_run_stored step.read [of run_stored 1 "[run_key]" "[]"]]
  by (simp add: run_leaked_def run_stored_def run_failed_def run_waiting_def)

lemma run_leaked_count: "leaked run_leaked = 1"
proof -
  have "keyState (sys_cache run_stored) run_key = stNotExist"
    by (simp add: run_stored_def fetchMissing_def run_pending_def keyState_def newCache_def close_pending_def
        close_chan_def)
  moreover have "leaked run_stored = 0"
    by (simp add: run_stored_def run_failed_def run_waiting_def run_requested_def run_calls_cache)
  ultimately show ?thesis
    by (simp add: run_leaked_def read_section_def)
qed

lemma leaked_frozen:
  "step\<^sup>*\<^sup>* s s' \<Longrightarrow> 0 < leaked s \<Longrightarrow> sys_cache s' = sys_cache s \<and> 0 < leaked s'"
proof (induction rule: rtranclp_induct)
  case (step s' s'')
  then show ?case
    using step_cache [OF step.hyps(2)] step_leaked_mono [OF step.hyps(2)] by auto
qed simp

section \<open>Properties of the concurrent cache\<close>

text \<open>
  C11. In every reachable state no key is in the invalid state and no channel was closed twice:
  the branch for \<^verbatim>\<open>stInvalid\<close> in \<^verbatim>\<open>GetOrSet\<close> is dead code and no goroutine
  panics.
\<close>

theorem never_invalid:
  assumes "reachable s"
  shows "keyState (sys_cache s) k \<noteq> stInvalid \<and> \<not> panicked (sys_cache s)"
  using reachable_cache_ok [OF assms] by (simp add: cache_ok_not_invalid cache_okD(7))

theorem never_invalid_witness:
  "keyState (sys_cache run_requested) run_key \<noteq> stInvalid \<and> \<not> panicked (sys_cache run_requested)"
  using never_invalid [OF reachable_run_requested, of run_key] .

text \<open>
  C10. However the calls interleave, a pending key belongs to exactly one request that is under
  way, and no two requests ask for the same key: only the first call fetches a key.
\<close>

theorem one_request_per_key:
  assumes "reachable s"
  shows "(pending (sys_cache s) k \<noteq> None \<longrightarrow> (\<exists>!f. k \<in> set (fetch_keys (fetches s f)))) \<and>
    (k \<in> set (fetch_keys (fetches s f)) \<longrightarrow> k \<in> set (fetch_keys (fetches s g)) \<longrightarrow> f = g)"
  using fetch_invD(2,3) [OF reachable_fetch_inv [OF assms], of k] by blast

theorem one_request_per_key_witness:
  "\<exists>!f. run_key \<in> set (fetch_keys (fetches run_waiting f))"
proof -
  have "pending (sys_cache run_waiting) run_key \<noteq> None"
    by (simp add: run_waiting_def run_pending_def keyState_def newCache_def)
  with one_request_per_key [OF reachable_run_waiting, of run_key, THEN conjunct1] show ?thesis by (rule mp)
qed

text \<open>
  C7. Coherence: when no update is on its way, every value of the cache is the value of the
  database, with \<^verbatim>\<open>null\<close> as nil, for every interleaving of requests, failed requests,
  writes to the database and updates. In particular a response that was read before an update
  never overwrites the update.
\<close>

theorem cache_coherent:
  assumes "reachable s" "queue s = []" "cdata (sys_cache s) k = Some v"
  shows "v = null_to_nil (db s k)"
  using coherentD(2) [OF reachable_coherent [OF assms(1)] assms(3)] by (simp add: assms(2) latest_def)

text \<open>A run with a value in the cache.\<close>

definition run_answered :: sys where
  "run_answered = set_fetch 0 (FResponse [run_key] (Inr [])) run_waiting"

definition run_cached :: sys where
  "run_cached = set_fetch 0 (FSend None)
     (run_answered\<lparr>sys_cache := snd (fetchMissing [run_key] (Inr []) run_pending)\<rparr>)"

lemma reachable_run_cached: "reachable run_cached"
proof -
  have w: "fetches run_waiting 0 = FRequest [run_key]" "leaked run_waiting = 0" "sys_cache run_waiting = run_pending"
    "db run_waiting = (\<lambda>_. None)"
    by (simp_all add: run_waiting_def run_requested_def run_calls_def init_sys_def)
  have "answers (db run_waiting) [run_key] []"
    by (simp add: answers_def w(4) wf_map_def mraw_def)
  then have "reachable run_answered"
    unfolding run_answered_def by (rule reachable_step [OF reachable_run_waiting step.respond [OF w(1)]])
  moreover have "fetches run_answered 0 = FResponse [run_key] (Inr [])" "leaked run_answered = 0"
    by (simp_all add: run_answered_def w(2))
  moreover have "fetchMissing [run_key] (Inr []) (sys_cache run_answered) =
      (None, snd (fetchMissing [run_key] (Inr []) run_pending))"
    by (simp add: run_answered_def w(3) fetchMissing_def)
  ultimately show ?thesis
    unfolding run_cached_def by (blast intro: reachable_step step.store)
qed

lemma run_cached_value: "cdata (sys_cache run_cached) run_key = Some None" "queue run_cached = []"
  by (simp_all add: run_cached_def run_answered_def run_waiting_def run_requested_def run_calls_def init_sys_def
      run_pending_def newCache_def fetchMissing_def keyState_def null_to_nil_def close_pending_def close_chan_def
      cache_set_def)

theorem cache_coherent_witness: "null_to_nil (db run_cached run_key) = None"
  using cache_coherent [OF reachable_run_cached run_cached_value(2,1)] by simp

text \<open>
  C8. A call of \<^verbatim>\<open>GetOrSet\<close> that succeeds, even after it was blocked or had to ask a
  second time, has exactly one value for every key it was called with, and all these keys are in
  the cache from then on.
\<close>

theorem GetOrSet_returns_all:
  assumes "reachable s" "pc_of s i = PReturn keys (Inr vs)"
  shows "length vs = length keys \<and> (\<forall>k \<in> set keys. keyState (sys_cache s) k = stExist)"
proof -
  have "length vs = length keys" "\<forall>k \<in> set keys. cdata (sys_cache s) k \<noteq> None"
    using reachable_callers_ok [OF assms(1), of i] assms(2) by (simp_all add: caller_ok_def)
  moreover have "cdata (sys_cache s) k \<noteq> None \<longrightarrow> pending (sys_cache s) k = None" for k
    using cache_okD(1) [OF reachable_cache_ok [OF assms(1)]] by blast
  ultimately show ?thesis by (simp add: keyState_simps)
qed

lemma reachable_run_returned: "reachable (do_read 1 [run_key] [] [] run_cached)"
  using reachable_step [OF reachable_run_cached step.read [of run_cached 1 "[run_key]" "[]"]]
  by (simp add: run_cached_def run_answered_def run_waiting_def)

theorem GetOrSet_returns_all_witness:
  "keyState (sys_cache (do_read 1 [run_key] [] [] run_cached)) run_key = stExist"
proof -
  have "keyState (sys_cache run_cached) run_key = stExist"
    using run_cached_value(1) cache_okD(1) [OF reachable_cache_ok [OF reachable_run_cached]]
    by (simp add: keyState_simps)
  then have "pc_of (do_read 1 [run_key] [] [] run_cached) 1 = PReturn [run_key] (Inr [None])"
    by (simp add: read_section_def run_cached_value)
  from GetOrSet_returns_all [OF reachable_run_returned this] show ?thesis by simp
qed


lemma reachable_run_blocked: "reachable (do_read 1 [run_key] [] [] run_waiting)"
  using reachable_step [OF reachable_run_waiting step.read [of run_waiting 1 "[run_key]" "[]"]]
  by (simp add: run_waiting_def)


text \<open>
  C12. The read lock leaks: there is an interleaving of two calls and one failed request after
  which a call has returned its error while it still holds the read lock. From then on no
  goroutine ever changes the cache again, whatever happens: no key can be fetched any more and
  no update arrives.
\<close>

theorem read_lock_leak:
  "\<exists>s. reachable s \<and> leaked s = 1 \<and> (\<forall>s'. step\<^sup>*\<^sup>* s s' \<longrightarrow> sys_cache s' = sys_cache s)"
proof (intro exI [of _ run_leaked] conjI allI impI)
  fix s' assume "step\<^sup>*\<^sup>* run_leaked s'"
  then show "sys_cache s' = sys_cache run_leaked"
    using leaked_frozen run_leaked_count by simp
qed (rule reachable_run_leaked, rule run_leaked_count)

theorem read_lock_leak_witness: "\<exists>s. reachable s \<and> leaked s = 1"
  using read_lock_leak by blast

end
