(* ===== verification/Keys_Request.thy ===== *)
theory Keys_Request
  imports Go_Error
begin

text \<open>
  The request language of \<^verbatim>\<open>internal/keysbuilder/fields.go\<close> and
  \<^verbatim>\<open>json.go\<close>: field descriptions, request bodies and their decoding from JSON, with the
  validation errors. The \<^verbatim>\<open>keys\<close> methods are in the theory Keysbuilder.

  A description that is nil in Go (the field is requested without following it) is
  \<open>None\<close>. A \<^verbatim>\<open>fieldsMap\<close> is a Go map from field names to descriptions.
\<close>

section \<open>Data\<close>

datatype fieldDescription =
    relationField string "(string \<times> fieldDescription option) list"
  | relationListField string "(string \<times> fieldDescription option) list"
  | genericRelationField "(string \<times> fieldDescription option) list"
  | genericRelationListField "(string \<times> fieldDescription option) list"
  | templateField "fieldDescription option"

type_synonym fieldsMap = "(string, fieldDescription option) gomap"

record body =
  ids :: "int list"
  collection :: string
  body_fields :: fieldsMap

definition invalid :: "string \<Rightarrow> goerror" where
  "invalid m = EInvalid (InvalidError m [] None)"

section \<open>Struct decoding\<close>

text \<open>
  The anonymous structs the methods decode into: the first saved type error, and the fields
  \<^verbatim>\<open>IDs\<close>, \<^verbatim>\<open>Collection\<close> and \<^verbatim>\<open>Fields\<close>. \<open>st_fields = None\<close> is
  a \<^verbatim>\<open>fieldsMap\<close> whose map was never made.
\<close>

record struct_state =
  st_saved :: "type_error option"
  st_ids :: "int list"
  st_coll :: string
  st_fields :: "fieldsMap option"

definition struct_init :: struct_state where
  "struct_init = \<lparr>st_saved = None, st_ids = [], st_coll = [], st_fields = None\<rparr>"

definition save_error :: "string \<Rightarrow> type_error \<Rightarrow> type_error option \<Rightarrow> type_error option" where
  "save_error f e saved =
     (case saved of
        Some e' \<Rightarrow> Some e'
      | None \<Rightarrow> Some (UnmarshalTypeError (te_value e) (te_type e) f))"

text \<open>\<^verbatim>\<open>addErrorContext\<close>: a type error that is returned gets the name of the struct field.\<close>

definition add_context :: "string \<Rightarrow> goerror \<Rightarrow> goerror" where
  "add_context f e =
     (case e of EType t \<Rightarrow> EType (UnmarshalTypeError (te_value t) (te_type t) f) | _ \<Rightarrow> e)"

definition set_coll :: "json \<Rightarrow> struct_state \<Rightarrow> struct_state" where
  "set_coll v st =
     (if v = JNull then st
      else case decode_string v of
             Inl e \<Rightarrow> st\<lparr>st_saved := save_error ''collection'' e (st_saved st)\<rparr>
           | Inr s \<Rightarrow> st\<lparr>st_coll := s\<rparr>)"

definition set_ids :: "json \<Rightarrow> struct_state \<Rightarrow> struct_state" where
  "set_ids v st =
     (case decode_ints v of
        Inl e \<Rightarrow> st\<lparr>st_saved := save_error ''ids'' e (st_saved st)\<rparr>
      | Inr is \<Rightarrow> st\<lparr>st_ids := is\<rparr>)"

text \<open>The struct with the one field \<^verbatim>\<open>Type string\<close>.\<close>

fun type_member :: "(string \<times> string \<times> json) list \<Rightarrow> type_error option \<Rightarrow> string \<Rightarrow> type_error option \<times> string" where
  "type_member [] saved t = (saved, t)"
| "type_member ((n, _, v) # ms) saved t =
     (if name_matches ''type'' n \<and> v \<noteq> JNull then
        (case decode_string v of
           Inl e \<Rightarrow> type_member ms (save_error ''type'' e saved) t
         | Inr s \<Rightarrow> type_member ms saved s)
      else type_member ms saved t)"

text \<open>The struct with the one field \<^verbatim>\<open>Values json.RawMessage\<close>: the last such member.\<close>

fun values_member :: "(string \<times> string \<times> json) list \<Rightarrow> json option" where
  "values_member [] = None"
| "values_member ((n, _, v) # ms) =
     (case values_member ms of
        Some w \<Rightarrow> Some w
      | None \<Rightarrow> if name_matches ''values'' n then Some v else None)"

section \<open>Decoding of descriptions\<close>

text \<open>The type names and the switch over them.\<close>

datatype field_type =
  ftRelation | ftRelationList | ftGenericRelation | ftGenericRelationList | ftTemplate | ftNone | ftUnknown

definition field_type :: "string \<Rightarrow> field_type" where
  "field_type t =
     (if t = ''relation'' then ftRelation
      else if t = ''relation-list'' then ftRelationList
      else if t = ''generic-relation'' then ftGenericRelation
      else if t = ''generic-relation-list'' then ftGenericRelationList
      else if t = ''template'' then ftTemplate
      else if t = [] then ftNone
      else ftUnknown)"

text \<open>What the methods do with an error of a nested description.\<close>

definition field_error :: "string \<Rightarrow> goerror \<Rightarrow> goerror" where
  "field_error n e =
     (case e of
        EInvalid sub \<Rightarrow> EInvalid (InvalidError ''Error on field'' n (Some sub))
      | _ \<Rightarrow> e)"

definition template_error :: "goerror \<Rightarrow> goerror" where
  "template_error e =
     (case e of
        EInvalid sub \<Rightarrow> EInvalid (InvalidError ''Error in template sub'' ''template'' (Some sub))
      | _ \<Rightarrow> EWrap ''decoding sub attribute of template field: '' e)"

abbreviation members_size :: "(string \<times> string \<times> json) list \<Rightarrow> nat" where
  "members_size \<equiv> size_list (size_prod (\<lambda>_. 0) (size_prod (\<lambda>_. 0) size))"

lemma values_member_size: "values_member ms = Some v \<Longrightarrow> size v < members_size ms"
  by (induction ms rule: values_member.induct) (fastforce split: option.splits if_splits)+

text \<open>
  \<open>struct_members hi hc\<close> decodes the members of an object into a struct that has a field
  \<^verbatim>\<open>IDs\<close> if \<open>hi\<close> and a field \<^verbatim>\<open>Collection\<close> if \<open>hc\<close>. An error of
  the \<^verbatim>\<open>UnmarshalJSON\<close> method of \<^verbatim>\<open>Fields\<close> ends the decoding at once.
  In \<open>fields_members\<close> a member is skipped when a later one has the same name, since the
  later one overwrites it in the Go map.
\<close>

function (sequential) unmarshalField :: "json \<Rightarrow> goerror + fieldDescription option"
and relationField_UnmarshalJSON :: "bool \<Rightarrow> (string \<times> string \<times> json) list \<Rightarrow> goerror + string \<times> fieldsMap"
and templateField_UnmarshalJSON :: "(string \<times> string \<times> json) list \<Rightarrow> goerror + fieldDescription option"
and struct_members :: "bool \<Rightarrow> bool \<Rightarrow> (string \<times> string \<times> json) list \<Rightarrow> struct_state \<Rightarrow> goerror + struct_state"
and fieldsMap_UnmarshalJSON :: "json \<Rightarrow> goerror + fieldsMap"
and fields_members :: "(string \<times> string \<times> json) list \<Rightarrow> goerror + fieldsMap"
where
  "unmarshalField JNull = Inr None"
| "unmarshalField (JObj ms) =
     (case type_member ms None [] of
        (Some e, _) \<Rightarrow> Inl (EType e)
      | (None, t) \<Rightarrow>
          (case field_type t of
             ftRelation \<Rightarrow>
               map_sum id (\<lambda>(c, f). Some (relationField c f)) (relationField_UnmarshalJSON True ms)
           | ftRelationList \<Rightarrow>
               map_sum id (\<lambda>(c, f). Some (relationListField c f)) (relationField_UnmarshalJSON True ms)
           | ftGenericRelation \<Rightarrow>
               map_sum id (\<lambda>(c, f). Some (genericRelationField f)) (relationField_UnmarshalJSON False ms)
           | ftGenericRelationList \<Rightarrow>
               map_sum id (\<lambda>(c, f). Some (genericRelationListField f)) (relationField_UnmarshalJSON False ms)
           | ftTemplate \<Rightarrow>
               map_sum id (\<lambda>d. Some (templateField d)) (templateField_UnmarshalJSON ms)
           | ftNone \<Rightarrow> Inl (invalid ''no type'')
           | ftUnknown \<Rightarrow> Inl (invalid (''unknown type '' @ t))))"
| "unmarshalField v = Inl (EType (type_err v TStruct))"
| "relationField_UnmarshalJSON hc ms =
     (case struct_members False hc ms struct_init of
        Inl e \<Rightarrow> Inl e
      | Inr st \<Rightarrow>
          (case st_saved st of
             Some e \<Rightarrow> Inl (EType e)
           | None \<Rightarrow>
               if hc \<and> st_coll st = [] then Inl (invalid ''no collection'')
               else (case st_fields st of
                       None \<Rightarrow> Inl (invalid ''no fields'')
                     | Some f \<Rightarrow> Inr (st_coll st, f))))"
| "templateField_UnmarshalJSON ms =
     (case values_member ms of
        None \<Rightarrow> Inr None
      | Some v \<Rightarrow>
          (case unmarshalField v of
             Inl e \<Rightarrow> Inl (template_error e)
           | Inr d \<Rightarrow> Inr d))"
| "struct_members hi hc [] st = Inr st"
| "struct_members hi hc ((n, _, v) # ms) st =
     (if hi \<and> name_matches ''ids'' n then struct_members hi hc ms (set_ids v st)
      else if hc \<and> name_matches ''collection'' n then struct_members hi hc ms (set_coll v st)
      else if name_matches ''fields'' n then
        (case fieldsMap_UnmarshalJSON v of
           Inl e \<Rightarrow> Inl (add_context ''fields'' e)
         | Inr f \<Rightarrow> struct_members hi hc ms (st\<lparr>st_fields := Some f\<rparr>))
      else struct_members hi hc ms st)"
| "fieldsMap_UnmarshalJSON JNull = Inr []"
| "fieldsMap_UnmarshalJSON (JObj ms) = fields_members ms"
| "fieldsMap_UnmarshalJSON v = Inl (EWrap ''decode fields: '' (EType (type_err v TMap)))"
| "fields_members [] = Inr []"
| "fields_members ((n, _, v) # ms) =
     (if n \<in> fst ` set ms then fields_members ms
      else case unmarshalField v of
             Inl e \<Rightarrow> Inl (field_error n e)
           | Inr d \<Rightarrow> map_sum id (Cons (n, d)) (fields_members ms))"
  by pat_completeness auto
termination
  by (relation "measure (\<lambda>x. case x of
        Inl (Inl v) \<Rightarrow> 3 * size v
      | Inl (Inr (Inl (_, ms))) \<Rightarrow> 3 * members_size ms + 2
      | Inl (Inr (Inr ms)) \<Rightarrow> 3 * members_size ms + 1
      | Inr (Inl (_, _, ms, _)) \<Rightarrow> 3 * members_size ms + 1
      | Inr (Inr (Inl v)) \<Rightarrow> 3 * size v
      | Inr (Inr (Inr ms)) \<Rightarrow> 3 * members_size ms + 1)")
     (auto dest: values_member_size)


section \<open>Request bodies\<close>

definition body_UnmarshalJSON :: "json \<Rightarrow> goerror + body" where
  "body_UnmarshalJSON v =
     (case (case v of
              JObj ms \<Rightarrow> struct_members True True ms struct_init
            | JNull \<Rightarrow> Inr struct_init
            | _ \<Rightarrow> Inl (EType (type_err v TStruct))) of
        Inl e \<Rightarrow> Inl e
      | Inr st \<Rightarrow>
          (case st_saved st of
             Some e \<Rightarrow> Inl (EType e)
           | None \<Rightarrow>
               if st_ids st = [] then Inl (invalid ''no ids'')
               else if st_coll st = [] then Inl (invalid ''no collection'')
               else (case st_fields st of
                       None \<Rightarrow> Inl (invalid ''no fields'')
                     | Some f \<Rightarrow> Inr \<lparr>ids = st_ids st, collection = st_coll st, body_fields = f\<rparr>)))"

text \<open>Decoding into \<^verbatim>\<open>[]body\<close>: the first element that fails ends it.\<close>

fun bodies_elems :: "json list \<Rightarrow> goerror + body list" where
  "bodies_elems [] = Inr []"
| "bodies_elems (v # vs) =
     (case body_UnmarshalJSON v of
        Inl e \<Rightarrow> Inl e
      | Inr b \<Rightarrow> map_sum id (Cons b) (bodies_elems vs))"

definition bodies_UnmarshalJSON :: "json \<Rightarrow> goerror + body list" where
  "bodies_UnmarshalJSON v =
     (case v of
        JNull \<Rightarrow> Inr []
      | JArr vs \<Rightarrow> bodies_elems vs
      | _ \<Rightarrow> Inl (EType (type_err v (TSlice TStruct))))"

text \<open>The decoding halves of \<^verbatim>\<open>FromJSON\<close> and \<^verbatim>\<open>ManyFromJSON\<close>.\<close>

definition FromJSON_decode :: "string \<Rightarrow> goerror + body" where
  "FromJSON_decode r =
     (case (case decoder_decode r of Inl e \<Rightarrow> Inl (decoder_error e) | Inr v \<Rightarrow> body_UnmarshalJSON v) of
        Inl EEOF \<Rightarrow> Inl (invalid ''No data'')
      | Inl (EInvalid sub) \<Rightarrow> Inl (EInvalid sub)
      | Inl e \<Rightarrow> Inl (EJSON e)
      | Inr b \<Rightarrow> Inr b)"

definition expect_type :: "gotype \<Rightarrow> string" where
  "expect_type t =
     (case t of TStruct \<Rightarrow> ''object'' | TSlice _ \<Rightarrow> ''list'' | TInt \<Rightarrow> ''number''
      | TString \<Rightarrow> ''string'' | TMap \<Rightarrow> ''map'')"

definition wrong_type_msg :: "type_error \<Rightarrow> string" where
  "wrong_type_msg e =
     ''wrong type at field `'' @ te_field e @ ''`. Got '' @ te_value e @ '', expected '' @ expect_type (te_type e)"

definition ManyFromJSON_decode :: "string \<Rightarrow> goerror + body list" where
  "ManyFromJSON_decode r =
     (case (case decoder_decode r of Inl e \<Rightarrow> Inl (decoder_error e) | Inr v \<Rightarrow> bodies_UnmarshalJSON v) of
        Inl EEOF \<Rightarrow> Inl (invalid ''No data'')
      | Inl (EInvalid sub) \<Rightarrow> Inl (EInvalid sub)
      | Inl ESyntax \<Rightarrow> Inl (EJSON ESyntax)
      | Inl (EType e) \<Rightarrow> Inl (invalid (wrong_type_msg e))
      | Inl e \<Rightarrow> Inl (EWrap ''decode keysrequest: '' e)
      | Inr bs \<Rightarrow> if bs = [] then Inl (invalid ''No data'') else Inr bs)"

section \<open>Well-formed requests\<close>

function (sequential) wf_description :: "fieldDescription \<Rightarrow> bool"
and wf_option :: "fieldDescription option \<Rightarrow> bool"
and wf_fields :: "fieldsMap \<Rightarrow> bool"
where
  "wf_description (relationField c f) \<longleftrightarrow> c \<noteq> [] \<and> wf_fields f"
| "wf_description (relationListField c f) \<longleftrightarrow> c \<noteq> [] \<and> wf_fields f"
| "wf_description (genericRelationField f) \<longleftrightarrow> wf_fields f"
| "wf_description (genericRelationListField f) \<longleftrightarrow> wf_fields f"
| "wf_description (templateField d) \<longleftrightarrow> wf_option d"
| "wf_option None \<longleftrightarrow> True"
| "wf_option (Some d) \<longleftrightarrow> wf_description d"
| "wf_fields [] \<longleftrightarrow> True"
| "wf_fields ((n, d) # f) \<longleftrightarrow> n \<notin> fst ` set f \<and> wf_option d \<and> wf_fields f"
  by pat_completeness auto
termination
  by (relation "measure (\<lambda>x. case x of
        Inl d \<Rightarrow> size d
      | Inr (Inl d) \<Rightarrow> size_option size d
      | Inr (Inr f) \<Rightarrow> size_list (size_prod (\<lambda>_. 0) (size_option size)) f)")
     simp_all

definition wf_body :: "body \<Rightarrow> bool" where
  "wf_body b \<longleftrightarrow> ids b \<noteq> [] \<and> collection b \<noteq> [] \<and> wf_fields (body_fields b)"

lemma set_coll_fields [simp]: "st_fields (set_coll v st) = st_fields st"
  by (simp add: set_coll_def split: sum.split)

lemma set_ids_fields [simp]: "st_fields (set_ids v st) = st_fields st"
  by (simp add: set_ids_def split: sum.split)

lemma fields_members_keys: "fields_members ms = Inr f \<Longrightarrow> fst ` set f = fst ` set ms"
proof (induction ms arbitrary: f)
  case Nil
  then show ?case by simp
next
  case (Cons m ms)
  obtain n t v where m: "m = (n, t, v)" by (cases m)
  show ?case
  proof (cases "n \<in> fst ` set ms")
    case True
    then have "fst ` set f = fst ` set ms"
      using Cons by (simp add: m)
    then show ?thesis
      using True by (auto simp: m)
  next
    case False
    obtain d f' where f': "fields_members ms = Inr f'" "f = (n, d) # f'"
      using Cons.prems False by (auto simp: m split: sum.splits)
    then show ?thesis
      using Cons.IH [OF f'(1)] by (simp add: m)
  qed
qed

lemma decode_wf:
  "unmarshalField v = Inr d \<Longrightarrow> wf_option d"
  "relationField_UnmarshalJSON hc ms = Inr (c, f) \<Longrightarrow> (hc \<longrightarrow> c \<noteq> []) \<and> wf_fields f"
  "templateField_UnmarshalJSON ms = Inr d \<Longrightarrow> wf_option d"
  "struct_members hi hc ms st = Inr st' \<Longrightarrow> pred_option wf_fields (st_fields st) \<Longrightarrow> pred_option wf_fields (st_fields st')"
  "fieldsMap_UnmarshalJSON v = Inr f \<Longrightarrow> wf_fields f"
  "fields_members ms = Inr f \<Longrightarrow> wf_fields f"
proof (induction v and hc ms and ms and hi hc ms st and v and ms
    arbitrary: d and c f and d and st' and f and f
    rule: unmarshalField_relationField_UnmarshalJSON_templateField_UnmarshalJSON_struct_members_fieldsMap_UnmarshalJSON_fields_members.induct)
  case (2 ms)
  then show ?case
    by (auto split: prod.splits option.splits field_type.splits)
next
  case (4 hc ms)
  have "pred_option wf_fields (st_fields struct_init)" by (simp add: struct_init_def)
  with 4 show ?case
    by (auto split: sum.splits option.splits if_splits)
next
  case (5 ms)
  then show ?case
    by (auto split: option.splits sum.splits)
next
  case (7 hi hc n t v ms st)
  then show ?case
    by (auto split: if_splits sum.splits)
next
  case (12 n t v ms)
  then show ?case
    by (auto split: if_splits sum.splits) (metis fields_members_keys fst_conv imageI)
qed (auto)

lemma body_UnmarshalJSON_wf:
  assumes "body_UnmarshalJSON v = Inr b"
  shows "wf_body b"
proof -
  have init: "pred_option wf_fields (st_fields struct_init)" by (simp add: struct_init_def)
  obtain st where st: "(case v of JObj ms \<Rightarrow> struct_members True True ms struct_init
      | JNull \<Rightarrow> Inr struct_init | _ \<Rightarrow> Inl (EType (type_err v TStruct))) = Inr st"
    using assms by (auto simp: body_UnmarshalJSON_def split: sum.splits)
  have "pred_option wf_fields (st_fields st)"
    using st init decode_wf(4) by (auto split: json.splits)
  then show ?thesis
    using assms st by (auto simp: body_UnmarshalJSON_def wf_body_def split: option.splits if_splits)
qed

lemma bodies_elems_wf: "bodies_elems vs = Inr bs \<Longrightarrow> list_all wf_body bs \<and> length bs = length vs"
  by (induction vs arbitrary: bs) (auto split: sum.splits dest: body_UnmarshalJSON_wf)


lemma name_matches_refl [simp]: "name_matches x x"
  by (simp add: name_matches_def)

lemma name_matches_struct [simp]:
  "\<not> name_matches ''ids'' ''type''" "\<not> name_matches ''ids'' ''collection''" "\<not> name_matches ''ids'' ''fields''"
  "\<not> name_matches ''collection'' ''type''" "\<not> name_matches ''collection'' ''fields''"
  "\<not> name_matches ''collection'' ''ids''"
  "\<not> name_matches ''fields'' ''type''" "\<not> name_matches ''fields'' ''collection''" "\<not> name_matches ''fields'' ''ids''"
  "\<not> name_matches ''type'' ''collection''" "\<not> name_matches ''type'' ''fields''" "\<not> name_matches ''type'' ''values''"
  "\<not> name_matches ''values'' ''type''"
  by code_simp+

section \<open>Requests as JSON text\<close>

text \<open>The documented JSON form of a request.\<close>

definition member :: "string \<Rightarrow> json \<Rightarrow> string \<times> string \<times> json" where
  "member n v = (n, render v, v)"

function (sequential) description_json :: "fieldDescription \<Rightarrow> json"
and option_json :: "fieldDescription option \<Rightarrow> json"
and fields_json :: "fieldsMap \<Rightarrow> (string \<times> string \<times> json) list"
where
  "description_json (relationField c f) =
     JObj [member ''type'' (JStr ''relation''), member ''collection'' (JStr c), member ''fields'' (JObj (fields_json f))]"
| "description_json (relationListField c f) =
     JObj [member ''type'' (JStr ''relation-list''), member ''collection'' (JStr c), member ''fields'' (JObj (fields_json f))]"
| "description_json (genericRelationField f) =
     JObj [member ''type'' (JStr ''generic-relation''), member ''fields'' (JObj (fields_json f))]"
| "description_json (genericRelationListField f) =
     JObj [member ''type'' (JStr ''generic-relation-list''), member ''fields'' (JObj (fields_json f))]"
| "description_json (templateField d) =
     JObj [member ''type'' (JStr ''template''), member ''values'' (option_json d)]"
| "option_json None = JNull"
| "option_json (Some d) = description_json d"
| "fields_json [] = []"
| "fields_json ((n, d) # f) = member n (option_json d) # fields_json f"
  by pat_completeness auto
termination
  by (relation "measure (\<lambda>x. case x of
        Inl d \<Rightarrow> size d
      | Inr (Inl d) \<Rightarrow> size_option size d
      | Inr (Inr f) \<Rightarrow> size_list (size_prod (\<lambda>_. 0) (size_option size)) f)")
     simp_all

definition body_json :: "body \<Rightarrow> json" where
  "body_json b =
     JObj [member ''ids'' (JArr (map (\<lambda>i. JNum (Itoa i)) (ids b))),
           member ''collection'' (JStr (collection b)),
           member ''fields'' (JObj (fields_json (body_fields b)))]"

lemma fields_json_names: "fst ` set (fields_json f) = fst ` set f"
proof (induction f)
  case (Cons nd f)
  then show ?case by (cases nd) (simp add: member_def)
qed simp

lemma field_type_names [simp]:
  "field_type ''relation'' = ftRelation" "field_type ''relation-list'' = ftRelationList"
  "field_type ''generic-relation'' = ftGenericRelation"
  "field_type ''generic-relation-list'' = ftGenericRelationList" "field_type ''template'' = ftTemplate"
  by (simp_all add: field_type_def)

lemma unmarshalField_description_json:
  "wf_description d \<Longrightarrow> unmarshalField (description_json d) = Inr (Some d)"
  "wf_option o' \<Longrightarrow> unmarshalField (option_json o') = Inr o'"
  "wf_fields f \<Longrightarrow> fields_members (fields_json f) = Inr f"
  by (induction d and o' and f rule: description_json_option_json_fields_json.induct)
     (simp_all add: member_def decode_string_def set_coll_def struct_init_def fields_json_names)

lemma body_UnmarshalJSON_body_json:
  assumes "wf_body b" and "list_all int64_range (ids b)"
  shows "body_UnmarshalJSON (body_json b) = Inr b"
proof -
  have "first_error (map (\<lambda>i. decode_int (JNum (Itoa i))) (ids b)) = Inr (ids b)"
    using first_error_map_Inr [of "ids b" "\<lambda>i. decode_int (JNum (Itoa i))" id] assms(2)
    by (simp add: decode_int_def list_all_iff)
  then show ?thesis
    using assms(1) unmarshalField_description_json(3) [of "body_fields b"]
    by (simp add: body_UnmarshalJSON_def body_json_def member_def set_ids_def set_coll_def struct_init_def
        decode_slice_def decode_string_def wf_body_def o_def)
qed

text \<open>Requests whose names are ASCII have a canonical JSON text.\<close>

function (sequential) ascii_description :: "fieldDescription \<Rightarrow> bool"
and ascii_option :: "fieldDescription option \<Rightarrow> bool"
and ascii_fields :: "fieldsMap \<Rightarrow> bool"
where
  "ascii_description (relationField c f) \<longleftrightarrow> list_all is_ascii c \<and> ascii_fields f"
| "ascii_description (relationListField c f) \<longleftrightarrow> list_all is_ascii c \<and> ascii_fields f"
| "ascii_description (genericRelationField f) \<longleftrightarrow> ascii_fields f"
| "ascii_description (genericRelationListField f) \<longleftrightarrow> ascii_fields f"
| "ascii_description (templateField d) \<longleftrightarrow> ascii_option d"
| "ascii_option None \<longleftrightarrow> True"
| "ascii_option (Some d) \<longleftrightarrow> ascii_description d"
| "ascii_fields [] \<longleftrightarrow> True"
| "ascii_fields ((n, d) # f) \<longleftrightarrow> list_all is_ascii n \<and> ascii_option d \<and> ascii_fields f"
  by pat_completeness auto
termination
  by (relation "measure (\<lambda>x. case x of
        Inl d \<Rightarrow> size d
      | Inr (Inl d) \<Rightarrow> size_option size d
      | Inr (Inr f) \<Rightarrow> size_list (size_prod (\<lambda>_. 0) (size_option size)) f)")
     simp_all

definition ascii_body :: "body \<Rightarrow> bool" where
  "ascii_body b \<longleftrightarrow>
     list_all int64_range (ids b) \<and> list_all is_ascii (collection b) \<and> ascii_fields (body_fields b)"

lemma canonical_empty: "canonical (JObj [])"
  by simp

lemma canonical_members:
  "list_all is_ascii n \<Longrightarrow> canonical v \<Longrightarrow> canonical (JObj ms) \<Longrightarrow> canonical (JObj (member n v # ms))"
  by (simp add: member_def)

lemma canonical_description_json:
  "ascii_description d \<Longrightarrow> canonical (description_json d)"
  "ascii_option o' \<Longrightarrow> canonical (option_json o')"
  "ascii_fields f \<Longrightarrow> canonical (JObj (fields_json f))"
  by (induction d and o' and f rule: description_json_option_json_fields_json.induct)
     (simp_all add: canonical_empty canonical_members is_ascii_def in_range_def del: canonical.simps(6))

lemma canonical_body_json: "ascii_body b \<Longrightarrow> canonical (body_json b)"
  unfolding ascii_body_def body_json_def
  by (intro canonical_members canonical_empty)
     (simp_all add: canonical_description_json(3) list_all_iff is_ascii_def in_range_def del: canonical.simps(6))

theorem FromJSON_decode_round_trip:
  assumes "wf_body b" and "ascii_body b"
  shows "FromJSON_decode (render (body_json b)) = Inr b"
  using assms
  by (simp add: FromJSON_decode_def decoder_decode_render canonical_body_json body_UnmarshalJSON_body_json
      ascii_body_def)

lemma bodies_elems_body_json:
  "list_all (\<lambda>b. wf_body b \<and> ascii_body b) bs \<Longrightarrow> bodies_elems (map body_json bs) = Inr bs"
  by (induction bs) (simp_all add: body_UnmarshalJSON_body_json ascii_body_def)

lemma ManyFromJSON_decode_round_trip:
  assumes "bs \<noteq> []" and "list_all (\<lambda>b. wf_body b \<and> ascii_body b) bs"
  shows "ManyFromJSON_decode (render (JArr (map body_json bs))) = Inr bs"
proof -
  have "canonical (JArr (map body_json bs))"
    using assms(2) by (auto simp: list_all_iff canonical_body_json)
  then show ?thesis
    using assms by (simp add: ManyFromJSON_decode_def decoder_decode_render bodies_UnmarshalJSON_def
        bodies_elems_body_json del: render.simps)
qed

text \<open>
  C26. Round trip of requests: the JSON text of a well-formed request, of any depth and with any
  names in ASCII, is decoded to this request, as a single body and as a list.
\<close>

theorem request_round_trip:
  assumes "bs \<noteq> []" and "list_all (\<lambda>b. wf_body b \<and> ascii_body b) bs"
  shows "ManyFromJSON_decode (render (JArr (map body_json bs))) = Inr bs \<and>
    FromJSON_decode (render (body_json (hd bs))) = Inr (hd bs)"
  using ManyFromJSON_decode_round_trip [OF assms] FromJSON_decode_round_trip [of "hd bs"] assms
  by (cases bs) simp_all

definition example_request :: body where
  "example_request = \<lparr>ids = [1, 5], collection = ''user'',
     body_fields = [(''name'', None), (''group_ids'', Some (relationListField ''group'' [(''name'', None)]))]\<rparr>"

lemma example_request_ok: "wf_body example_request" "ascii_body example_request"
  by (simp_all add: example_request_def wf_body_def ascii_body_def int64_range_def is_ascii_def in_range_def)

theorem request_round_trip_witness:
  "ManyFromJSON_decode (render (JArr (map body_json [example_request]))) = Inr [example_request] \<and>
    FromJSON_decode (render (body_json (hd [example_request]))) = Inr (hd [example_request])"
  by (rule request_round_trip) (simp_all add: example_request_ok)


end
