(* ===== verification/Keysbuilder.thy ===== *)
theory Keysbuilder
  imports Keys_Request
begin

text \<open>
  The keys builder of \<^verbatim>\<open>internal/keysbuilder\<close>: the \<^verbatim>\<open>keys\<close> methods of
  \<^verbatim>\<open>fields.go\<close>, the \<^verbatim>\<open>Builder\<close> with its \<^verbatim>\<open>Update\<close> loop
  (\<^verbatim>\<open>keysbuilder.go\<close>), \<^verbatim>\<open>FromJSON\<close> and \<^verbatim>\<open>ManyFromJSON\<close>
  (\<^verbatim>\<open>json.go\<close>) and the \<^verbatim>\<open>Simple\<close> builder (\<^verbatim>\<open>simple.go\<close>).

  The data provider is an interface of the code and a parameter \<open>rd\<close> here: it takes the
  user id, the keys and a state, and returns a result and the next state. The order in which
  each \<^verbatim>\<open>range\<close> of the loop visits its map is a parameter \<open>ord\<close>.
\<close>

section \<open>Keys\<close>

definition keySep :: string where
  "keySep = ''/''"

definition buildGenericKey :: "string \<Rightarrow> string \<Rightarrow> string" where
  "buildGenericKey collectionID field = collectionID @ keySep @ field"

definition buildCollectionID :: "string \<Rightarrow> int \<Rightarrow> string" where
  "buildCollectionID coll i = coll @ keySep @ Itoa i"

text \<open>\<^verbatim>\<open>process\<close>: the keys of a round with their descriptions.\<close>

type_synonym process = "(string, fieldDescription option) gomap"

definition fieldsMap_keys :: "fieldsMap \<Rightarrow> string \<Rightarrow> process \<Rightarrow> process" where
  "fieldsMap_keys f cid data =
     fold (\<lambda>(field, description). mput (buildGenericKey cid field) description) f data"

definition body_keys :: "body \<Rightarrow> process \<Rightarrow> process" where
  "body_keys b data =
     fold (\<lambda>i. fieldsMap_keys (body_fields b) (buildCollectionID (collection b) i)) (ids b) data"

definition decode_value :: "(json \<Rightarrow> type_error + 'a) \<Rightarrow> string \<Rightarrow> raw \<Rightarrow> goerror + 'a" where
  "decode_value dec key value =
     (case unmarshal dec (raw_bytes value) of
        Inl e \<Rightarrow> Inl (EWrap (''decoding value for key '' @ key @ '': '') (unmarshal_goerror e))
      | Inr x \<Rightarrow> Inr x)"

definition relationField_keys :: "string \<Rightarrow> fieldsMap \<Rightarrow> string \<Rightarrow> raw \<Rightarrow> process \<Rightarrow> goerror + process" where
  "relationField_keys coll f key value data =
     (case decode_value decode_int key value of
        Inl e \<Rightarrow> Inl e
      | Inr i \<Rightarrow> Inr (fieldsMap_keys f (buildCollectionID coll i) data))"

definition relationListField_keys :: "string \<Rightarrow> fieldsMap \<Rightarrow> string \<Rightarrow> raw \<Rightarrow> process \<Rightarrow> goerror + process" where
  "relationListField_keys coll f key value data =
     (case decode_value decode_ints key value of
        Inl e \<Rightarrow> Inl e
      | Inr nums \<Rightarrow>
          Inr (fold (\<lambda>i data.
                 fold (\<lambda>(field, description). mput (buildGenericKey (buildCollectionID coll i) field) description)
                   f data) nums data))"

definition genericRelationField_keys :: "fieldsMap \<Rightarrow> string \<Rightarrow> raw \<Rightarrow> process \<Rightarrow> goerror + process" where
  "genericRelationField_keys f key value data =
     (case decode_value decode_string key value of
        Inl e \<Rightarrow> Inl e
      | Inr cid \<Rightarrow> Inr (fieldsMap_keys f cid data))"

definition genericRelationListField_keys :: "fieldsMap \<Rightarrow> string \<Rightarrow> raw \<Rightarrow> process \<Rightarrow> goerror + process" where
  "genericRelationListField_keys f key value data =
     (case decode_value decode_strings key value of
        Inl e \<Rightarrow> Inl e
      | Inr cids \<Rightarrow> Inr (fold (fieldsMap_keys f) cids data))"

definition templateField_keys :: "fieldDescription option \<Rightarrow> string \<Rightarrow> raw \<Rightarrow> process \<Rightarrow> goerror + process" where
  "templateField_keys values key value data =
     (case decode_value decode_strings key value of
        Inl e \<Rightarrow> Inl e
      | Inr vs \<Rightarrow> Inr (fold (\<lambda>v. mput (replace_first CHR ''$'' v key) values) vs data))"

text \<open>The interface method \<^verbatim>\<open>fieldDescription.keys\<close>.\<close>

fun description_keys :: "fieldDescription \<Rightarrow> string \<Rightarrow> raw \<Rightarrow> process \<Rightarrow> goerror + process" where
  "description_keys (relationField c f) key value data = relationField_keys c f key value data"
| "description_keys (relationListField c f) key value data = relationListField_keys c f key value data"
| "description_keys (genericRelationField f) key value data = genericRelationField_keys f key value data"
| "description_keys (genericRelationListField f) key value data = genericRelationListField_keys f key value data"
| "description_keys (templateField d) key value data = templateField_keys d key value data"

section \<open>Depth of a description\<close>

function (sequential) description_depth :: "fieldDescription \<Rightarrow> nat"
and option_depth :: "fieldDescription option \<Rightarrow> nat"
and fields_depth :: "fieldsMap \<Rightarrow> nat"
where
  "description_depth (relationField c f) = Suc (fields_depth f)"
| "description_depth (relationListField c f) = Suc (fields_depth f)"
| "description_depth (genericRelationField f) = Suc (fields_depth f)"
| "description_depth (genericRelationListField f) = Suc (fields_depth f)"
| "description_depth (templateField d) = Suc (option_depth d)"
| "option_depth None = 0"
| "option_depth (Some d) = description_depth d"
| "fields_depth [] = 0"
| "fields_depth ((n, d) # f) = max (option_depth d) (fields_depth f)"
  by pat_completeness auto
termination
  by (relation "measure (\<lambda>x. case x of
        Inl d \<Rightarrow> size d
      | Inr (Inl d) \<Rightarrow> size_option size d
      | Inr (Inr f) \<Rightarrow> size_list (size_prod (\<lambda>_. 0) (size_option size)) f)")
     simp_all

text \<open>The descriptions directly below a description.\<close>

fun children :: "fieldDescription \<Rightarrow> fieldDescription option set" where
  "children (relationField c f) = snd ` set f"
| "children (relationListField c f) = snd ` set f"
| "children (genericRelationField f) = snd ` set f"
| "children (genericRelationListField f) = snd ` set f"
| "children (templateField d) = {d}"

lemma fields_depth_ge: "d \<in> snd ` set f \<Longrightarrow> option_depth d \<le> fields_depth f"
proof (induction f)
  case (Cons nd f)
  then show ?case by (cases nd) (force simp: le_max_iff_disj)
qed simp

lemma fields_depth_le: "(\<And>d. d \<in> snd ` set f \<Longrightarrow> option_depth d \<le> n) \<Longrightarrow> fields_depth f \<le> n"
proof (induction f)
  case (Cons nd f)
  then show ?case by (cases nd) auto
qed simp

lemma children_depth: "d' \<in> children d \<Longrightarrow> option_depth d' < description_depth d"
  by (cases d) (auto simp: less_Suc_eq_le intro!: fields_depth_ge)

section \<open>The targets of a description\<close>

text \<open>
  What a \<^verbatim>\<open>keys\<close> method adds does not depend on the map it adds to: it is the list of
  the described keys, written one after the other.
\<close>

definition field_targets :: "fieldsMap \<Rightarrow> string \<Rightarrow> process" where
  "field_targets f cid = map (\<lambda>(n, d). (buildGenericKey cid n, d)) f"

fun targets :: "fieldDescription \<Rightarrow> string \<Rightarrow> raw \<Rightarrow> goerror + process" where
  "targets (relationField c f) key value =
     map_sum id (\<lambda>i. field_targets f (buildCollectionID c i)) (decode_value decode_int key value)"
| "targets (relationListField c f) key value =
     map_sum id (\<lambda>nums. concat (map (\<lambda>i. field_targets f (buildCollectionID c i)) nums))
       (decode_value decode_ints key value)"
| "targets (genericRelationField f) key value =
     map_sum id (field_targets f) (decode_value decode_string key value)"
| "targets (genericRelationListField f) key value =
     map_sum id (\<lambda>cids. concat (map (field_targets f) cids)) (decode_value decode_strings key value)"
| "targets (templateField d) key value =
     map_sum id (map (\<lambda>v. (replace_first CHR ''$'' v key, d))) (decode_value decode_strings key value)"

lemma fieldsMap_keys_targets: "fieldsMap_keys f cid data = mput_all (field_targets f cid) data"
  unfolding fieldsMap_keys_def field_targets_def
proof (induction f arbitrary: data)
  case (Cons nd f)
  then show ?case by (cases nd) simp
qed simp

lemma fold_fieldsMap_keys:
  "fold (\<lambda>x. fieldsMap_keys f (g x)) xs data = mput_all (concat (map (\<lambda>x. field_targets f (g x)) xs)) data"
  by (induction xs arbitrary: data) (simp_all add: fieldsMap_keys_targets mput_all_append)

lemma fold_template:
  "fold (\<lambda>v. mput (g v) d) vs data = mput_all (map (\<lambda>v. (g v, d)) vs) data"
  by (induction vs arbitrary: data) simp_all

lemma relationListField_keys_alt:
  "relationListField_keys coll f key value data =
     (case decode_value decode_ints key value of
        Inl e \<Rightarrow> Inl e
      | Inr nums \<Rightarrow> Inr (fold (\<lambda>i. fieldsMap_keys f (buildCollectionID coll i)) nums data))"
  unfolding relationListField_keys_def fieldsMap_keys_def by simp

lemma description_keys_targets:
  "description_keys d key value data = map_sum id (\<lambda>ts. mput_all ts data) (targets d key value)"
  by (cases d)
    (simp_all add: relationField_keys_def relationListField_keys_alt genericRelationField_keys_def
      genericRelationListField_keys_def templateField_keys_def fieldsMap_keys_targets
      fold_fieldsMap_keys fold_fieldsMap_keys [where g = "\<lambda>x. x"] fold_template split: sum.split)

lemma body_keys_targets:
  "body_keys b data =
     mput_all (concat (map (\<lambda>i. field_targets (body_fields b) (buildCollectionID (collection b) i)) (ids b))) data"
  by (simp add: body_keys_def fold_fieldsMap_keys)

lemma targets_children: "targets d key value = Inr ts \<Longrightarrow> (k, d') \<in> set ts \<Longrightarrow> d' \<in> children d"
  by (cases d) (auto simp: field_targets_def image_iff split_beta)

section \<open>The builder\<close>

record builder =
  builder_uid :: int
  builder_bodies :: "body list"
  builder_keys :: "string list"

text \<open>\<^verbatim>\<open>DataProvider.RestrictedData\<close>, on the states of the provider.\<close>

type_synonym data = "(string, raw) gomap"
type_synonym 'w provider = "int \<Rightarrow> string list \<Rightarrow> 'w \<Rightarrow> (goerror + data) \<times> 'w"

definition value_error :: "string \<Rightarrow> goerror \<Rightarrow> goerror" where
  "value_error key e =
     (case errors_As is_EType e of
        Some (EType t) \<Rightarrow> EValue key (te_value t) (te_type t) e
      | _ \<Rightarrow> e)"

text \<open>The inner loop of \<^verbatim>\<open>Update\<close>: the next round from the values of this one.\<close>

fun process_keys :: "process \<Rightarrow> data \<Rightarrow> process \<Rightarrow> goerror + process" where
  "process_keys [] data process = Inr process"
| "process_keys ((key, description) # processed) data process =
     (case mraw data key of
        None \<Rightarrow> process_keys processed data process
      | Some v \<Rightarrow>
          (case description of
             None \<Rightarrow> Inl (EPanic ''nil pointer dereference'')
           | Some d \<Rightarrow>
               (case description_keys d key (Some v) process of
                  Inl e \<Rightarrow> Inl (value_error key e)
                | Inr process' \<Rightarrow> process_keys processed data process')))"

definition described :: "process \<Rightarrow> process" where
  "described process = filter (\<lambda>(k, d). d \<noteq> None) process"

lemma process_keys_entries:
  assumes "process_keys processed data process = Inr process'" "(k', d') \<in> set process'"
  shows "(k', d') \<in> set process \<or>
    (\<exists>k d v ts. (k, Some d) \<in> set processed \<and> mraw data k = Some v \<and> targets d k (Some v) = Inr ts
       \<and> (k', d') \<in> set ts)"
  using assms
proof (induction processed data process rule: process_keys.induct)
  case (2 key description processed data process)
  show ?case
  proof (cases "mraw data key")
    case None
    with 2 show ?thesis by auto
  next
    case (Some v)
    with 2(3) obtain d where d: "description = Some d"
      by (auto split: option.splits)
    with 2(3) Some obtain ts where ts: "targets d key (Some v) = Inr ts"
      and rest: "process_keys processed data (mput_all ts process) = Inr process'"
      by (auto simp: description_keys_targets split: sum.splits)
    have "(k', d') \<in> set (mput_all ts process) \<or>
      (\<exists>k d v ts. (k, Some d) \<in> set processed \<and> mraw data k = Some v \<and> targets d k (Some v) = Inr ts
         \<and> (k', d') \<in> set ts)"
      using 2(2) [OF Some d _ rest 2(4)] ts by (simp add: description_keys_targets)
    with set_mput_all [of ts process] Some d ts show ?thesis
      by fastforce
  qed
qed simp

lemma process_keys_depth:
  assumes "process_keys (range_order ord processed) data [] = Inr process'"
    and "processed = described visit" "processed \<noteq> []"
  shows "fields_depth process' < fields_depth visit"
proof -
  have pos: "fields_depth visit > 0"
  proof -
    from assms(2,3) obtain k d where "(k, Some d) \<in> set visit"
      by (auto simp: described_def filter_empty_conv)
    then have "description_depth d \<le> fields_depth visit"
      using fields_depth_ge [of "Some d" visit] by force
    moreover have "0 < description_depth d"
      by (cases d) simp_all
    ultimately show ?thesis by simp
  qed
  have "option_depth d' \<le> fields_depth visit - 1" if "d' \<in> snd ` set process'" for d'
  proof -
    from that obtain k' where "(k', d') \<in> set process'" by auto
    from process_keys_entries [OF assms(1) this] obtain k d v ts
      where "(k, Some d) \<in> set visit" "targets d k (Some v) = Inr ts" "(k', d') \<in> set ts"
      by (auto simp: assms(2) described_def)
    then have "option_depth d' < description_depth d" "description_depth d \<le> fields_depth visit"
      using children_depth targets_children fields_depth_ge [of "Some d" visit] by force+
    then show ?thesis by simp
  qed
  then have "fields_depth process' \<le> fields_depth visit - 1"
    by (rule fields_depth_le)
  with pos show ?thesis by simp
qed

lemma process_keys_no_data: "process_keys processed [] process = Inr process"
  by (induction processed) (auto simp: mraw_def)

lemma fields_depth_range_order [simp]: "fields_depth (range_order ord m) = fields_depth m"
  by (rule antisym) (auto intro!: fields_depth_le fields_depth_ge)

function update_loop :: "'w provider \<Rightarrow> (process \<Rightarrow> process) \<Rightarrow> int \<Rightarrow> process \<Rightarrow> string list \<Rightarrow> 'w
    \<Rightarrow> (goerror + string list) \<times> 'w" where
  "update_loop rd ord uid process keys w =
     (let visit = range_order ord process;
          keys' = keys @ mkeys visit;
          processed = described visit
      in if processed = [] then (Inr keys', w)
         else
           (case rd uid (mkeys processed) w of
              (Inl e, w') \<Rightarrow> (Inl (EWrap ''load needed keys: '' e), w')
            | (Inr data, w') \<Rightarrow>
                (case process_keys (range_order ord processed) data [] of
                   Inl e \<Rightarrow> (Inl e, w')
                 | Inr process' \<Rightarrow> update_loop rd ord uid process' keys' w')))"
  by pat_completeness auto
termination
  by (relation "measure (\<lambda>(rd, ord, uid, process, keys, w). fields_depth process)")
    (auto dest: process_keys_depth)

declare update_loop.simps [simp del]

definition Builder_Update :: "'w provider \<Rightarrow> (process \<Rightarrow> process) \<Rightarrow> builder \<Rightarrow> 'w
    \<Rightarrow> (goerror option \<times> builder) \<times> 'w" where
  "Builder_Update rd ord b w =
     (case update_loop rd ord (builder_uid b) (fold body_keys (builder_bodies b) []) [] w of
        (Inl e, w') \<Rightarrow> ((Some e, b\<lparr>builder_keys := []\<rparr>), w')
      | (Inr ks, w') \<Rightarrow> ((None, b\<lparr>builder_keys := ks\<rparr>), w'))"

definition Builder_Keys :: "builder \<Rightarrow> string list" where
  "Builder_Keys b = builder_keys b"

definition newBuilder :: "'w provider \<Rightarrow> (process \<Rightarrow> process) \<Rightarrow> int \<Rightarrow> body list \<Rightarrow> 'w
    \<Rightarrow> (goerror + builder) \<times> 'w" where
  "newBuilder rd ord uid bodys w =
     (case Builder_Update rd ord \<lparr>builder_uid = uid, builder_bodies = bodys, builder_keys = []\<rparr> w of
        ((Some e, _), w') \<Rightarrow> (Inl (EWrap ''build keys for the first time: '' e), w')
      | ((None, b), w') \<Rightarrow> (Inr b, w'))"

definition FromJSON :: "'w provider \<Rightarrow> (process \<Rightarrow> process) \<Rightarrow> int \<Rightarrow> string \<Rightarrow> 'w
    \<Rightarrow> (goerror + builder) \<times> 'w" where
  "FromJSON rd ord uid r w =
     (case FromJSON_decode r of
        Inl e \<Rightarrow> (Inl e, w)
      | Inr b \<Rightarrow>
          (case newBuilder rd ord uid [b] w of
             (Inl e, w') \<Rightarrow> (Inl (EWrap ''build keys: '' e), w')
           | (Inr kb, w') \<Rightarrow> (Inr kb, w')))"

definition ManyFromJSON :: "'w provider \<Rightarrow> (process \<Rightarrow> process) \<Rightarrow> int \<Rightarrow> string \<Rightarrow> 'w
    \<Rightarrow> (goerror + builder) \<times> 'w" where
  "ManyFromJSON rd ord uid r w =
     (case ManyFromJSON_decode r of
        Inl e \<Rightarrow> (Inl e, w)
      | Inr bs \<Rightarrow>
          (case newBuilder rd ord uid bs w of
             (Inl e, w') \<Rightarrow> (Inl (EWrap ''build keys: '' e), w')
           | (Inr kb, w') \<Rightarrow> (Inr kb, w')))"

section \<open>Simple\<close>

record simple =
  K :: "string list"

definition Simple_Update :: "simple \<Rightarrow> goerror option" where
  "Simple_Update s = None"

definition Simple_Keys :: "simple \<Rightarrow> string list" where
  "Simple_Keys s = K s"

fun validate_keys :: "string list \<Rightarrow> goerror option" where
  "validate_keys [] = None"
| "validate_keys (key # ks) =
     (if length (split_n CHR ''/'' 3 key) \<noteq> 3 then Some (invalid ''Invalid keys'') else validate_keys ks)"

definition Simple_Validate :: "simple \<Rightarrow> goerror option" where
  "Simple_Validate s = validate_keys (K s)"

lemma validate_keys_ok_iff: "validate_keys ks = None \<longleftrightarrow> (\<forall>key \<in> set ks. 2 \<le> count_char CHR ''/'' key)"
  by (induction ks) (auto simp: numeral_3_eq_3 go_str)

lemma validate_keys_error: "validate_keys ks = Some e \<Longrightarrow> e = invalid ''Invalid keys''"
  by (induction ks) (auto split: if_splits)

text \<open>
  \<^verbatim>\<open>Simple.Validate\<close> accepts a list of keys exactly when every key has at least two
  slashes, that is, a collection, an id and a field; otherwise it returns the error
  \<^verbatim>\<open>Invalid keys\<close>.
\<close>

lemma Simple_Validate_ok_iff:
  "Simple_Validate s =
    (if \<forall>key \<in> set (K s). 2 \<le> count_char CHR ''/'' key then None else Some (invalid ''Invalid keys''))"
  using validate_keys_ok_iff [of "K s"] validate_keys_error [of "K s"]
  by (cases "validate_keys (K s)") (auto simp: Simple_Validate_def)

section \<open>Specification of Update\<close>

text \<open>
  \<open>reach look P k d\<close>: key \<open>k\<close> with description \<open>d\<close> is one of \<open>P\<close> or is
  described by a key of the closure whose value, in the snapshot \<open>look\<close> of the data, is not
  nil.
\<close>

inductive reach :: "(string \<Rightarrow> raw) \<Rightarrow> (string \<times> fieldDescription option) set \<Rightarrow> string
    \<Rightarrow> fieldDescription option \<Rightarrow> bool"
  for look P where
  base: "(k, d) \<in> P \<Longrightarrow> reach look P k d"
| step: "reach look P k (Some d) \<Longrightarrow> look k = Some v \<Longrightarrow> targets d k (Some v) = Inr ts
    \<Longrightarrow> (k', d') \<in> set ts \<Longrightarrow> reach look P k' d'"

definition bodies_targets :: "body list \<Rightarrow> process" where
  "bodies_targets bs = concat (map (\<lambda>b.
     concat (map (\<lambda>i. field_targets (body_fields b) (buildCollectionID (collection b) i)) (ids b))) bs)"

text \<open>One round: everything that the described keys of \<open>P\<close> refer to.\<close>

definition next_round :: "(string \<Rightarrow> raw) \<Rightarrow> (string \<times> fieldDescription option) set
    \<Rightarrow> (string \<times> fieldDescription option) set" where
  "next_round look P =
     {(k', d'). \<exists>k d v ts. (k, Some d) \<in> P \<and> look k = Some v \<and> targets d k (Some v) = Inr ts
        \<and> (k', d') \<in> set ts}"

lemma reach_key: "(k, d) \<in> P \<Longrightarrow> Ex (reach look P k)"
  by (blast intro: reach.base)

lemma reach_mono: "reach look P k d \<Longrightarrow> P \<subseteq> Q \<Longrightarrow> reach look Q k d"
  by (induction rule: reach.induct) (auto intro: reach.intros)

lemma next_roundI:
  "(k, Some d) \<in> P \<Longrightarrow> look k = Some v \<Longrightarrow> targets d k (Some v) = Inr ts \<Longrightarrow> (k', d') \<in> set ts
    \<Longrightarrow> (k', d') \<in> next_round look P"
  by (auto simp: next_round_def)

lemma reach_unfold: "reach look P k d \<Longrightarrow> (k, d) \<in> P \<or> reach look (next_round look P) k d"
proof (induction rule: reach.induct)
  case (step k d v ts k' d')
  then show ?case
    by (blast intro: reach.base reach.step next_roundI)
qed simp

lemma next_round_reach: "(k, d) \<in> next_round look P \<Longrightarrow> reach look P k d"
  by (auto simp: next_round_def intro: reach.intros)

lemma reach_next_round: "reach look (next_round look P) k d \<Longrightarrow> reach look P k d"
  by (induction rule: reach.induct) (auto intro: next_round_reach reach.step)

lemma reach_keys:
  "{k. \<exists>d. reach look P k d} = fst ` P \<union> {k. \<exists>d. reach look (next_round look P) k d}"
proof (intro equalityI subsetI)
  fix k assume "k \<in> {k. \<exists>d. reach look P k d}"
  then obtain d where "reach look P k d" by blast
  then show "k \<in> fst ` P \<union> {k. \<exists>d. reach look (next_round look P) k d}"
    by (rule reach_unfold [THEN disjE]) (force, blast)
next
  fix k assume "k \<in> fst ` P \<union> {k. \<exists>d. reach look (next_round look P) k d}"
  then show "k \<in> {k. \<exists>d. reach look P k d}"
    by (auto dest!: reach.base reach_next_round)
qed

text \<open>No key is reached with two descriptions.\<close>

definition no_conflict :: "(string \<Rightarrow> raw) \<Rightarrow> (string \<times> fieldDescription option) set \<Rightarrow> bool" where
  "no_conflict look P \<longleftrightarrow> (\<forall>k d d'. reach look P k d \<longrightarrow> reach look P k d' \<longrightarrow> d = d')"

text \<open>Every described value that is reached can be decoded.\<close>

definition well_typed :: "(string \<Rightarrow> raw) \<Rightarrow> (string \<times> fieldDescription option) set \<Rightarrow> bool" where
  "well_typed look P \<longleftrightarrow>
     (\<forall>k d v. reach look P k (Some d) \<longrightarrow> look k = Some v \<longrightarrow> (\<exists>ts. targets d k (Some v) = Inr ts))"

lemma well_typedD:
  "well_typed look P \<Longrightarrow> reach look P k (Some d) \<Longrightarrow> look k = Some v \<Longrightarrow> \<exists>ts. targets d k (Some v) = Inr ts"
  by (simp add: well_typed_def)

lemma no_conflict_next: "no_conflict look P \<Longrightarrow> no_conflict look (next_round look P)"
  by (auto simp: no_conflict_def dest: reach_next_round)

lemma well_typed_next: "well_typed look P \<Longrightarrow> well_typed look (next_round look P)"
  by (auto simp: well_typed_def dest: reach_next_round)

lemma fold_body_keys: "fold body_keys bs data = mput_all (bodies_targets bs) data"
  by (induction bs arbitrary: data)
    (simp_all add: bodies_targets_def body_keys_targets mput_all_append)

lemma process_keys_complete:
  assumes "\<forall>(k, d) \<in> set processed. \<exists>d'. d = Some d' \<and>
      (\<forall>v. mraw data k = Some v \<longrightarrow> (\<exists>ts. targets d' k (Some v) = Inr ts))"
    and "\<And>k d d'. (k, d) \<in> Q \<Longrightarrow> (k, d') \<in> Q \<Longrightarrow> d = d'"
    and "next_round (mraw data) (set processed) \<union> set process = Q"
  shows "\<exists>process'. process_keys processed data process = Inr process' \<and> set process' = Q"
  using assms
proof (induction processed data process arbitrary: rule: process_keys.induct)
  case (1 data process)
  then show ?case by (simp add: next_round_def)
next
  case (2 key description processed data process)
  show ?case
  proof (cases "mraw data key")
    case None
    then have "next_round (mraw data) (set ((key, description) # processed)) = next_round (mraw data) (set processed)"
      by (auto simp: next_round_def)
    with 2 None show ?thesis by simp
  next
    case (Some v)
    from 2(3) Some obtain d ts where d: "description = Some d" and ts: "targets d key (Some v) = Inr ts"
      by auto
    have Q: "Q = next_round (mraw data) (set processed) \<union> (set ts \<union> set process)"
      using 2(5) Some d ts by (auto simp: next_round_def)
    have "set (mput_all ts process) = set ts \<union> set process"
      by (rule set_mput_all_functional) (use 2(4) Q in blast)
    then show ?thesis
      using 2(2) [OF Some d, of "mput_all ts process"] 2(3,4) Q d Some ts
      by (simp add: description_keys_targets)
  qed
qed

lemma process_keys_error:
  assumes "process_keys processed data process = Inl e" "\<forall>(k, d) \<in> set processed. d \<noteq> None"
  shows "\<exists>k d v e'. (k, Some d) \<in> set processed \<and> mraw data k = Some v \<and> targets d k (Some v) = Inl e'
    \<and> e = value_error k e'"
  using assms
proof (induction processed data process rule: process_keys.induct)
  case (2 key description processed data process)
  then show ?case
    by (fastforce simp: description_keys_targets split: option.splits sum.splits)
qed simp

lemma set_described: "set (described p) = {(k, d). (k, d) \<in> set p \<and> d \<noteq> None}"
  by (auto simp: described_def)

lemma next_round_described:
  assumes "\<forall>k \<in> fst ` set (described p). look' k = look k"
  shows "next_round look' (set (described p)) = next_round look (set p)"
  using assms by (force simp: next_round_def set_described)

lemma reach_undescribed:
  assumes "described p = []" "reach look (set p) k d"
  shows "(k, d) \<in> set p"
  using assms(2,1) by (induction rule: reach.induct) (auto simp: described_def filter_empty_conv)

text \<open>
  The contract of a data provider during one \<^verbatim>\<open>Update\<close>: in every good state it
  answers for exactly the given keys, when they are valid, stays good, and the values it gives are those of one
  snapshot \<open>look\<close>.
\<close>

locale snapshot_provider =
  fixes rd :: "'w provider"
    and uid :: int
    and good :: "'w \<Rightarrow> bool"
    and valid :: "string \<Rightarrow> bool"
    and look :: "string \<Rightarrow> raw"
  assumes provides: "good w \<Longrightarrow> \<forall>k \<in> set ks. valid k \<Longrightarrow> \<exists>data w'. rd uid ks w = (Inr data, w') \<and> good w' \<and> wf_map data \<and>
    fst ` set data = set ks \<and> (\<forall>k \<in> set ks. mraw data k = look k)"
begin

lemma round_cases:
  assumes "good w" "described (range_order ord process) \<noteq> []" "\<forall>k d. reach look (set process) k d \<longrightarrow> valid k"
  obtains data w' where "good w'"
    and "\<And>keys. update_loop rd ord uid process keys w =
      (case process_keys (range_order ord (described (range_order ord process))) data [] of
         Inl e \<Rightarrow> (Inl e, w')
       | Inr process' \<Rightarrow> update_loop rd ord uid process' (keys @ mkeys (range_order ord process)) w')"
    and "\<forall>k \<in> fst ` set (described process). mraw data k = look k"
proof -
  have "\<forall>k \<in> set (mkeys (described (range_order ord process))). valid k"
    using assms(3) reach.base [of _ _ "set process" look] by (fastforce simp: set_described)
  from provides [OF assms(1) this] obtain data w'
    where "rd uid (mkeys (described (range_order ord process))) w = (Inr data, w')" "good w'"
      "\<forall>k \<in> set (mkeys (described (range_order ord process))). mraw data k = look k"
    by blast
  with assms(2) show thesis
    by (intro that [of w' data]) (auto simp: update_loop.simps [of rd ord uid process] Let_def set_described)
qed

theorem update_loop_complete:
  assumes "good w" "no_conflict look (set process)" "well_typed look (set process)"
    "\<forall>k d. reach look (set process) k d \<longrightarrow> valid k"
  shows "\<exists>ks w'. update_loop rd ord uid process keys w = (Inr (keys @ ks), w') \<and> good w' \<and>
    set ks = {k. \<exists>d. reach look (set process) k d}"
  using assms
proof (induction "fields_depth process" arbitrary: process keys w rule: less_induct)
  case less
  let ?visit = "range_order ord process"
  show ?case
  proof (cases "described ?visit = []")
    case True
    then have "update_loop rd ord uid process keys w = (Inr (keys @ mkeys ?visit), w)"
      by (simp add: update_loop.simps Let_def)
    moreover have "set (mkeys ?visit) = {k. \<exists>d. reach look (set process) k d}"
      using reach_undescribed [OF True] by (force intro: reach.base)
    ultimately show ?thesis using less.prems(1) by blast
  next
    case False
    obtain data w' where w': "good w'"
      and upd: "\<And>keys. update_loop rd ord uid process keys w =
        (case process_keys (range_order ord (described ?visit)) data [] of
           Inl e \<Rightarrow> (Inl e, w')
         | Inr process' \<Rightarrow> update_loop rd ord uid process' (keys @ mkeys ?visit) w')"
      and look: "\<forall>k \<in> fst ` set (described process). mraw data k = look k"
      by (rule round_cases [OF less.prems(1) False less.prems(4)]) blast
    have nr: "next_round (mraw data) (set (described ?visit)) = next_round look (set process)"
      using next_round_described [OF look] by (simp add: set_described)
    have "\<exists>process'. process_keys (range_order ord (described ?visit)) data [] = Inr process' \<and>
        set process' = next_round look (set process)"
    proof (rule process_keys_complete)
      show "\<forall>(k, d) \<in> set (range_order ord (described ?visit)). \<exists>d'. d = Some d' \<and>
          (\<forall>v. mraw data k = Some v \<longrightarrow> (\<exists>ts. targets d' k (Some v) = Inr ts))"
        using well_typedD [OF less.prems(3) reach.base] look by (fastforce simp: set_described)
      show "d = d'" if "(k, d) \<in> next_round look (set process)" "(k, d') \<in> next_round look (set process)"
        for k d d'
        using that [THEN next_round_reach] less.prems(2) unfolding no_conflict_def by blast
      show "next_round (mraw data) (set (range_order ord (described ?visit))) \<union> set [] =
          next_round look (set process)"
        using nr by simp
    qed
    then obtain process' where p': "process_keys (range_order ord (described ?visit)) data [] = Inr process'"
      "set process' = next_round look (set process)" by blast
    have "fields_depth process' < fields_depth process"
      using process_keys_depth [OF p'(1) refl False] by simp
    have "\<forall>k d. reach look (set process') k d \<longrightarrow> valid k"
      using less.prems(4) by (auto simp: p'(2) dest: reach_next_round)
    from less.hyps [OF \<open>fields_depth process' < _\<close> w', of "keys @ mkeys ?visit"] this less.prems(2,3) obtain ks w''
      where rest: "update_loop rd ord uid process' (keys @ mkeys ?visit) w' = (Inr ((keys @ mkeys ?visit) @ ks), w'')"
        "good w''" "set ks = {k. \<exists>d. reach look (next_round look (set process)) k d}"
      by (auto simp: p'(2) no_conflict_next well_typed_next)
    have "set (mkeys ?visit @ ks) = {k. \<exists>d. reach look (set process) k d}"
      by (simp add: rest(3) reach_keys [of look "set process"])
    then show ?thesis
      using rest(1,2) upd p'(1) by (intro exI [of _ "mkeys ?visit @ ks"] exI [of _ w'']) simp
  qed
qed

theorem update_loop_sound:
  assumes "good w" "update_loop rd ord uid process keys w = (r, w')"
    "\<forall>k d. reach look (set process) k d \<longrightarrow> valid k"
  shows "case r of
      Inr ks \<Rightarrow> set ks \<subseteq> set keys \<union> {k. \<exists>d. reach look (set process) k d}
    | Inl e \<Rightarrow> \<exists>k d v e'. reach look (set process) k (Some d) \<and> look k = Some v \<and>
        targets d k (Some v) = Inl e' \<and> e = value_error k e'"
  using assms
proof (induction "fields_depth process" arbitrary: process keys w rule: less_induct)
  case less
  let ?visit = "range_order ord process"
  show ?case
  proof (cases "described ?visit = []")
    case True
    then have "r = Inr (keys @ mkeys ?visit)"
      using less.prems(2) by (simp add: update_loop.simps [of rd ord uid process] Let_def)
    then show ?thesis
      using reach_keys [of look "set process"] by auto
  next
    case False
    obtain data w1 where w1: "good w1"
      and upd: "\<And>keys. update_loop rd ord uid process keys w =
        (case process_keys (range_order ord (described ?visit)) data [] of
           Inl e \<Rightarrow> (Inl e, w1)
         | Inr process' \<Rightarrow> update_loop rd ord uid process' (keys @ mkeys ?visit) w1)"
      and look: "\<forall>k \<in> fst ` set (described process). mraw data k = look k"
      by (rule round_cases [OF less.prems(1) False less.prems(3)]) blast
    show ?thesis
    proof (cases "process_keys (range_order ord (described ?visit)) data []")
      case (Inl e)
      from process_keys_error [OF Inl] obtain k d v e'
        where kd: "(k, Some d) \<in> set process" "mraw data k = Some v"
          and e': "targets d k (Some v) = Inl e'" "e = value_error k e'"
        by (auto simp: set_described)
      have "look k = Some v"
        using kd look by (force simp: set_described)
      moreover have "r = Inl e"
        using less.prems(2) upd Inl by simp
      ultimately show ?thesis
        using reach.base [OF kd(1), of look] e' by auto
    next
      case (Inr process')
      have sub: "set process' \<subseteq> next_round look (set process)"
      proof
        fix kd assume "kd \<in> set process'"
        with process_keys_entries [OF Inr, of "fst kd" "snd kd"]
        have "kd \<in> next_round (mraw data) (set (described process))"
          by (force simp: set_described next_round_def)
        then show "kd \<in> next_round look (set process)"
          using next_round_described [OF look] by simp
      qed
      have sub': "reach look (set process) k d" if "reach look (set process') k d" for k d
        using that sub by (blast intro: reach_next_round reach_mono)
      have depth: "fields_depth process' < fields_depth process"
        using process_keys_depth [OF Inr refl False] by simp
      have rest: "update_loop rd ord uid process' (keys @ mkeys ?visit) w1 = (r, w')"
        using less.prems(2) upd Inr by simp
      have "\<forall>k d. reach look (set process') k d \<longrightarrow> valid k"
        using sub' less.prems(3) by blast
      from less.hyps [OF depth w1 rest this] show ?thesis
        by (fastforce split: sum.splits intro: reach_key sub')
    qed
  qed
qed

lemma Builder_Update_complete:
  assumes "good w" "builder_uid b = uid"
    and "no_conflict look (set (bodies_targets (builder_bodies b)))"
    and "well_typed look (set (bodies_targets (builder_bodies b)))"
    and "\<forall>k d. reach look (set (bodies_targets (builder_bodies b))) k d \<longrightarrow> valid k"
  shows "\<exists>b' w'. Builder_Update rd ord b w = ((None, b'), w') \<and> good w' \<and>
    b' = b\<lparr>builder_keys := Builder_Keys b'\<rparr> \<and>
    set (Builder_Keys b') = {k. \<exists>d. reach look (set (bodies_targets (builder_bodies b))) k d}"
proof -
  let ?P = "mput_all (bodies_targets (builder_bodies b)) []"
  have "set ?P = set (bodies_targets (builder_bodies b)) \<union> set []"
    by (rule set_mput_all_functional) (use assms(3) in \<open>auto simp: no_conflict_def intro: reach.base\<close>)
  then have P: "set ?P = set (bodies_targets (builder_bodies b))" by simp
  with update_loop_complete [OF assms(1), of ?P ord "[]"] assms(3-5) obtain ks w'
    where "update_loop rd ord uid ?P [] w = (Inr ks, w')" "good w'"
      "set ks = {k. \<exists>d. reach look (set (bodies_targets (builder_bodies b))) k d}"
    by auto
  with assms(2) show ?thesis
    by (simp add: Builder_Update_def fold_body_keys Builder_Keys_def)
qed

lemma Builder_Update_sound:
  assumes "good w" "builder_uid b = uid" "Builder_Update rd ord b w = ((r, b'), w')"
    "\<forall>k d. reach look (set (bodies_targets (builder_bodies b))) k d \<longrightarrow> valid k"
  shows "case r of
      None \<Rightarrow> set (Builder_Keys b') \<subseteq> {k. \<exists>d. reach look (set (bodies_targets (builder_bodies b))) k d}
    | Some e \<Rightarrow> Builder_Keys b' = [] \<and>
        (\<exists>k d v e'. reach look (set (bodies_targets (builder_bodies b))) k (Some d) \<and> look k = Some v \<and>
           targets d k (Some v) = Inl e' \<and> e = value_error k e')"
proof -
  let ?P = "mput_all (bodies_targets (builder_bodies b)) []"
  have sub: "set ?P \<subseteq> set (bodies_targets (builder_bodies b))"
    using set_mput_all [of _ "[]"] by auto
  obtain r' w'' where loop: "update_loop rd ord uid ?P [] w = (r', w'')"
    by (cases "update_loop rd ord uid ?P [] w")
  have "\<forall>k d. reach look (set ?P) k d \<longrightarrow> valid k"
    using assms(4) reach_mono [OF _ sub] by blast
  from update_loop_sound [OF assms(1) loop this] loop assms(2,3) show ?thesis
    by (auto simp: Builder_Update_def fold_body_keys Builder_Keys_def split: sum.splits
        dest: reach_mono [OF _ sub] dest!: subsetD) (blast intro: reach_mono [OF _ sub])
qed

end

text \<open>
  The number of questions to the data provider is bounded by the depth of the request: with a
  provider that counts its calls, the counter grows by at most the depth.
\<close>

lemma update_loop_calls:
  "snd (update_loop (\<lambda>u ks n. (f n u ks, Suc n)) ord uid process keys n) \<le> n + fields_depth process"
proof (induction "fields_depth process" arbitrary: process keys n rule: less_induct)
  case less
  let ?visit = "range_order ord process"
  let ?rd = "\<lambda>u ks n. (f n u ks, Suc n)"
  show ?case
  proof (cases "described ?visit = []")
    case True
    then show ?thesis by (simp add: update_loop.simps Let_def)
  next
    case False
    let ?d = "f n uid (mkeys (described ?visit))"
    have pos: "Suc n \<le> n + fields_depth process"
      using process_keys_depth [of id "described ?visit" "[]" _ ?visit] False process_keys_no_data
      by fastforce
    show ?thesis
    proof (cases ?d)
      case (Inl e)
      with False pos show ?thesis by (simp add: update_loop.simps Let_def)
    next
      case (Inr data)
      show ?thesis
      proof (cases "process_keys (range_order ord (described ?visit)) data []")
        case (Inl e)
        with False pos Inr show ?thesis by (simp add: update_loop.simps Let_def)
      next
        case (Inr process')
        then have depth: "fields_depth process' < fields_depth process"
          using process_keys_depth [OF _ refl False] by simp
        have "snd (update_loop ?rd ord uid process keys n) =
            snd (update_loop ?rd ord uid process' (keys @ mkeys ?visit) (Suc n))"
          using False Inr \<open>?d = Inr data\<close> by (subst update_loop.simps) (simp add: Let_def)
        with less [OF depth, of "keys @ mkeys ?visit" "Suc n"] depth show ?thesis by simp
      qed
    qed
  qed
qed

lemma bodies_targets_fields: "(k, d) \<in> set (bodies_targets bs) \<Longrightarrow> \<exists>b \<in> set bs. d \<in> snd ` set (body_fields b)"
  by (force simp: bodies_targets_def field_targets_def)

text \<open>
  C27. \<^verbatim>\<open>Update\<close> ends, and the number of its questions to the data provider is bounded
  by the depth of the request, whatever the data are: with a provider that counts its calls,
  the counter grows by at most the depth of the deepest body.
\<close>

theorem Builder_Update_calls:
  assumes "\<forall>body \<in> set (builder_bodies b). fields_depth (body_fields body) \<le> depth"
  shows "snd (Builder_Update (\<lambda>u ks n. (f n u ks, Suc n)) ord b n) \<le> n + depth"
proof -
  let ?P = "fold body_keys (builder_bodies b) []"
  let ?rd = "\<lambda>u ks n. (f n u ks, Suc n)"
  have "fields_depth ?P \<le> depth"
  proof (rule fields_depth_le)
    fix d assume "d \<in> snd ` set ?P"
    then obtain k where "(k, d) \<in> set (bodies_targets (builder_bodies b))"
      using set_mput_all [of "bodies_targets (builder_bodies b)" "[]"] by (auto simp: fold_body_keys)
    then obtain body where "body \<in> set (builder_bodies b)" "d \<in> snd ` set (body_fields body)"
      using bodies_targets_fields by blast
    then show "option_depth d \<le> depth"
      using fields_depth_ge assms order_trans by blast
  qed
  moreover have "snd (update_loop ?rd ord (builder_uid b) ?P [] n) \<le> n + fields_depth ?P"
    by (rule update_loop_calls)
  moreover have "snd (Builder_Update ?rd ord b n) = snd (update_loop ?rd ord (builder_uid b) ?P [] n)"
    by (simp add: Builder_Update_def split: prod.split sum.split)
  ultimately show ?thesis by simp
qed

theorem Builder_Update_calls_witness:
  "snd (Builder_Update (\<lambda>u ks n. (Inr [], Suc n)) id
     \<lparr>builder_uid = 1, builder_bodies = [example_request], builder_keys = []\<rparr> 0) \<le> 1"
  using Builder_Update_calls [of "\<lparr>builder_uid = 1, builder_bodies = [example_request], builder_keys = []\<rparr>" 1
      "\<lambda>n u ks. Inr []" id 0]
  by (simp add: example_request_def)

end
