(* ===== verification/Datastore.thy ===== *)
theory Datastore
  imports Cache
begin

text \<open>
  The client of the datastore service, \<^verbatim>\<open>internal/datastore/datastore.go\<close>: the encoding
  of the request, the decoding of the response, \<^verbatim>\<open>requestKeys\<close>, \<^verbatim>\<open>Get\<close> on
  top of the cache and the loop \<^verbatim>\<open>receiveKeyChanges\<close>.

  The HTTP client of the standard library talks to another process. It is a parameter
  \<open>http\<close>: whether the request can be created, and what is received, on a state \<open>'w\<close> of the
  outside world.
\<close>

section \<open>Request and response\<close>

definition urlPath :: string where
  "urlPath = ''/internal/datastore/reader/get_many''"

definition keysToGetManyRequest :: "string list \<Rightarrow> string" where
  "keysToGetManyRequest keys =
     CHR ''{'' # marshal_string ''requests'' @ CHR '':'' # marshal_strings keys @ ''}''"

text \<open>
  Decoding into a Go map: a later member overwrites an earlier one with the same name, and the
  first type error is reported at the end.
\<close>

fun decode_entries :: "(string \<Rightarrow> json \<Rightarrow> type_error + 'v) \<Rightarrow> (string \<times> string \<times> json) list
    \<Rightarrow> type_error + (string, 'v) gomap" where
  "decode_entries dec [] = Inr []"
| "decode_entries dec ((n, t, v) # ms) =
     (case dec t v of
        Inl e \<Rightarrow> Inl e
      | Inr x \<Rightarrow>
          (case decode_entries dec ms of
             Inl e \<Rightarrow> Inl e
           | Inr m \<Rightarrow> Inr (if n \<in> fst ` set m then m else (n, x) # m)))"

definition decode_gomap :: "(string \<Rightarrow> json \<Rightarrow> type_error + 'v) \<Rightarrow> json \<Rightarrow> type_error + (string, 'v) gomap" where
  "decode_gomap dec v =
     (case v of
        JNull \<Rightarrow> Inr []
      | JObj ms \<Rightarrow> decode_entries dec ms
      | _ \<Rightarrow> Inl (type_err v TMap))"

type_synonym nested = "(string, (string, (string, raw) gomap) gomap) gomap"

definition decode_nested :: "json \<Rightarrow> type_error + nested" where
  "decode_nested = decode_gomap (\<lambda>_. decode_gomap (\<lambda>_. decode_gomap (\<lambda>t _. Inr (Some t))))"

text \<open>The three nested loops that flatten the response.\<close>

definition key_values :: "nested \<Rightarrow> (string, raw) gomap" where
  "key_values data =
     fold (\<lambda>(collection, idField).
       fold (\<lambda>(i, fieldValue).
         fold (\<lambda>(field, value). mput (collection @ ''/'' @ i @ ''/'' @ field) value) fieldValue) idField) data []"

definition getManyResponceToKeyValue :: "goerror + string \<Rightarrow> goerror + (string, raw) gomap" where
  "getManyResponceToKeyValue r =
     (case r of
        Inl e \<Rightarrow> Inl (EWrap ''decoding responce: '' e)
      | Inr bytes \<Rightarrow>
          (case decoder_decode bytes of
             Inl e \<Rightarrow> Inl (EWrap ''decoding responce: '' (decoder_error e))
           | Inr v \<Rightarrow>
               (case decode_nested v of
                  Inl e \<Rightarrow> Inl (EWrap ''decoding responce: '' (EType e))
                | Inr data \<Rightarrow> Inr (key_values data))))"

section \<open>The Datastore\<close>

text \<open>
  A response: its status code, its status line and its body, which is an error when it cannot be
  read.
\<close>

record response =
  StatusCode :: int
  Status :: string
  Body :: "goerror + string"

record 'w http_client =
  NewRequest :: "string \<Rightarrow> goerror option"
  Do :: "string \<Rightarrow> string \<Rightarrow> 'w \<Rightarrow> (goerror + response) \<times> 'w"

text \<open>
  The fields of \<^verbatim>\<open>Datastore\<close> that change or that are used below. A change listener gets
  the changed data, works on the state \<open>'s\<close> of the service and may return an error.
\<close>

record 's datastore =
  url :: string
  cache_of :: cache
  changeListeners :: "((string, raw) gomap \<Rightarrow> 's \<Rightarrow> goerror option \<times> 's) list"

definition New :: "string \<Rightarrow> 's datastore" where
  "New u = \<lparr>url = u @ urlPath, cache_of = newCache, changeListeners = []\<rparr>"

definition RegisterChangeListener :: "((string, raw) gomap \<Rightarrow> 's \<Rightarrow> goerror option \<times> 's) \<Rightarrow> 's datastore \<Rightarrow> 's datastore" where
  "RegisterChangeListener f d = d\<lparr>changeListeners := changeListeners d @ [f]\<rparr>"

text \<open>\<^verbatim>\<open>fmt.Sprintf("%s")\<close> of a slice of strings.\<close>

definition fmt_strings :: "string list \<Rightarrow> string" where
  "fmt_strings ks = CHR ''['' # join_with '' '' ks @ '']''"

definition requestKeys :: "'w http_client \<Rightarrow> string \<Rightarrow> string list \<Rightarrow> 'w \<Rightarrow> (goerror + (string, raw) gomap) \<times> 'w" where
  "requestKeys http u keys w =
     (let requestData = keysToGetManyRequest keys
      in (case NewRequest http u of
            Some e \<Rightarrow> (Inl (EWrap ''creating request: '' e), w)
          | None \<Rightarrow>
              (case Do http u requestData w of
                 (Inl e, w') \<Rightarrow> (Inl (EWrap (''requesting keys `'' @ fmt_strings keys @ ''`: '') e), w')
               | (Inr resp, w') \<Rightarrow>
                   (if StatusCode resp \<noteq> 200 then
                      (case Body resp of
                         Inl _ \<Rightarrow> (Inl (EMsg (''datastore returned status '' @ Status resp)), w')
                       | Inr body \<Rightarrow> (Inl (EMsg (''datastore returned status '' @ Status resp @ '': '' @ body)), w'))
                    else
                      (case getManyResponceToKeyValue (Body resp) of
                         Inl e \<Rightarrow> (Inl (EWrap ''parse responce: '' e), w')
                       | Inr data \<Rightarrow> (Inr data, w'))))))"

definition Get :: "'w http_client \<Rightarrow> string list \<Rightarrow> 's datastore \<Rightarrow> 'w
    \<Rightarrow> (goerror + raw list) \<times> 's datastore \<times> 'w" where
  "Get http keys d w =
     (case GetOrSet (requestKeys http (url d)) keys (cache_of d) w of
        (r, c, w') \<Rightarrow>
          (map_sum (EWrap (''getOrSet for keys `'' @ fmt_strings keys @ ''`: '')) id r,
           d\<lparr>cache_of := c\<rparr>, w'))"

section \<open>Updates\<close>

fun call_listeners :: "((string, raw) gomap \<Rightarrow> 's \<Rightarrow> goerror option \<times> 's) list \<Rightarrow> (string, raw) gomap \<Rightarrow> 's
    \<Rightarrow> goerror list \<times> 's" where
  "call_listeners [] data st = ([], st)"
| "call_listeners (f # fs) data st =
     (let (e, st1) = f data st; (es, st2) = call_listeners fs data st1
      in ((case e of None \<Rightarrow> es | Some x \<Rightarrow> x # es), st2))"

text \<open>
  The loop: \<open>us\<close> are the results of the calls of \<^verbatim>\<open>keychanger.Update()\<close> up to the moment
  when \<^verbatim>\<open>closed\<close> is closed. The result has the errors that were passed to the handler.
\<close>

fun receiveKeyChanges :: "(goerror + (string, raw) gomap) list \<Rightarrow> 's datastore \<Rightarrow> 's \<Rightarrow> goerror list \<times> 's datastore \<times> 's" where
  "receiveKeyChanges [] d st = ([], d, st)"
| "receiveKeyChanges (Inl e # us) d st =
     (let (es, d', st') = receiveKeyChanges us d st in (EWrap ''update data: '' e # es, d', st'))"
| "receiveKeyChanges (Inr data # us) d st =
     (let d1 = d\<lparr>cache_of := SetIfExist data (cache_of d)\<rparr>;
          (es1, st1) = call_listeners (changeListeners d) data st;
          (es, d', st') = receiveKeyChanges us d1 st1
      in (es1 @ es, d', st'))"

section \<open>Flattening\<close>

definition flat :: "nested \<Rightarrow> (string, raw) gomap" where
  "flat data =
     concat (map (\<lambda>(c, ids). concat (map (\<lambda>(i, fs). map (\<lambda>(f, v). (c @ ''/'' @ i @ ''/'' @ f, v)) fs) ids)) data)"

lemma fold_fields:
  "fold (\<lambda>(f, v). mput (g f) v) fs m = mput_all (map (\<lambda>(f, v). (g f, v)) fs) m"
proof (induction fs arbitrary: m)
  case (Cons fv fs)
  then show ?case by (cases fv) simp
qed simp

lemma fold_ids:
  "fold (\<lambda>(i, fs). fold (\<lambda>(f, v). mput (c @ ''/'' @ i @ ''/'' @ f) v) fs) ids m =
     mput_all (concat (map (\<lambda>(i, fs). map (\<lambda>(f, v). (c @ ''/'' @ i @ ''/'' @ f, v)) fs) ids)) m"
proof (induction ids arbitrary: m)
  case (Cons x ids)
  then show ?case by (cases x) (simp add: mput_all_append fold_fields)
qed simp

lemma key_values_flat: "key_values data = mput_all (flat data) []"
proof -
  have "fold (\<lambda>(c, ids). fold (\<lambda>(i, fs). fold (\<lambda>(f, v). mput (c @ ''/'' @ i @ ''/'' @ f) v) fs) ids) data m =
      mput_all (flat data) m" for m
  proof (induction data arbitrary: m)
    case (Cons x data)
    then show ?case by (cases x) (simp only: fold_Cons o_apply case_prod_conv fold_ids flat_def list.map concat.simps mput_all_append)
  qed (simp add: flat_def)
  then show ?thesis by (simp add: key_values_def)
qed

text \<open>Names of collections and ids have no slash, and the maps are maps.\<close>

definition nested_ok :: "nested \<Rightarrow> bool" where
  "nested_ok data \<longleftrightarrow>
     wf_map data \<and>
     (\<forall>(c, ids) \<in> set data. CHR ''/'' \<notin> set c \<and> wf_map ids \<and>
        (\<forall>(i, fs) \<in> set ids. CHR ''/'' \<notin> set i \<and> wf_map fs))"

lemma slash_parts:
  assumes "CHR ''/'' \<notin> set c" "CHR ''/'' \<notin> set c'"
    and "c @ CHR ''/'' # r = c' @ CHR ''/'' # r'"
  shows "c = c' \<and> r = r'"
  using assms
proof (induction c arbitrary: c')
  case Nil
  then show ?case by (cases c') auto
next
  case (Cons a c)
  then show ?case by (cases c') auto
qed

lemma wf_map_unique: "wf_map m \<Longrightarrow> (k, v) \<in> set m \<Longrightarrow> (k, v') \<in> set m \<Longrightarrow> v = v'"
  by (auto simp: wf_map_def dest: eq_key_imp_eq_value)

lemma in_flat:
  "(k, v) \<in> set (flat data) \<longleftrightarrow>
     (\<exists>c ids i fs f. (c, ids) \<in> set data \<and> (i, fs) \<in> set ids \<and> (f, v) \<in> set fs \<and> k = c @ ''/'' @ i @ ''/'' @ f)"
  by (force simp: flat_def)

lemma flat_functional:
  assumes "nested_ok data" "(k, v) \<in> set (flat data)" "(k, v') \<in> set (flat data)"
  shows "v = v'"
proof -
  obtain c ids i fs f where 1: "(c, ids) \<in> set data" "(i, fs) \<in> set ids" "(f, v) \<in> set fs" "k = c @ ''/'' @ i @ ''/'' @ f"
    using assms(2) in_flat by blast
  obtain c' ids' i' fs' f' where 2: "(c', ids') \<in> set data" "(i', fs') \<in> set ids'" "(f', v') \<in> set fs'"
    "k = c' @ ''/'' @ i' @ ''/'' @ f'"
    using assms(3) in_flat by blast
  have ok: "CHR ''/'' \<notin> set c" "CHR ''/'' \<notin> set c'" "CHR ''/'' \<notin> set i" "CHR ''/'' \<notin> set i'" "wf_map data" "wf_map ids" "wf_map fs"
    using assms(1) 1(1,2) 2(1,2) by (auto simp: nested_ok_def)
  have "c = c' \<and> i @ ''/'' @ f = i' @ ''/'' @ f'"
    using slash_parts [OF ok(1,2), of "i @ ''/'' @ f" "i' @ ''/'' @ f'"] 1(4) 2(4) by simp
  then have "c = c'" "i = i'" "f = f'"
    using slash_parts [OF ok(3,4), of f f'] by simp_all
  then have "ids = ids'"
    using wf_map_unique [OF ok(5)] 1(1) 2(1) by simp
  then have "fs = fs'"
    using wf_map_unique [OF ok(6)] 1(2) 2(2) \<open>i = i'\<close> by simp
  then show ?thesis
    using wf_map_unique [OF ok(7)] 1(3) 2(3) \<open>f = f'\<close> by simp
qed

lemma set_key_values:
  assumes "nested_ok data"
  shows "set (key_values data) = set (flat data)"
proof -
  have "set (mput_all (flat data) []) = set (flat data) \<union> set []"
    by (rule set_mput_all_functional) (use flat_functional [OF assms] in simp)
  then show ?thesis by (simp add: key_values_flat)
qed

lemma wf_map_key_values [simp]: "wf_map (key_values data)"
  by (simp add: key_values_flat wf_map_def [of "[]"])

section \<open>A response as JSON\<close>

text \<open>
  The members of a response, where every value is given by its text and what it stands for,
  and the map they are decoded to.
\<close>

definition obj_value :: "(string \<times> string \<times> json) list \<Rightarrow> string \<times> json" where
  "obj_value ms = (obj_text ms, JObj ms)"

definition nested_members :: "(string, (string, (string, string \<times> json) gomap) gomap) gomap
    \<Rightarrow> (string \<times> string \<times> json) list" where
  "nested_members data = map (\<lambda>(c, ids). (c, obj_value (map (\<lambda>(i, fs). (i, obj_value fs)) ids))) data"

definition nested_raw :: "(string, (string, (string, string \<times> json) gomap) gomap) gomap \<Rightarrow> nested" where
  "nested_raw data =
     map (\<lambda>(c, ids). (c, map (\<lambda>(i, fs). (i, map (\<lambda>(f, x). (f, Some (fst x))) fs)) ids)) data"

lemma decode_entries_map:
  assumes "distinct (map fst m)" "\<And>n x. (n, x) \<in> set m \<Longrightarrow> dec (t x) (g x) = Inr (h x)"
  shows "decode_entries dec (map (\<lambda>(n, x). (n, t x, g x)) m) = Inr (map (\<lambda>(n, x). (n, h x)) m)"
  using assms
proof (induction m)
  case (Cons nx m)
  obtain n x where nx: "nx = (n, x)" by (cases nx)
  have "n \<notin> fst ` set (map (\<lambda>(n, x). (n, h x)) m)"
    using Cons.prems(1) nx by force
  moreover have "decode_entries dec (map (\<lambda>(n, x). (n, t x, g x)) m) = Inr (map (\<lambda>(n, x). (n, h x)) m)"
    using Cons.prems nx by (intro Cons.IH) auto
  moreover have "dec (t x) (g x) = Inr (h x)"
    by (rule Cons.prems(2) [of n]) (simp add: nx)
  ultimately show ?case
    using nx by simp
qed simp

lemma decode_gomap_JObj [simp]: "decode_gomap dec (JObj ms) = decode_entries dec ms"
  by (simp add: decode_gomap_def)

lemma decode_nested_members:
  assumes "nested_ok (nested_raw data)"
  shows "decode_nested (JObj (nested_members data)) = Inr (nested_raw data)"
proof -
  have wf: "distinct (map fst data)"
    "\<And>c ids. (c, ids) \<in> set data \<Longrightarrow> distinct (map fst ids)"
    "\<And>c ids i fs. (c, ids) \<in> set data \<Longrightarrow> (i, fs) \<in> set ids \<Longrightarrow> distinct (map fst fs)"
    using assms by (force simp: nested_ok_def nested_raw_def wf_map_def o_def split_beta)+
  let ?dec1 = "decode_gomap (\<lambda>t _. Inr (Some t))" and ?raw = "map (\<lambda>(f, x). (f, Some (fst x)))"
  have fields: "?dec1 (JObj fs) = Inr (?raw fs)" if "distinct (map fst fs)" for fs
    using decode_entries_map [OF that, of "\<lambda>t _. Inr (Some t)" fst snd "\<lambda>x. Some (fst x)"] by simp
  have ids: "decode_gomap (\<lambda>_. ?dec1) (snd (obj_value (map (\<lambda>(i, fs). (i, obj_value fs)) ids))) =
      Inr (map (\<lambda>(i, fs). (i, ?raw fs)) ids)" if "(c, ids) \<in> set data" for c ids
    using decode_entries_map [OF wf(2) [OF that], of "\<lambda>_. ?dec1" "\<lambda>fs. fst (obj_value fs)" "\<lambda>fs. snd (obj_value fs)" ?raw]
      fields [OF wf(3) [OF that]]
    by (simp add: obj_value_def)
  show ?thesis
    using decode_entries_map [OF wf(1), of "\<lambda>_. decode_gomap (\<lambda>_. ?dec1)"
        "\<lambda>ids. fst (obj_value (map (\<lambda>(i, fs). (i, obj_value fs)) ids))"
        "\<lambda>ids. snd (obj_value (map (\<lambda>(i, fs). (i, obj_value fs)) ids))" "\<lambda>ids. map (\<lambda>(i, fs). (i, ?raw fs)) ids"] ids
    by (simp add: decode_nested_def nested_members_def nested_raw_def)
qed

lemma obj_value_members_ok:
  assumes "\<And>k x. (k, x) \<in> set m \<Longrightarrow> list_all is_ascii k \<and> list_all member_ok (g x)"
  shows "list_all member_ok (map (\<lambda>(k, x). (k, obj_value (g x))) m)"
  using assms by (auto simp: list_all_iff obj_value_def intro!: text_of_obj)

lemma nested_members_ok:
  assumes "\<forall>(c, ids) \<in> set data. list_all is_ascii c \<and> (\<forall>(i, fs) \<in> set ids. list_all is_ascii i \<and> list_all member_ok fs)"
  shows "list_all member_ok (nested_members data)"
  unfolding nested_members_def
proof (rule obj_value_members_ok, intro conjI)
  fix c ids assume ids: "(c, ids) \<in> set data"
  then show "list_all is_ascii c" using assms by blast
  show "list_all member_ok (map (\<lambda>(i, fs). (i, obj_value fs)) ids)"
    by (rule obj_value_members_ok) (use assms ids in blast)
qed

text \<open>A response with such data is decoded to the keys it stands for.\<close>

lemma getMany_nested_members:
  assumes "nested_ok (nested_raw data)" "list_all member_ok (nested_members data)"
  shows "getManyResponceToKeyValue (Inr (obj_text (nested_members data) @ r)) = Inr (key_values (nested_raw data))"
  using assms by (simp add: getManyResponceToKeyValue_def decoder_decode_object decode_nested_members)

section \<open>Get\<close>

text \<open>
  What is known of the datastore service at the other end: a request for keys that it accepts
  succeeds, leaves the service in a good state, and is answered with a body that holds the current
  values \<open>d\<close> of these keys.
\<close>

definition serves :: "'w http_client \<Rightarrow> string \<Rightarrow> (string \<Rightarrow> bool) \<Rightarrow> ('w \<Rightarrow> bool) \<Rightarrow> (string \<Rightarrow> raw) \<Rightarrow> bool" where
  "serves http u accepts good d \<longleftrightarrow>
     NewRequest http u = None \<and>
     (\<forall>keys w. good w \<longrightarrow> (\<forall>k \<in> set keys. accepts k) \<longrightarrow> (\<exists>resp w' data.
        Do http u (keysToGetManyRequest keys) w = (Inr resp, w') \<and> good w' \<and> StatusCode resp = 200 \<and>
        getManyResponceToKeyValue (Body resp) = Inr data \<and>
        (\<forall>k \<in> set keys. null_to_nil (mraw data k) = null_to_nil (d k))))"

lemma getMany_wf: "getManyResponceToKeyValue r = Inr data \<Longrightarrow> wf_map data"
  by (auto simp: getManyResponceToKeyValue_def split: sum.splits)

lemma requestKeys_serves:
  assumes "serves http u accepts good d" "good w" "\<forall>k \<in> set keys. accepts k"
  shows "\<exists>data w'. requestKeys http u keys w = (Inr data, w') \<and> good w' \<and> wf_map data \<and>
    (\<forall>k \<in> set keys. null_to_nil (mraw data k) = null_to_nil (d k))"
proof -
  from assms obtain resp w' data where "NewRequest http u = None"
    "Do http u (keysToGetManyRequest keys) w = (Inr resp, w')" "good w'" "StatusCode resp = 200"
    and data: "getManyResponceToKeyValue (Body resp) = Inr data"
      "\<forall>k \<in> set keys. null_to_nil (mraw data k) = null_to_nil (d k)"
    unfolding serves_def by blast
  moreover have "wf_map data"
    using data(1) by (rule getMany_wf)
  ultimately show ?thesis
    by (simp add: requestKeys_def Let_def)
qed

text \<open>No goroutine is fetching and every value in the cache is the current one.\<close>

definition in_sync :: "(string \<Rightarrow> raw) \<Rightarrow> cache \<Rightarrow> bool" where
  "in_sync d c \<longleftrightarrow> quiescent c \<and> (\<forall>k v. cdata c k = Some v \<longrightarrow> v = null_to_nil (d k))"

lemma in_sync_newCache [simp]: "in_sync d newCache"
  by (simp add: in_sync_def) (simp add: newCache_def)

lemma Get_in_sync:
  assumes "serves http (url d) accepts good v" "good w" "in_sync v (cache_of d)" "\<forall>k \<in> set keys. accepts k"
  shows "\<exists>c w'. Get http keys d w = (Inr (map (\<lambda>k. null_to_nil (v k)) keys), d\<lparr>cache_of := c\<rparr>, w') \<and>
    in_sync v c \<and> good w' \<and> (\<forall>k \<in> set keys. cdata c k \<noteq> None) \<and>
    (\<forall>k. cdata (cache_of d) k \<noteq> None \<longrightarrow> cdata c k \<noteq> None)"
proof (cases "missing_keys keys (cache_of d) = []")
  case True
  have q: "quiescent (cache_of d)" and val: "cdata (cache_of d) k = Some x \<Longrightarrow> x = null_to_nil (v k)" for k x
    using assms(3) by (auto simp: in_sync_def)
  have all: "\<forall>k \<in> set keys. cdata (cache_of d) k \<noteq> None"
    using True missing_keys_quiescent(1) [OF q, of keys] by auto
  then have "map (\<lambda>k. the (cdata (cache_of d) k)) keys = map (\<lambda>k. null_to_nil (v k)) keys"
    using val by force
  then have "Get http keys d w = (Inr (map (\<lambda>k. null_to_nil (v k)) keys), d\<lparr>cache_of := cache_of d\<rparr>, w)"
    using GetOrSet_cached [OF q all, of "requestKeys http (url d)" w] unfolding Get_def by simp
  then show ?thesis
    using assms(2,3) all by blast
next
  case False
  have q: "quiescent (cache_of d)" and val: "cdata (cache_of d) k = Some x \<Longrightarrow> x = null_to_nil (v k)" for k x
    using assms(3) by (auto simp: in_sync_def)
  have "\<forall>k \<in> set (missing_keys keys (cache_of d)). accepts k"
    using assms(4) missing_keys_quiescent(1) [OF q, of keys] by simp
  then obtain data w' where req: "requestKeys http (url d) (missing_keys keys (cache_of d)) w = (Inr data, w')"
    and w': "good w'" and wf: "wf_map data"
    and data: "\<forall>k \<in> set (missing_keys keys (cache_of d)). null_to_nil (mraw data k) = null_to_nil (v k)"
    using requestKeys_serves [OF assms(1,2)] by blast
  obtain c where c: "GetOrSet (requestKeys http (url d)) keys (cache_of d) w =
      (Inr (map (cached_or (cache_of d) data) keys), c, w')" "quiescent c"
    "\<forall>k \<in> set keys. cdata c k = Some (cached_or (cache_of d) data k)"
    "\<forall>k. k \<notin> set keys \<longrightarrow> cdata c k = cdata (cache_of d) k"
    using GetOrSet_fetched [where setf = "requestKeys http (url d)", OF q False req wf] by blast
  have vals: "cached_or (cache_of d) data k = null_to_nil (v k)" if "k \<in> set keys" for k
    using that data val missing_keys_quiescent(1) [OF q, of keys] by (auto simp: cached_or_def split: option.split)
  have "in_sync v c"
    unfolding in_sync_def
  proof (intro conjI allI impI)
    fix k x assume "cdata c k = Some x"
    then show "x = null_to_nil (v k)"
      using c(3,4) vals val by (cases "k \<in> set keys") auto
  qed (rule c(2))
  moreover have "\<forall>k. cdata (cache_of d) k \<noteq> None \<longrightarrow> cdata c k \<noteq> None"
    using c(3,4) by (metis option.distinct(1))
  moreover have "map (cached_or (cache_of d) data) keys = map (\<lambda>k. null_to_nil (v k)) keys"
    using vals by simp
  ultimately show ?thesis
    using c(1,3) w' by (auto simp: Get_def)
qed

text \<open>An update with the new values of all keys that have changed keeps the cache in step.\<close>

lemma in_sync_SetIfExist:
  assumes "in_sync v c" "wf_map data" "\<And>k x. (k, x) \<in> set data \<Longrightarrow> v' k = x"
    and "\<And>k. k \<notin> fst ` set data \<Longrightarrow> v' k = v k"
  shows "in_sync v' (SetIfExist data c)"
proof -
  have q: "quiescent c" and val: "\<And>k x. cdata c k = Some x \<Longrightarrow> x = null_to_nil (v k)"
    using assms(1) by (auto simp: in_sync_def)
  have k: "pending (SetIfExist data c) k = None \<and>
      (\<forall>x. cdata (SetIfExist data c) k = Some x \<longrightarrow> x = null_to_nil (v' k))" for k
  proof (cases "k \<in> fst ` set data")
    case True
    then obtain x where x: "(k, x) \<in> set data" by force
    from SetIfExist_in [OF assms(2) x, of c] assms(3) [OF x] show ?thesis
      by (auto split: if_splits)
  next
    case False
    with SetIfExist_notin [OF False, of c] val assms(4) [OF False] q show ?thesis
      by (auto simp: quiescent_def)
  qed
  then have "pending (SetIfExist data c) = Map.empty" by auto
  with k q show ?thesis
    by (simp add: in_sync_def quiescent_def cache_ok_SetIfExist)
qed

section \<open>Updates reach the cache and the listeners\<close>

fun rights :: "('a + 'b) list \<Rightarrow> 'b list" where
  "rights [] = []"
| "rights (Inl _ # xs) = rights xs"
| "rights (Inr y # xs) = y # rights xs"

fun lefts :: "('a + 'b) list \<Rightarrow> 'a list" where
  "lefts [] = []"
| "lefts (Inl x # xs) = x # lefts xs"
| "lefts (Inr _ # xs) = lefts xs"

lemma receiveKeyChanges_cache:
  "receiveKeyChanges us d st = (es, d', st') \<Longrightarrow>
     d' = d\<lparr>cache_of := fold SetIfExist (rights us) (cache_of d)\<rparr>"
  by (induction us d st arbitrary: es d' st' rule: receiveKeyChanges.induct)
    (auto simp: Let_def split: prod.splits)

section \<open>Properties\<close>

text \<open>
  C28. \<^verbatim>\<open>Get\<close> refines a read of the database: it returns for every key the current
  value, with \<^verbatim>\<open>null\<close> as nil, and keeps the cache in step with the database. A second
  \<^verbatim>\<open>Get\<close> of the same keys does not contact the service: it returns the same values
  with any service, even one that fails.
\<close>

theorem Get_refines_read:
  assumes "serves http (url d) accepts good v" "good w" "in_sync v (cache_of d)" "\<forall>k \<in> set keys. accepts k"
  shows "\<exists>d' w'. Get http keys d w = (Inr (map (\<lambda>k. null_to_nil (v k)) keys), d', w') \<and> good w' \<and>
    in_sync v (cache_of d') \<and>
    (\<forall>http' w2. Get http' keys d' w2 = (Inr (map (\<lambda>k. null_to_nil (v k)) keys), d', w2))"
proof -
  obtain c w' where c: "Get http keys d w = (Inr (map (\<lambda>k. null_to_nil (v k)) keys), d\<lparr>cache_of := c\<rparr>, w')"
    "in_sync v c" "good w'" "\<forall>k \<in> set keys. cdata c k \<noteq> None"
    using Get_in_sync [OF assms] by blast
  have q: "quiescent c" and val: "\<And>k x. cdata c k = Some x \<Longrightarrow> x = null_to_nil (v k)"
    using c(2) by (auto simp: in_sync_def)
  have "map (\<lambda>k. the (cdata c k)) keys = map (\<lambda>k. null_to_nil (v k)) keys"
    using c(4) val by force
  then have "Get http' keys (d\<lparr>cache_of := c\<rparr>) w2 =
      (Inr (map (\<lambda>k. null_to_nil (v k)) keys), d\<lparr>cache_of := c\<rparr>, w2)" for http' w2
    using GetOrSet_cached [OF q c(4), of "requestKeys http' (url d)" w2] by (simp add: Get_def)
  with c(1-3) show ?thesis by auto
qed

text \<open>A service that always sends the same values.\<close>

definition fixed_client :: "unit http_client" where
  "fixed_client =
     \<lparr>NewRequest = (\<lambda>u. None),
      Do = (\<lambda>u body w. (Inr \<lparr>StatusCode = 200, Status = ''200 OK'',
        Body = Inr (obj_text (nested_members [(''user'', [(''1'', [(''age'', ''null'', JNull)])])]))\<rparr>, w))\<rparr>"

lemma fixed_client_serves: "serves fixed_client u (\<lambda>_. True) (\<lambda>_. True) (\<lambda>_. None)"
proof -
  let ?data = "[(''user'', [(''1'', [(''age'', ''null'', JNull)])])]"
  have "list_all member_ok (nested_members ?data)"
    by (rule nested_members_ok) (use text_of_render [of JNull] in \<open>simp add: is_ascii_def in_range_def\<close>)
  moreover have "nested_ok (nested_raw ?data)"
    by (simp add: nested_ok_def nested_raw_def wf_map_def)
  ultimately have "getManyResponceToKeyValue (Inr (obj_text (nested_members ?data))) = Inr (key_values (nested_raw ?data))"
    using getMany_nested_members [of ?data "[]"] by simp
  moreover have "key_values (nested_raw ?data) = [(''user/1/age'', Some ''null'')]"
    by (simp add: key_values_def nested_raw_def mput_def)
  ultimately show ?thesis
    by (simp add: serves_def fixed_client_def mraw_def null_to_nil_def)
qed

theorem Get_refines_read_witness:
  "\<exists>d'. Get fixed_client [''user/1/age''] (New []) () = (Inr [None], d', ())"
proof -
  have "in_sync (\<lambda>_. None) (cache_of (New []))"
    by (simp add: New_def)
  from Get_refines_read [OF fixed_client_serves _ this, where w = "()" and keys = "[''user/1/age'']"] show ?thesis
    by (auto simp: null_to_nil_def)
qed

text \<open>
  C29. A \<^verbatim>\<open>Get\<close> whose request fails, because the service cannot be reached, answers
  with another status than 200 or sends something else than the expected JSON, returns the
  error. No value in the cache has changed, and no key stays pending: the next \<^verbatim>\<open>Get\<close>
  asks again.
\<close>

theorem Get_failure_keeps_cache:
  assumes "quiescent (cache_of d)" "missing_keys keys (cache_of d) \<noteq> []"
    and "requestKeys http (url d) (missing_keys keys (cache_of d)) w = (Inl e, w')"
  shows "\<exists>d'. Get http keys d w =
      (Inl (EWrap (''getOrSet for keys `'' @ fmt_strings keys @ ''`: '')
        (EWrap ''fetching key: '' (EWrap ''fetching missing keys: '' e))), d', w') \<and>
    quiescent (cache_of d') \<and> cdata (cache_of d') = cdata (cache_of d) \<and>
    set (missing_keys keys (cache_of d')) = set (missing_keys keys (cache_of d))"
proof -
  obtain c where c: "GetOrSet (requestKeys http (url d)) keys (cache_of d) w =
      (Inl (EWrap ''fetching key: '' (EWrap ''fetching missing keys: '' e)), c, w')"
    "quiescent c" "cdata c = cdata (cache_of d)"
    using GetOrSet_failed [where setf = "requestKeys http (url d)", OF assms] by blast
  have "set (missing_keys keys c) = set (missing_keys keys (cache_of d))"
    using missing_keys_quiescent(1) [OF c(2)] missing_keys_quiescent(1) [OF assms(1)] c(3) by simp
  with c show ?thesis
    by (simp add: Get_def)
qed

theorem Get_failure_keeps_cache_witness:
  "cdata (cache_of (fst (snd (Get \<lparr>NewRequest = (\<lambda>u. None), Do = (\<lambda>u b w. (Inl EEOF, w))\<rparr>
    [''user/1/age''] (New [] :: unit datastore) ())))) = Map.empty"
proof -
  let ?http = "\<lparr>NewRequest = (\<lambda>u. None), Do = (\<lambda>u b w. (Inl EEOF, w))\<rparr> :: unit http_client"
  let ?d = "New [] :: unit datastore"
  have m: "missing_keys [''user/1/age''] (cache_of ?d) = [''user/1/age'']"
    by (simp add: New_def newCache_def keyState_def)
  have q: "quiescent (cache_of ?d)"
    by (simp add: New_def)
  obtain e where e: "requestKeys ?http (url ?d) (missing_keys [''user/1/age''] (cache_of ?d)) () = (Inl e, ())"
    unfolding requestKeys_def by simp
  have "missing_keys [''user/1/age''] (cache_of ?d) \<noteq> []"
    unfolding m by simp
  from Get_failure_keeps_cache [OF q this e]
  have "cdata (cache_of (fst (snd (Get ?http [''user/1/age''] ?d ())))) = cdata (cache_of ?d)"
    by (elim exE conjE) (simp only: fst_conv snd_conv)
  moreover have "cdata (cache_of ?d) = Map.empty"
    by (simp add: New_def newCache_def)
  ultimately show ?thesis by simp
qed

end
