(* ===== verification/Restrict.thy ===== *)
theory Restrict
  imports Go_Error "HOL-Library.Sublist"
begin

text \<open>
  The restricter of \<^verbatim>\<open>internal/restrict\<close>: the table of relation lists
  (\<^verbatim>\<open>def.go\<close>), the checkers (\<^verbatim>\<open>checker.go\<close>) and \<^verbatim>\<open>Restrict\<close>
  (\<^verbatim>\<open>restrict.go\<close>). The permission service is an interface of the code and a parameter
  here; the permissions do not change during one call of \<^verbatim>\<open>Restrict\<close>. Its mock, which the
  service uses as long as there is no permission service, is modelled too.
\<close>

section \<open>Relation lists\<close>

definition relationLists :: "(string, string) gomap" where
  "relationLists =
     [(''agenda_item/child_ids'', ''agenda_item''),
      (''agenda_item/current_projector_ids'', ''projector''),
      (''agenda_item/projection_ids'', ''projection''),
      (''agenda_item/tag_ids'', ''tag''),
      (''assignment/attachment_ids'', ''mediafile''),
      (''assignment/candidate_ids'', ''assignment_candidate''),
      (''assignment/current_projector_ids'', ''projector''),
      (''assignment/poll_ids'', ''assignment_poll''),
      (''assignment/projection_ids'', ''projection''),
      (''assignment/tag_ids'', ''tag''),
      (''assignment_option/vote_ids'', ''assignment_vote''),
      (''assignment_poll/current_projector_ids'', ''projector''),
      (''assignment_poll/entitled_group_ids'', ''group''),
      (''assignment_poll/option_ids'', ''assignment_option''),
      (''assignment_poll/projection_ids'', ''projection''),
      (''assignment_poll/voted_ids'', ''user''),
      (''committee/forward_to_committee_ids'', ''committee''),
      (''committee/manager_ids'', ''user''),
      (''committee/meeting_ids'', ''meeting''),
      (''committee/member_ids'', ''user''),
      (''committee/receive_forwardings_from_committee_ids'', ''committee''),
      (''group/assignment_poll_ids'', ''assignment_poll''),
      (''group/mediafile_access_group_ids'', ''mediafile''),
      (''group/mediafile_inherited_access_group_ids'', ''mediafile''),
      (''group/motion_poll_ids'', ''motion_poll''),
      (''group/read_comment_section_ids'', ''motion_comment_section''),
      (''group/user_ids'', ''user''),
      (''group/write_comment_section_ids'', ''motion_comment_section''),
      (''list_of_speakers/current_projector_ids'', ''projector''),
      (''list_of_speakers/projection_ids'', ''projection''),
      (''list_of_speakers/speaker_ids'', ''speaker''),
      (''mediafile/access_group_ids'', ''group''),
      (''mediafile/attachment_ids'', ''*''),
      (''mediafile/child_ids'', ''mediafile''),
      (''mediafile/current_projector_ids'', ''projector''),
      (''mediafile/inherited_access_group_ids'', ''group''),
      (''mediafile/projection_ids'', ''projection''),
      (''meeting/agenda_item_ids'', ''agenda_item''),
      (''meeting/assignment_ids'', ''assignment''),
      (''meeting/assignment_poll_default_group_ids'', ''group''),
      (''meeting/assignment_poll_ids'', ''assignment_poll''),
      (''meeting/group_ids'', ''group''),
      (''meeting/guest_ids'', ''user''),
      (''meeting/list_of_speakers_ids'', ''list_of_speakers''),
      (''meeting/mediafile_ids'', ''mediafile''),
      (''meeting/motion_block_ids'', ''motion_block''),
      (''meeting/motion_category_ids'', ''motion_category''),
      (''meeting/motion_comment_section_ids'', ''motion_comment_section''),
      (''meeting/motion_ids'', ''motion''),
      (''meeting/motion_poll_default_group_ids'', ''group''),
      (''meeting/motion_poll_ids'', ''motion_poll''),
      (''meeting/motion_statute_paragraph_ids'', ''motion_statute_paragraph''),
      (''meeting/motion_workflow_ids'', ''motion_workflow''),
      (''meeting/present_user_ids'', ''user''),
      (''meeting/projectiondefault_ids'', ''projectiondefault''),
      (''meeting/projector_countdown_ids'', ''projector_countdown''),
      (''meeting/projector_ids'', ''projector''),
      (''meeting/projector_message_ids'', ''projector_message''),
      (''meeting/tag_ids'', ''tag''),
      (''meeting/temporary_user_ids'', ''user''),
      (''meeting/topic_ids'', ''topic''),
      (''motion/amendment_ids'', ''motion''),
      (''motion/attachment_ids'', ''mediafile''),
      (''motion/change_recommendation_ids'', ''motion_change_recommendation''),
      (''motion/comment_ids'', ''motion_comment''),
      (''motion/current_projector_ids'', ''projector''),
      (''motion/derived_motion_ids'', ''motion''),
      (''motion/personal_note_ids'', ''personal_note''),
      (''motion/poll_ids'', ''motion_poll''),
      (''motion/projection_ids'', ''projection''),
      (''motion/recommendation_extension_reference_ids'', ''*''),
      (''motion/referenced_in_motion_recommendation_extension_ids'', ''motion''),
      (''motion/sort_child_ids'', ''motion''),
      (''motion/submitter_ids'', ''motion_submitter''),
      (''motion/supporter_ids'', ''user''),
      (''motion/tag_ids'', ''tag''),
      (''motion_block/current_projector_ids'', ''projector''),
      (''motion_block/motion_ids'', ''motion''),
      (''motion_block/projection_ids'', ''projection''),
      (''motion_category/child_ids'', ''motion_category''),
      (''motion_category/motion_ids'', ''motion''),
      (''motion_comment/comment_ids'', ''motion_comment''),
      (''motion_comment/read_group_ids'', ''group''),
      (''motion_comment/write_group_ids'', ''group''),
      (''motion_option/vote_ids'', ''motion_vote''),
      (''motion_poll/current_projector_ids'', ''projector''),
      (''motion_poll/entitled_group_ids'', ''group''),
      (''motion_poll/option_ids'', ''motion_option''),
      (''motion_poll/projection_ids'', ''projection''),
      (''motion_poll/voted_ids'', ''user''),
      (''motion_state/motion_ids'', ''motion''),
      (''motion_state/motion_recommendation_ids'', ''motion''),
      (''motion_state/next_state_ids'', ''motion_state''),
      (''motion_state/previous_state_ids'', ''motion_state''),
      (''motion_statute_paragraph/motion_ids'', ''motion''),
      (''motion_workflow/state_ids'', ''motion_state''),
      (''organisation/committee_ids'', ''committee''),
      (''organisation/resource_ids'', ''resource''),
      (''organisation/role_ids'', ''role''),
      (''projector/current_element_ids'', ''*''),
      (''projector/current_projection_ids'', ''projection''),
      (''projector/history_projection_ids'', ''projection''),
      (''projector/preview_projection_ids'', ''projection''),
      (''projector/projectiondefault_ids'', ''projectiondefault''),
      (''projector_countdown/current_projector_ids'', ''projector''),
      (''projector_countdown/projection_ids'', ''projection''),
      (''projector_message/current_projector_ids'', ''projector''),
      (''projector_message/projection_ids'', ''projection''),
      (''role/user_ids'', ''user''),
      (''tag/tagged_ids'', ''*''),
      (''topic/attachment_ids'', ''mediafile''),
      (''topic/tag_ids'', ''tag''),
      (''user/assignment_candidate_$_ids'', ''assignment_candidate''),
      (''user/assignment_option_$_ids'', ''assignment_option''),
      (''user/assignment_poll_voted_$_ids'', ''assignment_poll''),
      (''user/assignment_vote_$_ids'', ''assignment_vote''),
      (''user/committee_as_manager_ids'', ''committee''),
      (''user/committee_as_member_ids'', ''committee''),
      (''user/group_$_ids'', ''group''),
      (''user/guest_meeting_ids'', ''meeting''),
      (''user/is_present_in_meeting_ids'', ''meeting''),
      (''user/motion_poll_voted_$_ids'', ''motion_poll''),
      (''user/motion_vote_$_ids'', ''motion_vote''),
      (''user/personal_note_$_ids'', ''personal_note''),
      (''user/projection_ids'', ''projection''),
      (''user/speaker_$_ids'', ''speaker''),
      (''user/submitted_motion_$_ids'', ''motion_submitter''),
      (''user/supported_motion_$_ids'', ''motion'')]"

section \<open>Permission\<close>

record permission =
  CheckFQIDs :: "int \<Rightarrow> string list \<Rightarrow> goerror + (string, bool) gomap"
  CheckFQFields :: "int \<Rightarrow> string list \<Rightarrow> goerror + (string, bool) gomap"

text \<open>The mock: its data, with a default for keys that are not in it.\<close>

definition MockPermission_CheckFQIDs :: "(string \<rightharpoonup> bool) \<Rightarrow> bool \<Rightarrow> int \<Rightarrow> string list \<Rightarrow> goerror + (string, bool) gomap" where
  "MockPermission_CheckFQIDs Data Default uid fqids =
     Inr (fold (\<lambda>k out. mput k (case Data k of Some b \<Rightarrow> b | None \<Rightarrow> Default) out) fqids [])"

definition MockPermission :: "(string \<rightharpoonup> bool) \<Rightarrow> bool \<Rightarrow> permission" where
  "MockPermission Data Default =
     \<lparr>CheckFQIDs = MockPermission_CheckFQIDs Data Default,
      CheckFQFields = MockPermission_CheckFQIDs Data Default\<rparr>"

section \<open>Checkers\<close>

text \<open>
  The regular expression of a structured field: the key with its first dollar sign replaced by
  \<^verbatim>\<open>[a-z0-9_]+\<close>, here the text before it and the text after it.
\<close>

datatype checker =
    relationList (cmodel: string)
  | genericRelationList
  | structuredField checker (re_prefix: string) (re_suffix: string)

definition is_word :: "char \<Rightarrow> bool" where
  "is_word c \<longleftrightarrow> in_range 97 122 c \<or> in_range 48 57 c \<or> c = CHR ''_''"

fun match_star :: "string \<Rightarrow> string \<Rightarrow> bool" where
  "match_star suf [] \<longleftrightarrow> suf = []"
| "match_star suf (c # s) \<longleftrightarrow> take (length suf) (c # s) = suf \<or> is_word c \<and> match_star suf s"

fun match_plus :: "string \<Rightarrow> string \<Rightarrow> bool" where
  "match_plus suf [] \<longleftrightarrow> False"
| "match_plus suf (c # s) \<longleftrightarrow> is_word c \<and> match_star suf s"

definition match_at :: "string \<Rightarrow> string \<Rightarrow> string \<Rightarrow> bool" where
  "match_at pre suf s \<longleftrightarrow> take (length pre) s = pre \<and> match_plus suf (drop (length pre) s)"

text \<open>\<^verbatim>\<open>MatchString\<close> looks for a match at any position.\<close>

fun MatchString :: "string \<Rightarrow> string \<Rightarrow> string \<Rightarrow> bool" where
  "MatchString pre suf [] \<longleftrightarrow> match_at pre suf []"
| "MatchString pre suf (c # s) \<longleftrightarrow> match_at pre suf (c # s) \<or> MatchString pre suf s"

definition before_dollar :: "string \<Rightarrow> string" where
  "before_dollar k = takeWhile (\<lambda>c. c \<noteq> CHR ''$'') k"

definition after_dollar :: "string \<Rightarrow> string" where
  "after_dollar k = drop 1 (dropWhile (\<lambda>c. c \<noteq> CHR ''$'') k)"

definition OpenSlidesChecker_entry :: "string \<Rightarrow> string \<Rightarrow> checker" where
  "OpenSlidesChecker_entry k v =
     (let checker = (if v = ''*'' then genericRelationList else relationList v)
      in if CHR ''$'' \<in> set k then structuredField checker (before_dollar k) (after_dollar k) else checker)"

definition OpenSlidesChecker :: "(string, checker) gomap" where
  "OpenSlidesChecker = fold (\<lambda>(k, v). mput k (OpenSlidesChecker_entry k v)) relationLists []"

definition allowed_keys :: "(string, bool) gomap \<Rightarrow> string list" where
  "allowed_keys allowed = map fst (filter snd allowed)"

text \<open>A lookup in a map that was filled in a loop; a missing key gives the zero value.\<close>

definition lookup_or :: "'v \<Rightarrow> ('k \<times> 'v) list \<Rightarrow> 'k \<Rightarrow> 'v" where
  "lookup_or z kvs k = (case map_of (rev kvs) k of Some v \<Rightarrow> v | None \<Rightarrow> z)"

definition relationList_Check :: "permission \<Rightarrow> string \<Rightarrow> int \<Rightarrow> string \<Rightarrow> raw \<Rightarrow> goerror + raw" where
  "relationList_Check perm model uid key value =
     (case unmarshal decode_ints (raw_bytes value) of
        Inl e \<Rightarrow> Inl (EWrap (''decoding '' @ key @ '': '') (unmarshal_goerror e))
      | Inr nums \<Rightarrow>
          (let keys = map (\<lambda>i. model @ ''/'' @ Itoa i) nums
           in (case CheckFQIDs perm uid keys of
                 Inl e \<Rightarrow> Inl (EWrap ''check fqids: '' e)
               | Inr allowed \<Rightarrow>
                   Inr (Some (marshal_ints (map (lookup_or 0 (zip keys nums)) (allowed_keys allowed)))))))"

definition genericRelationList_Check :: "permission \<Rightarrow> int \<Rightarrow> string \<Rightarrow> raw \<Rightarrow> goerror + raw" where
  "genericRelationList_Check perm uid key value =
     (case unmarshal decode_strings (raw_bytes value) of
        Inl e \<Rightarrow> Inl (EWrap (''decoding '' @ key @ '': '') (unmarshal_goerror e))
      | Inr fqids \<Rightarrow>
          (case CheckFQIDs perm uid fqids of
             Inl e \<Rightarrow> Inl (EWrap ''check fqids: '' e)
           | Inr allowed \<Rightarrow> Inr (Some (marshal_strings (allowed_keys allowed)))))"

definition structuredField_Check :: "permission \<Rightarrow> int \<Rightarrow> string \<Rightarrow> raw \<Rightarrow> goerror + raw" where
  "structuredField_Check perm uid key value =
     (case unmarshal decode_strings (raw_bytes value) of
        Inl e \<Rightarrow> Inl (EWrap (''decoding key '' @ key @ '': '') (unmarshal_goerror e))
      | Inr replacments \<Rightarrow>
          (let keys = map (\<lambda>r. replace_first CHR ''$'' r key) replacments
           in (case CheckFQFields perm uid keys of
                 Inl e \<Rightarrow> Inl (EWrap ''check generated structured fields: '' e)
               | Inr allowed \<Rightarrow>
                   Inr (Some (marshal_strings (map (lookup_or [] (zip keys replacments)) (mkeys allowed)))))))"

fun Check :: "permission \<Rightarrow> checker \<Rightarrow> int \<Rightarrow> string \<Rightarrow> raw \<Rightarrow> goerror + raw" where
  "Check perm (relationList model) uid key value = relationList_Check perm model uid key value"
| "Check perm genericRelationList uid key value = genericRelationList_Check perm uid key value"
| "Check perm (structuredField c pre suf) uid key value = structuredField_Check perm uid key value"

section \<open>The restricter\<close>

record restricter =
  checks :: "(string, checker) gomap"
  structuredFields :: "(checker \<times> string \<times> string) list"

fun structured_of :: "(string, checker) gomap \<Rightarrow> (checker \<times> string \<times> string) list" where
  "structured_of [] = []"
| "structured_of ((k, structuredField c pre suf) # m) = (c, pre, suf) # structured_of m"
| "structured_of (_ # m) = structured_of m"

definition New_Restricter :: "(string, checker) gomap \<Rightarrow> restricter" where
  "New_Restricter checker = \<lparr>checks = checker, structuredFields = structured_of checker\<rparr>"

text \<open>The index expressions panic for a key with less than three parts.\<close>

definition fqfieldToModelField :: "string \<Rightarrow> goerror + string" where
  "fqfieldToModelField fqfield =
     (let t = split_on CHR ''/'' fqfield
      in if length t < 3 then Inl (EPanic ''index out of range'')
         else Inr (t ! 0 @ ''/'' @ t ! 2))"

fun find_structured :: "(checker \<times> string \<times> string) list \<Rightarrow> string \<Rightarrow> checker option" where
  "find_structured [] modelField = None"
| "find_structured ((c, pre, suf) # sfs) modelField =
     (if MatchString pre suf modelField then Some c else find_structured sfs modelField)"

definition find_checker :: "restricter \<Rightarrow> string \<Rightarrow> checker option" where
  "find_checker r modelField =
     (case map_of (checks r) modelField of
        Some c \<Rightarrow> Some c
      | None \<Rightarrow> find_structured (structuredFields r) modelField)"

text \<open>What the loop does with one entry, where \<open>allowed\<close> is \<^verbatim>\<open>allowed[k]\<close>.\<close>

definition restrict_value :: "permission \<Rightarrow> restricter \<Rightarrow> int \<Rightarrow> bool \<Rightarrow> string \<Rightarrow> raw \<Rightarrow> goerror + raw" where
  "restrict_value perm r uid allowed k v =
     (if v = None then Inr None
      else if \<not> allowed then Inr None
      else (case fqfieldToModelField k of
              Inl e \<Rightarrow> Inl e
            | Inr modelField \<Rightarrow>
                (case find_checker r modelField of
                   None \<Rightarrow> Inr v
                 | Some c \<Rightarrow>
                     (case Check perm c uid k v of
                        Inl e \<Rightarrow> Inl (EWrap (''checker for key '' @ k @ '': '') e)
                      | Inr nv \<Rightarrow> Inr nv))))"

fun restrict_loop :: "permission \<Rightarrow> restricter \<Rightarrow> int \<Rightarrow> (string, bool) gomap \<Rightarrow> (string, raw) gomap
    \<Rightarrow> goerror + (string, raw) gomap" where
  "restrict_loop perm r uid allowed [] = Inr []"
| "restrict_loop perm r uid allowed ((k, v) # data) =
     (case restrict_value perm r uid (mbool allowed k) k v of
        Inl e \<Rightarrow> Inl e
      | Inr nv \<Rightarrow> map_sum id (Cons (k, nv)) (restrict_loop perm r uid allowed data))"

definition Restrict :: "permission \<Rightarrow> restricter \<Rightarrow> int \<Rightarrow> (string, raw) gomap \<Rightarrow> goerror + (string, raw) gomap" where
  "Restrict perm r uid data =
     (case CheckFQFields perm uid (mkeys data) of
        Inl e \<Rightarrow> Inl (EWrap ''check permissions: '' e)
      | Inr allowed \<Rightarrow> restrict_loop perm r uid allowed data)"

definition structuredKeys :: "string \<Rightarrow> string list \<Rightarrow> string list" where
  "structuredKeys key replecments = map (\<lambda>r. replace_first CHR ''$'' r key) replecments"

section \<open>Contract of the permission service\<close>

lemma in_allowed_keys: "k \<in> set (allowed_keys m) \<longleftrightarrow> (k, True) \<in> set m"
  unfolding allowed_keys_def by force

text \<open>The service answers for every key it is asked for, and for no other key.\<close>

locale permission_check =
  fixes check :: "string list \<Rightarrow> goerror + (string, bool) gomap"
    and allow :: "string \<Rightarrow> bool"
  assumes check_answers: "\<exists>m. check ks = Inr m \<and> wf_map m \<and> fst ` set m = set ks \<and> (\<forall>k \<in> set ks. mbool m k = allow k)"
begin

lemma allowed_keys_check:
  assumes "check ks = Inr m"
  shows "distinct (allowed_keys m)" "set (allowed_keys m) = {k \<in> set ks. allow k}"
proof -
  obtain m' where m': "check ks = Inr m'" "wf_map m'" "fst ` set m' = set ks" "\<forall>k \<in> set ks. mbool m' k = allow k"
    using check_answers [of ks] by blast
  have m: "wf_map m" "fst ` set m = set ks" "\<forall>k \<in> set ks. mbool m k = allow k"
    using m' assms by simp_all
  show "distinct (allowed_keys m)"
    using m(1) by (simp add: allowed_keys_def wf_map_def distinct_map_filter)
  have "k \<in> set (allowed_keys m) \<longleftrightarrow> k \<in> fst ` set m \<and> mbool m k" for k
    using m(1) by (force simp: in_allowed_keys mbool_def wf_map_def)
  then show "set (allowed_keys m) = {k \<in> set ks. allow k}"
    using m(2,3) by (simp add: set_eq_iff) blast
qed

end

lemma mock_fold:
  "wf_map out \<Longrightarrow> wf_map (fold (\<lambda>k. mput k (f k)) ks out) \<and>
     fst ` set (fold (\<lambda>k. mput k (f k)) ks out) = fst ` set out \<union> set ks \<and>
     (\<forall>k. map_of (fold (\<lambda>k. mput k (f k)) ks out) k = (if k \<in> set ks then Some (f k) else map_of out k))"
  by (induction ks arbitrary: out) (auto simp: go_map keys_mput)

text \<open>The mock keeps the contract.\<close>

definition mock_allows :: "(string \<rightharpoonup> bool) \<Rightarrow> bool \<Rightarrow> string \<Rightarrow> bool" where
  "mock_allows Data Default k = (case Data k of Some b \<Rightarrow> b | None \<Rightarrow> Default)"

interpretation mock: permission_check "MockPermission_CheckFQIDs Data Default uid" "mock_allows Data Default"
  for Data Default uid
proof
  fix ks
  show "\<exists>m. MockPermission_CheckFQIDs Data Default uid ks = Inr m \<and> wf_map m \<and> fst ` set m = set ks \<and>
      (\<forall>k \<in> set ks. mbool m k = mock_allows Data Default k)"
    using mock_fold [of "[]" "mock_allows Data Default" ks]
    by (simp add: MockPermission_CheckFQIDs_def mock_allows_def [abs_def] mbool_def wf_map_def [of "[]"])
qed

section \<open>Relation lists only show what the user may see\<close>

lemma zip_map_self: "zip (map f xs) xs = map (\<lambda>x. (f x, x)) xs"
  by (induction xs) simp_all

lemma lookup_or_zip:
  assumes "inj f" "x \<in> set xs"
  shows "lookup_or z (zip (map f xs) xs) (f x) = x"
proof -
  have "f x \<in> fst ` set (rev (zip (map f xs) xs))"
    using assms(2) by (auto simp: zip_map_self image_iff)
  then obtain y where y: "map_of (rev (zip (map f xs) xs)) (f x) = Some y"
    by (meson map_of_eq_None_iff option.exhaust)
  then have "f y = f x"
    by (auto simp: zip_map_self dest!: map_of_SomeD)
  then show ?thesis
    using assms(1) y by (simp add: lookup_or_def inj_eq)
qed

lemma fqid_inj: "inj (\<lambda>i. model @ ''/'' @ Itoa i)"
  by (auto intro!: injI simp: Itoa_inj)

lemma relationList_Check_filters:
  assumes "permission_check (CheckFQIDs perm uid) allow"
    and "unmarshal decode_ints (raw_bytes v) = Inr nums"
  shows "\<exists>xs. relationList_Check perm model uid key v = Inr (Some (marshal_ints xs)) \<and> distinct xs \<and>
    set xs = {i \<in> set nums. allow (model @ ''/'' @ Itoa i)}"
proof -
  let ?f = "\<lambda>i. model @ ''/'' @ Itoa i"
  obtain m where m: "CheckFQIDs perm uid (map ?f nums) = Inr m"
    using permission_check.check_answers [OF assms(1)] by blast
  note allowed = permission_check.allowed_keys_check [OF assms(1) m]
  let ?xs = "map (lookup_or 0 (zip (map ?f nums) nums)) (allowed_keys m)"
  have lookup: "lookup_or 0 (zip (map ?f nums) nums) (?f i) = i" if "i \<in> set nums" for i
    using lookup_or_zip [OF fqid_inj that] .
  have "set ?xs = {i \<in> set nums. allow (?f i)}"
  proof -
    have "set ?xs = lookup_or 0 (zip (map ?f nums) nums) ` ?f ` {i \<in> set nums. allow (?f i)}"
      using allowed(2) by auto
    also have "\<dots> = {i \<in> set nums. allow (?f i)}"
      using lookup by (force simp: image_iff)
    finally show ?thesis .
  qed
  moreover have "inj_on (lookup_or 0 (zip (map ?f nums) nums)) (set (allowed_keys m))"
    using allowed(2) lookup by (auto intro!: inj_onI)
  ultimately show ?thesis
    using m assms(2) allowed(1) by (auto simp: relationList_Check_def Let_def distinct_map)
qed

lemma genericRelationList_Check_filters:
  assumes "permission_check (CheckFQIDs perm uid) allow"
    and "unmarshal decode_strings (raw_bytes v) = Inr fqids"
  shows "\<exists>xs. genericRelationList_Check perm uid key v = Inr (Some (marshal_strings xs)) \<and> distinct xs \<and>
    set xs = {k \<in> set fqids. allow k}"
proof -
  obtain m where m: "CheckFQIDs perm uid fqids = Inr m"
    using permission_check.check_answers [OF assms(1)] by blast
  then show ?thesis
    using permission_check.allowed_keys_check [OF assms(1) m] assms(2)
    by (auto simp: genericRelationList_Check_def)
qed

section \<open>Restrict\<close>

lemma restrict_loop_keys: "restrict_loop perm r uid allowed data = Inr data' \<Longrightarrow> mkeys data' = mkeys data"
  by (induction data arbitrary: data') (auto split: sum.splits)

lemma restrict_loop_value:
  "restrict_loop perm r uid allowed data = Inr data' \<Longrightarrow> (k, nv) \<in> set data' \<Longrightarrow>
     \<exists>v. (k, v) \<in> set data \<and> restrict_value perm r uid (mbool allowed k) k v = Inr nv"
proof (induction data arbitrary: data')
  case (Cons kv data)
  then show ?case by (cases kv) (auto split: sum.splits; blast)
qed simp

lemma restrict_loop_fails:
  assumes "(k, v) \<in> set data" "isl (restrict_value perm r uid (mbool allowed k) k v)"
  obtains k' v' e where "(k', v') \<in> set data" "restrict_value perm r uid (mbool allowed k') k' v' = Inl e"
    "restrict_loop perm r uid allowed data = Inl e"
proof -
  have "\<exists>k' v' e. (k', v') \<in> set data \<and> restrict_value perm r uid (mbool allowed k') k' v' = Inl e \<and>
      restrict_loop perm r uid allowed data = Inl e"
    using assms
  proof (induction data)
    case (Cons kv data)
    obtain k1 v1 where kv: "kv = (k1, v1)" by (cases kv)
    show ?case
    proof (cases "restrict_value perm r uid (mbool allowed k1) k1 v1")
      case (Inl e)
      then show ?thesis using kv by (intro exI [of _ k1] exI [of _ v1] exI [of _ e]) simp
    next
      case (Inr nv)
      then have "(k, v) \<in> set data" using Cons.prems kv by auto
      from Cons.IH [OF this Cons.prems(2)] show ?thesis
        using kv Inr by (fastforce split: sum.split)
    qed
  qed simp
  then show ?thesis using that by blast
qed

lemma restrict_value_denied [simp]: "restrict_value perm r uid False k v = Inr None"
  by (simp add: restrict_value_def)

lemma restrict_loop_agree:
  assumes "mkeys data = mkeys data'"
    and "\<And>k. mbool allowed k \<Longrightarrow> map_of data k = map_of data' k"
    and "wf_map data"
  shows "restrict_loop perm r uid allowed data = restrict_loop perm r uid allowed data'"
  using assms
proof (induction data arbitrary: data')
  case (Cons kv data)
  obtain k v where kv: "kv = (k, v)" by (cases kv)
  with Cons.prems(1) obtain v' data'' where d': "data' = (k, v') # data''" "mkeys data = mkeys data''"
    by (cases data') auto
  have "restrict_value perm r uid (mbool allowed k) k v = restrict_value perm r uid (mbool allowed k) k v'"
    using Cons.prems(2) [of k] kv d' by (cases "mbool allowed k") auto
  moreover have "restrict_loop perm r uid allowed data = restrict_loop perm r uid allowed data''"
  proof (rule Cons.IH [OF d'(2)])
    fix k' assume a: "mbool allowed k'"
    have "k \<notin> fst ` set data" "k \<notin> fst ` set data''"
      using Cons.prems(3) kv d'(2) by (auto simp: wf_map_def) (metis image_eqI fst_conv list.set_map)
    then have "map_of data k = None" "map_of data'' k = None"
      by (simp_all add: map_of_eq_None_iff)
    with Cons.prems(2) [OF a] show "map_of data k' = map_of data'' k'"
      using kv d' by (cases "k' = k") simp_all
  qed (use Cons.prems(3) kv in \<open>simp add: wf_map_def\<close>)
  ultimately show ?case
    using kv d' by (simp split: sum.split)
qed simp

text \<open>
  With the contract of the permission service, \<^verbatim>\<open>Restrict\<close> handles every key on its own.
\<close>

lemma Restrict_pointwise:
  assumes "permission_check (CheckFQFields perm uid) allow"
    and "\<And>k v. (k, v) \<in> set data \<Longrightarrow> restrict_value perm r uid (allow k) k v = Inr (g k v)"
  shows "Restrict perm r uid data = Inr (map (\<lambda>(k, v). (k, g k v)) data)"
proof -
  obtain m where m: "CheckFQFields perm uid (mkeys data) = Inr m" "\<forall>k \<in> set (mkeys data). mbool m k = allow k"
    using permission_check.check_answers [OF assms(1), of "mkeys data"] by blast
  have "restrict_loop perm r uid m data' = Inr (map (\<lambda>(k, v). (k, g k v)) data')" if "set data' \<subseteq> set data" for data'
    using that
  proof (induction data')
    case (Cons kv data')
    obtain k v where kv: "kv = (k, v)" by (cases kv)
    with Cons.prems m(2) have "mbool m k = allow k" by force
    with Cons kv assms(2) [of k v] show ?case by simp
  qed simp
  then show ?thesis
    by (simp add: Restrict_def m(1))
qed

lemma find_structured_None: "\<forall>(c, pre, suf) \<in> set sfs. \<not> MatchString pre suf mf \<Longrightarrow> find_structured sfs mf = None"
  by (induction sfs) auto

lemma find_structured_Some: "find_structured sfs mf = Some c \<Longrightarrow> \<exists>pre suf. (c, pre, suf) \<in> set sfs"
  by (induction sfs mf rule: find_structured.induct) (auto split: if_splits)

lemma structured_of_set: "(c, pre, suf) \<in> set (structured_of m) \<Longrightarrow> \<exists>k. (k, structuredField c pre suf) \<in> set m"
  by (induction m rule: structured_of.induct) auto

lemma OpenSlidesChecker_set: "(k, c) \<in> set OpenSlidesChecker \<Longrightarrow> \<exists>v. (k, v) \<in> set relationLists \<and> c = OpenSlidesChecker_entry k v"
proof -
  have "OpenSlidesChecker = mput_all (map (\<lambda>(k, v). (k, OpenSlidesChecker_entry k v)) relationLists) []"
    by (simp add: OpenSlidesChecker_def mput_all_def fold_map comp_def case_prod_unfold)
  then show "(k, c) \<in> set OpenSlidesChecker \<Longrightarrow> ?thesis"
    using set_mput_all [of "map (\<lambda>(k, v). (k, OpenSlidesChecker_entry k v)) relationLists" "[]"] by auto
qed

text \<open>A field that is no relation list has no checker.\<close>

lemma find_checker_None:
  assumes "list_all (\<lambda>(k, v). k \<noteq> mf \<and> (CHR ''$'' \<in> set k \<longrightarrow> \<not> MatchString (before_dollar k) (after_dollar k) mf)) relationLists"
  shows "find_checker (New_Restricter OpenSlidesChecker) mf = None"
proof -
  have "map_of OpenSlidesChecker mf = None"
    using assms OpenSlidesChecker_set by (fastforce simp: map_of_eq_None_iff list_all_iff)
  moreover have "find_structured (structured_of OpenSlidesChecker) mf = None"
  proof (rule find_structured_None, clarify)
    fix c pre suf assume "(c, pre, suf) \<in> set (structured_of OpenSlidesChecker)"
    then obtain k v where kv: "(k, v) \<in> set relationLists" "structuredField c pre suf = OpenSlidesChecker_entry k v"
      using structured_of_set OpenSlidesChecker_set by blast
    then have "CHR ''$'' \<in> set k" "pre = before_dollar k" "suf = after_dollar k"
      by (auto simp: OpenSlidesChecker_entry_def Let_def split: if_splits)
    moreover assume "MatchString pre suf mf"
    ultimately show False
      using assms kv(1) by (auto simp: list_all_iff)
  qed
  ultimately show ?thesis
    by (simp add: find_checker_def New_Restricter_def)
qed

subsection \<open>The checkers of the relation lists\<close>

lemma relationLists_ids:
  "list_all (\<lambda>(k, v). sublist ''_ids'' k \<and> (CHR ''$'' \<in> set k \<longrightarrow> sublist ''_ids'' (after_dollar k) \<and> v \<noteq> ''*'')) relationLists"
  by code_simp

lemma OpenSlidesChecker_lookup:
  "map_of OpenSlidesChecker k = map_option (OpenSlidesChecker_entry k) (map_of (rev relationLists) k)"
proof -
  let ?f = "\<lambda>(k, v). (k, OpenSlidesChecker_entry k v)"
  have "OpenSlidesChecker = mput_all (map ?f relationLists) []"
    by (simp add: OpenSlidesChecker_def mput_all_def fold_map comp_def case_prod_unfold)
  then have "map_of OpenSlidesChecker k = map_of (map ?f (rev relationLists)) k"
    using map_of_mput_all [of "map ?f relationLists" "[]"] by (simp add: rev_map)
  moreover have "map_of (map ?f m) k = map_option (OpenSlidesChecker_entry k) (map_of m k)" for m
    by (induction m) auto
  ultimately show ?thesis
    by simp
qed

lemma match_star_sublist: "match_star suf s \<Longrightarrow> sublist suf s"
proof (induction s)
  case (Cons c s)
  have "sublist suf (c # s)" if "take (length suf) (c # s) = suf"
    using prefix_imp_sublist [OF take_is_prefix, of "length suf" "c # s"] that by simp
  with Cons show ?case by (auto intro: sublist_Cons_right [THEN iffD2])
qed simp

lemma MatchString_sublist: "MatchString pre suf s \<Longrightarrow> sublist suf s"
proof (induction s)
  case (Cons c s)
  have "sublist suf t" if m: "match_at pre suf t" for t
  proof -
    obtain d u where d: "drop (length pre) t = d # u" "match_star suf u"
      using m by (cases "drop (length pre) t") (auto simp: match_at_def)
    have "sublist (d # u) t" unfolding d(1) [symmetric] by (rule suffix_imp_sublist [OF suffix_drop])
    moreover have "sublist u (d # u)" by (simp add: suffix_imp_sublist suffix_ConsI)
    ultimately show ?thesis using match_star_sublist [OF d(2)] sublist_order.order.trans by blast
  qed
  with Cons show ?case by (auto intro: sublist_Cons_right [THEN iffD2])
qed (simp add: match_at_def)

lemma find_checker_no_list:
  assumes "\<not> sublist ''_ids'' mf"
  shows "find_checker (New_Restricter OpenSlidesChecker) mf = None"
proof (rule find_checker_None)
  show "list_all (\<lambda>(k, v). k \<noteq> mf \<and> (CHR ''$'' \<in> set k \<longrightarrow> \<not> MatchString (before_dollar k) (after_dollar k) mf)) relationLists"
    unfolding list_all_iff
  proof (intro ballI, clarify, intro conjI impI notI)
    fix k v assume kv: "(k, v) \<in> set relationLists"
    then have ids: "sublist ''_ids'' k" "CHR ''$'' \<in> set k \<longrightarrow> sublist ''_ids'' (after_dollar k)"
      using relationLists_ids unfolding list_all_iff by blast+
    show False if "k = mf" using ids(1) that assms by blast
    show False if "CHR ''$'' \<in> set k" "MatchString (before_dollar k) (after_dollar k) mf"
      using ids(2) that MatchString_sublist sublist_order.order.trans assms by blast
  qed
qed

lemma find_checker_named:
  "map_of (rev relationLists) mf = Some v \<Longrightarrow>
    find_checker (New_Restricter OpenSlidesChecker) mf = Some (OpenSlidesChecker_entry mf v)"
  by (simp add: find_checker_def New_Restricter_def OpenSlidesChecker_lookup)

lemma find_checker_plain:
  assumes "find_checker (New_Restricter OpenSlidesChecker) mf = Some c" "CHR ''$'' \<notin> set mf" "map_of (rev relationLists) mf \<noteq> Some ''*''"
  shows "\<exists>m. c = relationList m"
proof (cases "map_of (rev relationLists) mf")
  case (Some v)
  then show ?thesis
    using find_checker_named [OF Some] assms by (auto simp: OpenSlidesChecker_entry_def)
next
  case None
  then have "find_structured (structured_of OpenSlidesChecker) mf = Some c"
    using assms(1) by (simp add: find_checker_def New_Restricter_def OpenSlidesChecker_lookup)
  then obtain pre suf where "(c, pre, suf) \<in> set (structured_of OpenSlidesChecker)"
    using find_structured_Some by blast
  then obtain k v where kv: "(k, v) \<in> set relationLists" "structuredField c pre suf = OpenSlidesChecker_entry k v"
    using structured_of_set OpenSlidesChecker_set by blast
  then show ?thesis
    using relationLists_ids by (auto simp: OpenSlidesChecker_entry_def Let_def list_all_iff split: if_splits)
qed

section \<open>Properties\<close>

text \<open>
  C13. \<^verbatim>\<open>Restrict\<close> keeps the keys of the data, in their order, and every value that is not nil
  afterwards belongs to a key that the permission service allows for the user.
\<close>

theorem Restrict_confidential:
  assumes "CheckFQFields perm uid (mkeys data) = Inr allowed" "Restrict perm r uid data = Inr data'"
  shows "mkeys data' = mkeys data \<and> (\<forall>k v. (k, Some v) \<in> set data' \<longrightarrow> mbool allowed k)"
proof -
  have loop: "restrict_loop perm r uid allowed data = Inr data'"
    using assms by (simp add: Restrict_def)
  have "mbool allowed k" if "(k, Some v) \<in> set data'" for k v
    using restrict_loop_value [OF loop that] by (cases "mbool allowed k") auto
  then show ?thesis
    using restrict_loop_keys [OF loop] by blast
qed

theorem Restrict_confidential_witness:
  "mkeys [(''user/1/name'', Some ''5''), (''user/1/password'', None)] =
     mkeys [(''user/1/name'', Some ''5''), (''user/1/password'', Some ''6'')] \<and>
   mbool [(''user/1/name'', True), (''user/1/password'', False)] ''user/1/name''"
proof -
  let ?perm = "MockPermission [''user/1/password'' \<mapsto> False] True"
  let ?data = "[(''user/1/name'', Some ''5''), (''user/1/password'', Some ''6'')]"
  have "CheckFQFields ?perm 1 (mkeys ?data) = Inr [(''user/1/name'', True), (''user/1/password'', False)]"
    by code_simp
  moreover have "Restrict ?perm (New_Restricter []) 1 ?data =
      Inr [(''user/1/name'', Some ''5''), (''user/1/password'', None)]"
    by code_simp
  ultimately show ?thesis
    using Restrict_confidential [of ?perm 1 ?data] by (metis list.set_intros(1))
qed

text \<open>
  C14. Noninterference: the values of keys that are not allowed have no influence on the result
  at all. Two data sets with the same keys that agree on the allowed keys give the same result,
  be it an error or the restricted data.
\<close>

theorem Restrict_noninterference:
  assumes "wf_map data" "mkeys data = mkeys data'"
    and "\<And>allowed k. CheckFQFields perm uid (mkeys data) = Inr allowed \<Longrightarrow> mbool allowed k \<Longrightarrow>
      map_of data k = map_of data' k"
  shows "Restrict perm r uid data = Restrict perm r uid data'"
  using assms(2) restrict_loop_agree [OF assms(2) _ assms(1)] assms(3)
  by (auto simp: Restrict_def split: sum.split)

theorem Restrict_noninterference_witness:
  "Restrict (MockPermission Map.empty False) (New_Restricter []) 1 [(''user/1/password'', Some ''5'')] =
   Restrict (MockPermission Map.empty False) (New_Restricter []) 1 [(''user/1/password'', Some ''6'')]"
proof (rule Restrict_noninterference)
  fix allowed k
  assume "CheckFQFields (MockPermission Map.empty False) 1 (mkeys [(''user/1/password'', Some ''5'')]) = Inr allowed"
    and "mbool allowed k"
  moreover have "CheckFQFields (MockPermission Map.empty False) 1 (mkeys [(''user/1/password'', Some ''5'')]) =
      Inr [(''user/1/password'', False)]"
    by code_simp
  ultimately show "map_of [(''user/1/password'', Some ''5'')] k = map_of [(''user/1/password'', Some ''6'')] k"
    by (auto simp: mbool_def split: if_splits)
qed (simp_all add: wf_map_def)

text \<open>
  C15. A relation list is reduced to exactly those ids of the original list whose objects the
  permission service allows, each of them once, for every order in which the answer of the
  service is visited.
\<close>

theorem relationList_Check_allowed:
  assumes "permission_check (CheckFQIDs perm uid) allow"
    and "unmarshal decode_ints (raw_bytes v) = Inr nums"
  shows "\<exists>bytes xs. Check perm (relationList model) uid key v = Inr (Some bytes) \<and>
    unmarshal decode_ints bytes = Inr xs \<and> distinct xs \<and>
    set xs = {i \<in> set nums. allow (model @ ''/'' @ Itoa i)}"
proof -
  obtain xs where xs: "relationList_Check perm model uid key v = Inr (Some (marshal_ints xs))" "distinct xs"
    "set xs = {i \<in> set nums. allow (model @ ''/'' @ Itoa i)}"
    using relationList_Check_filters [OF assms(1,2)] by blast
  moreover have "list_all int64_range xs"
    using xs(3) decode_ints_range [OF assms(2)] by (auto simp: list_all_iff)
  ultimately show ?thesis
    by (auto simp: unmarshal_marshal_ints)
qed

theorem relationList_Check_allowed_witness:
  "\<exists>bytes xs. Check (MockPermission [''group/2'' \<mapsto> False] True) (relationList ''group'') 1 ''user/1/group_ids'' (Some ''[1,2]'')
       = Inr (Some bytes) \<and> unmarshal decode_ints bytes = Inr xs \<and> distinct xs \<and> set xs = {1}"
proof -
  let ?perm = "MockPermission [''group/2'' \<mapsto> False] True"
  have perm: "permission_check (CheckFQIDs ?perm 1) (mock_allows [''group/2'' \<mapsto> False] True)"
    unfolding MockPermission_def permission.simps by (rule mock.permission_check_axioms)
  have "unmarshal decode_ints (marshal_ints [1, 2]) = Inr [1, 2]"
    by (rule unmarshal_marshal_ints) (simp add: int64_range_def)
  moreover have "marshal_ints [1, 2] = ''[1,2]''"
    by code_simp
  ultimately have "unmarshal decode_ints (raw_bytes (Some ''[1,2]'')) = Inr [1, 2]"
    by (simp add: raw_bytes_def)
  moreover have "{i \<in> set [1, 2]. mock_allows [''group/2'' \<mapsto> False] True (''group'' @ ''/'' @ Itoa i)} = {1}"
    by code_simp
  ultimately show ?thesis
    using relationList_Check_allowed [OF perm, of "Some ''[1,2]''" "[1, 2]" "''group''" "''user/1/group_ids''"] by simp
qed

text \<open>
  C16. The checker of a template field ignores the answer of the permission service: whatever the
  user may see, the checked value has all the replacements of the original value.
\<close>

theorem structuredField_Check_shows_all:
  assumes "permission_check (CheckFQFields perm uid) allow"
    and "unmarshal decode_strings (raw_bytes v) = Inr rs" "CHR ''$'' \<in> set key"
  shows "\<exists>xs. Check perm (structuredField c pre suf) uid key v = Inr (Some (marshal_strings xs)) \<and> set xs = set rs"
proof -
  let ?f = "\<lambda>r. replace_first CHR ''$'' r key"
  obtain p s where "key = p @ CHR ''$'' # s" "CHR ''$'' \<notin> set p"
    using split_list_first [OF assms(3)] by blast
  then have "inj ?f"
    by (auto intro!: injI simp: replace_first_at)
  obtain m where m: "CheckFQFields perm uid (map ?f rs) = Inr m" "fst ` set m = set (map ?f rs)"
    using permission_check.check_answers [OF assms(1)] by blast
  have "set (map (lookup_or [] (zip (map ?f rs) rs)) (mkeys m)) = lookup_or [] (zip (map ?f rs) rs) ` ?f ` set rs"
    by (simp only: set_map m(2))
  also have "\<dots> = set rs"
    using lookup_or_zip [OF \<open>inj ?f\<close>] by (simp add: image_image)
  finally show ?thesis
    using m(1) assms(2) by (auto simp: structuredField_Check_def Let_def)
qed

theorem structuredField_Check_shows_all_witness:
  "\<exists>xs. Check (MockPermission Map.empty False) (structuredField (relationList ''group'') ''user/group_'' ''_ids'') 1
       ''user/1/group_$_ids'' (Some (marshal_strings [''4''])) = Inr (Some (marshal_strings xs)) \<and> set xs = {''4''}"
proof -
  let ?perm = "MockPermission Map.empty False"
  have perm: "permission_check (CheckFQFields ?perm 1) (mock_allows Map.empty False)"
    unfolding MockPermission_def permission.simps by (rule mock.permission_check_axioms)
  have "unmarshal decode_strings (raw_bytes (Some (marshal_strings [''4'']))) = Inr [''4'']"
    by (simp add: raw_bytes_def unmarshal_marshal_strings is_ascii_def in_range_def)
  then show ?thesis
    using structuredField_Check_shows_all [OF perm, of "Some (marshal_strings [''4''])" "[''4'']" "''user/1/group_$_ids''"]
    by simp
qed

end
