(* ===== verification/Autoupdate.thy ===== *)
theory Autoupdate
  imports Keysbuilder Datastore Restrict
begin

text \<open>
  The service of \<^verbatim>\<open>internal/autoupdate\<close>: \<^verbatim>\<open>RestrictedData\<close> and the change
  listener (\<^verbatim>\<open>autoupdate.go\<close>), the filter for values a client has already seen
  (\<^verbatim>\<open>filter.go\<close>) and \<^verbatim>\<open>Connection.Next\<close> (\<^verbatim>\<open>connection.go\<close>).

  The topic library and the hash function of the Go runtime are parameters. A topic has numbered
  updates; \<^verbatim>\<open>Receive\<close> waits for updates after a number and gives the keys that have
  changed since.
\<close>

section \<open>Filter\<close>

text \<open>\<open>hash\<close> is \<^verbatim>\<open>maphash\<close> with the seed of the filter.\<close>

type_synonym history = "string \<rightharpoonup> 64 word"

text \<open>The entries that stay in the data, and the new history.\<close>

fun filter_data :: "(string \<Rightarrow> 64 word) \<Rightarrow> data \<Rightarrow> history \<Rightarrow> data \<times> history" where
  "filter_data hash [] h = ([], h)"
| "filter_data hash ((key, value) # data) h =
     (if raw_empty value then
        (let (data', h') = filter_data hash data (h(key \<mapsto> 0)) in ((key, value) # data', h'))
      else
        (let new = hash (raw_bytes value)
         in if h key = Some new then filter_data hash data h
            else (let (data', h') = filter_data hash data (h(key \<mapsto> new)) in ((key, value) # data', h'))))"

section \<open>Restricted data\<close>

type_synonym ('s, 'w) world = "'s datastore \<times> 'w"

definition RestrictedData :: "'w http_client \<Rightarrow> permission \<Rightarrow> restricter \<Rightarrow> ('s, 'w) world provider" where
  "RestrictedData http perm r uid keys dw =
     (case Get http keys (fst dw) (snd dw) of
        (Inl e, d, w) \<Rightarrow>
          (Inl (EWrap (''get values for keys `'' @ fmt_strings keys @ ''` from datastore: '') e), (d, w))
      | (Inr values, d, w) \<Rightarrow>
          (case Restrict perm r uid (mput_all (zip keys values) []) of
             Inl e \<Rightarrow> (Inl (EWrap ''restrict data: '' e), (d, w))
           | Inr data \<Rightarrow> (Inr data, (d, w))))"

text \<open>The listener that \<^verbatim>\<open>New\<close> registers: the keys of an update go to the topic.\<close>

definition publish_listener :: "(string list \<Rightarrow> 's \<Rightarrow> 's) \<Rightarrow> data \<Rightarrow> 's \<Rightarrow> goerror option \<times> 's" where
  "publish_listener publish data st = (None, publish (mkeys data) st)"

definition New_Autoupdate :: "(string list \<Rightarrow> 's \<Rightarrow> 's) \<Rightarrow> 's datastore \<Rightarrow> 's datastore" where
  "New_Autoupdate publish d = RegisterChangeListener (publish_listener publish) d"

text \<open>
  \<^verbatim>\<open>pruneTopic\<close>: on every tick the topic forgets what is older than ten minutes, until
  the service is closed. Times are in nanoseconds, as in the package \<^verbatim>\<open>time\<close>.
\<close>

definition pruneTime :: int where
  "pruneTime = 10 * 60 * 1000000000"

datatype prune_event = Tick int | Closed

fun pruneTopic :: "(int \<Rightarrow> 's \<Rightarrow> 's) \<Rightarrow> prune_event list \<Rightarrow> 's \<Rightarrow> 's" where
  "pruneTopic prune [] st = st"
| "pruneTopic prune (Closed # es) st = st"
| "pruneTopic prune (Tick now # es) st = pruneTopic prune es (prune (now - pruneTime) st)"

section \<open>Connection\<close>

record 'w topic =
  LastID :: "'w \<Rightarrow> 64 word"
  Receive :: "64 word \<Rightarrow> 'w \<Rightarrow> (64 word \<times> string list \<times> goerror option) \<times> 'w"

text \<open>The interface \<^verbatim>\<open>KeysBuilder\<close>, on a state \<open>'k\<close> of the builder.\<close>

record ('k, 'w) keys_builder =
  kb_Update :: "'k \<Rightarrow> 'w \<Rightarrow> (goerror option \<times> 'k) \<times> 'w"
  kb_Keys :: "'k \<Rightarrow> string list"

definition Builder_ops :: "'w provider \<Rightarrow> (process \<Rightarrow> process) \<Rightarrow> (builder, 'w) keys_builder" where
  "Builder_ops rd ord = \<lparr>kb_Update = Builder_Update rd ord, kb_Keys = Builder_Keys\<rparr>"

definition Simple_ops :: "(simple, 'w) keys_builder" where
  "Simple_ops = \<lparr>kb_Update = (\<lambda>s w. ((Simple_Update s, s), w)), kb_Keys = Simple_Keys\<rparr>"

text \<open>\<open>conn_filter = None\<close>: \<^verbatim>\<open>Next\<close> was not called yet.\<close>

record 'k connection =
  conn_uid :: int
  conn_kb :: 'k
  conn_tid :: "64 word"
  conn_filter :: "history option"

definition Connect :: "int \<Rightarrow> 'k \<Rightarrow> 64 word \<Rightarrow> 'k connection" where
  "Connect userID kb tid = \<lparr>conn_uid = userID, conn_kb = kb, conn_tid = tid, conn_filter = None\<rparr>"

definition keysDiff :: "string list \<Rightarrow> string list \<Rightarrow> string list" where
  "keysDiff old new = filter (\<lambda>key. key \<notin> set old) new"

definition Next_first :: "'w provider \<Rightarrow> 'w topic \<Rightarrow> ('k, 'w) keys_builder \<Rightarrow> (string \<Rightarrow> 64 word) \<Rightarrow> 'k connection \<Rightarrow> 'w
    \<Rightarrow> (goerror + data) \<times> 'k connection \<times> 'w" where
  "Next_first rd tp kbo hash c w =
     (let c1 = c\<lparr>conn_filter := Some Map.empty, conn_tid := (if conn_tid c = 0 then LastID tp w else conn_tid c)\<rparr>
      in (case rd (conn_uid c) (kb_Keys kbo (conn_kb c)) w of
            (Inl e, w') \<Rightarrow> (Inl (EWrap ''get first time restricted data: '' e), c1, w')
          | (Inr data, w') \<Rightarrow>
              (let (data', h) = filter_data hash (filter (\<lambda>(k, v). \<not> raw_empty v) data) Map.empty
               in (Inr data', c1\<lparr>conn_filter := Some h\<rparr>, w'))))"

text \<open>\<open>c.filter.history[k] == 0\<close>: also for a key that is not in the map.\<close>

definition history_zero :: "history \<Rightarrow> string \<Rightarrow> bool" where
  "history_zero h k \<longleftrightarrow> h k = None \<or> h k = Some 0"

text \<open>The end of \<^verbatim>\<open>Next\<close>: load the keys and remove what the client has already.\<close>

definition Next_send :: "'w provider \<Rightarrow> (string \<Rightarrow> 64 word) \<Rightarrow> history \<Rightarrow> string list \<Rightarrow> 'k connection \<Rightarrow> 'w
    \<Rightarrow> (goerror + data) \<times> 'k connection \<times> 'w" where
  "Next_send rd hash h keys c w =
     (case rd (conn_uid c) keys w of
        (Inl e, w') \<Rightarrow> (Inl (EWrap ''restrict data: '' e), c, w')
      | (Inr data, w') \<Rightarrow>
          (let data1 = filter (\<lambda>(k, v). \<not> (raw_empty v \<and> history_zero h k)) data;
               (data2, h') = filter_data hash data1 h
           in (Inr data2, c\<lparr>conn_filter := Some h'\<rparr>, w')))"

text \<open>
  One pass through \<^verbatim>\<open>Next\<close> after the first one: \<open>None\<close> means that there is no data
  and \<^verbatim>\<open>Next\<close> is called again.
\<close>

definition Next_pass :: "'w provider \<Rightarrow> 'w topic \<Rightarrow> ('k, 'w) keys_builder \<Rightarrow> (string \<Rightarrow> 64 word) \<Rightarrow> history
    \<Rightarrow> 'k connection \<Rightarrow> 'w \<Rightarrow> (goerror + data) option \<times> 'k connection \<times> 'w" where
  "Next_pass rd tp kbo hash h c w =
     (case Receive tp (conn_tid c) w of
        ((tid, changedKeys, Some e), w1) \<Rightarrow> (Some (Inl (EWrap ''get updated keys: '' e)), c\<lparr>conn_tid := tid\<rparr>, w1)
      | ((tid, changedKeys, None), w1) \<Rightarrow>
          (let oldKeys = kb_Keys kbo (conn_kb c)
           in (case kb_Update kbo (conn_kb c) w1 of
                 ((Some e, kb), w2) \<Rightarrow>
                   (Some (Inl (EWrap ''update keysbuilder: '' e)), c\<lparr>conn_tid := tid, conn_kb := kb\<rparr>, w2)
               | ((None, kb), w2) \<Rightarrow>
                   (let c2 = c\<lparr>conn_tid := tid, conn_kb := kb\<rparr>;
                        keys = keysDiff oldKeys (kb_Keys kbo kb) @ filter (\<lambda>k. k \<in> set changedKeys) oldKeys
                    in if keys = [] then (None, c2, w2)
                       else map_prod Some id (Next_send rd hash h keys c2 w2)))))"

text \<open>
  \<^verbatim>\<open>Next\<close>. It may wait forever, when no update ever concerns the client; \<open>n\<close> bounds the
  number of passes, and without a result in that many passes the value is \<open>None\<close>.
\<close>

fun Next :: "nat \<Rightarrow> 'w provider \<Rightarrow> 'w topic \<Rightarrow> ('k, 'w) keys_builder \<Rightarrow> (string \<Rightarrow> 64 word) \<Rightarrow> 'k connection \<Rightarrow> 'w
    \<Rightarrow> ((goerror + data) \<times> 'k connection \<times> 'w) option" where
  "Next 0 rd tp kbo hash c w = None"
| "Next (Suc n) rd tp kbo hash c w =
     (case conn_filter c of
        None \<Rightarrow> Some (Next_first rd tp kbo hash c w)
      | Some h \<Rightarrow>
          (case Next_pass rd tp kbo hash h c w of
             (Some r, c', w') \<Rightarrow> Some (r, c', w')
           | (None, c', w') \<Rightarrow> Next n rd tp kbo hash c' w'))"

section \<open>The filter refines a memory of the last values\<close>

text \<open>
  What the client has: the last value of every key. Empty and missing values are the same.
\<close>

type_synonym view = "string \<Rightarrow> raw"

definition same :: "raw \<Rightarrow> raw \<Rightarrow> bool" where
  "same v v' \<longleftrightarrow> v = v' \<or> raw_empty v \<and> raw_empty v'"

definition apply_data :: "data \<Rightarrow> view \<Rightarrow> view" where
  "apply_data data view k = (case map_of data k of Some v \<Rightarrow> v | None \<Rightarrow> view k)"

text \<open>
  The history has the hash of the value the client has; \<open>V\<close> are the values that occur, on which
  the hash has no collision.
\<close>

definition hash_ok :: "(string \<Rightarrow> 64 word) \<Rightarrow> string set \<Rightarrow> bool" where
  "hash_ok hash V \<longleftrightarrow> inj_on hash V \<and> 0 \<notin> hash ` V"

definition remembers_key :: "(string \<Rightarrow> 64 word) \<Rightarrow> string set \<Rightarrow> 64 word option \<Rightarrow> raw \<Rightarrow> bool" where
  "remembers_key hash V x v \<longleftrightarrow>
     (if x = None \<or> x = Some 0 then raw_empty v
      else \<exists>b \<in> V. v = Some b \<and> b \<noteq> [] \<and> x = Some (hash b))"

definition remembers :: "(string \<Rightarrow> 64 word) \<Rightarrow> string set \<Rightarrow> history \<Rightarrow> view \<Rightarrow> bool" where
  "remembers hash V h view \<longleftrightarrow> (\<forall>k. remembers_key hash V (h k) (view k))"

definition values_in :: "string set \<Rightarrow> data \<Rightarrow> bool" where
  "values_in V data \<longleftrightarrow> (\<forall>(k, v) \<in> set data. raw_empty v \<or> raw_bytes v \<in> V)"

lemma same_refl [simp]: "same v v"
  by (simp add: same_def)

lemma apply_data_Nil [simp]: "apply_data [] view = view"
  by (simp add: apply_data_def fun_eq_iff)

lemma apply_data_notin: "k \<notin> fst ` set data \<Longrightarrow> apply_data data view k = view k"
  by (simp add: apply_data_def map_of_eq_None_iff [THEN iffD2])

lemma apply_data_Cons:
  "k \<notin> fst ` set data \<Longrightarrow> apply_data ((k, v) # data) view = apply_data data (view(k := v))"
  by (auto simp: apply_data_def fun_eq_iff map_of_eq_None_iff [THEN iffD2] split: option.split)

lemma remembers_upd:
  "remembers hash V h view \<Longrightarrow> remembers_key hash V x v \<Longrightarrow> remembers hash V (h(k := x)) (view(k := v))"
  by (simp add: remembers_def)

lemma remembers_key_empty: "raw_empty v \<Longrightarrow> remembers_key hash V (Some 0) v"
  by (simp add: remembers_key_def)

lemma remembers_key_value:
  "hash_ok hash V \<Longrightarrow> \<not> raw_empty v \<Longrightarrow> raw_bytes v \<in> V \<Longrightarrow> remembers_key hash V (Some (hash (raw_bytes v))) v"
  by (cases v) (auto simp: remembers_key_def hash_ok_def raw_empty_def raw_bytes_def)

lemma remembers_hit:
  assumes "remembers hash V h view" "hash_ok hash V" "\<not> raw_empty v" "raw_bytes v \<in> V"
  shows "h k = Some (hash (raw_bytes v)) \<longleftrightarrow> view k = v"
proof -
  obtain b where b: "v = Some b" "b \<noteq> []" "b \<in> V"
    using assms(3,4) by (cases v) (auto simp: raw_empty_def raw_bytes_def)
  have nz: "hash b \<noteq> 0" and inj: "\<And>b'. b' \<in> V \<Longrightarrow> hash b' = hash b \<Longrightarrow> b' = b"
    using assms(2) b(3) by (auto simp: hash_ok_def inj_on_def image_iff)
  show ?thesis
  proof (cases "history_zero h k")
    case True
    then have "raw_empty (view k)"
      using assms(1) by (auto simp: remembers_def remembers_key_def history_zero_def split: if_splits)
    then show ?thesis
      using True nz b by (auto simp: history_zero_def raw_empty_def raw_bytes_def)
  next
    case False
    then obtain b' where "b' \<in> V" "view k = Some b'" "h k = Some (hash b')"
      using assms(1) unfolding remembers_def remembers_key_def history_zero_def by metis
    then show ?thesis
      using b inj by (auto simp: raw_bytes_def)
  qed
qed

definition filtered :: "(string \<Rightarrow> 64 word) \<Rightarrow> string set \<Rightarrow> view \<Rightarrow> data \<Rightarrow> data \<Rightarrow> history \<Rightarrow> bool" where
  "filtered hash V view data data' h' \<longleftrightarrow>
     remembers hash V h' (apply_data data' view) \<and> set data' \<subseteq> set data \<and> wf_map data' \<and>
     (\<forall>(k, v) \<in> set data. same (apply_data data' view k) v) \<and>
     (\<forall>(k, v) \<in> set data'. raw_empty v \<or> view k \<noteq> v)"

lemma filteredD:
  assumes "filtered hash V view data data' h'"
  shows "remembers hash V h' (apply_data data' view)" "set data' \<subseteq> set data" "wf_map data'"
    "(k, v) \<in> set data \<Longrightarrow> same (apply_data data' view k) v"
    "(k, v) \<in> set data' \<Longrightarrow> raw_empty v \<or> view k \<noteq> v"
  using assms unfolding filtered_def by blast+

lemma filtered_keep:
  assumes "filtered hash V (view(k := v)) data data' h'" "k \<notin> fst ` set data" "raw_empty v \<or> view k \<noteq> v"
  shows "filtered hash V view ((k, v) # data) ((k, v) # data') h'"
proof -
  have k: "k \<notin> fst ` set data'"
    using assms(1,2) by (auto simp: filtered_def)
  have self: "apply_data data' (view(k := v)) k = v"
    using k by (simp add: apply_data_notin)
  note f = assms(1) [unfolded filtered_def]
  have new: "raw_empty v' \<or> view k' \<noteq> v'" if "(k', v') \<in> set data'" for k' v'
  proof -
    have "k' \<noteq> k" using k that by force
    then show ?thesis using f that by fastforce
  qed
  show ?thesis
    using f k assms(3) self new unfolding filtered_def apply_data_Cons [OF k] by (auto simp: wf_map_def)
qed

lemma filtered_skip:
  assumes "filtered hash V view data data' h'" "k \<notin> fst ` set data" "view k = v"
  shows "filtered hash V view ((k, v) # data) data' h'"
proof -
  have "apply_data data' view k = v"
    using assms by (subst apply_data_notin) (auto simp: filtered_def)
  with assms show ?thesis
    by (auto simp: filtered_def)
qed

lemma filter_data_filtered:
  assumes "wf_map data" "values_in V data" "hash_ok hash V" "remembers hash V h view"
    and "filter_data hash data h = (data', h')"
  shows "filtered hash V view data data' h'"
  using assms(1,2,4,5)
proof (induction data arbitrary: h view data')
  case Nil
  then show ?case by (auto simp: filtered_def)
next
  case (Cons kv data)
  obtain k v where kv: "kv = (k, v)" by (cases kv)
  have wf: "wf_map data" "k \<notin> fst ` set data" "values_in V data"
    using Cons.prems(1,2) kv by (auto simp: wf_map_def values_in_def)
  have v: "raw_empty v \<or> raw_bytes v \<in> V"
    using Cons.prems(2) kv by (auto simp: values_in_def)
  let ?h = "if raw_empty v then h(k \<mapsto> 0) else h(k \<mapsto> hash (raw_bytes v))"
  show ?case
  proof (cases "\<not> raw_empty v \<and> h k = Some (hash (raw_bytes v))")
    case True
    then have "filter_data hash data h = (data', h')" "view k = v"
      using Cons.prems(3,4) kv v remembers_hit [OF Cons.prems(3) assms(3)] by auto
    then show ?thesis
      using Cons.IH [OF wf(1,3) Cons.prems(3)] wf(2) kv by (simp add: filtered_skip)
  next
    case False
    then obtain data'' where d: "filter_data hash data ?h = (data'', h')" "data' = (k, v) # data''"
      using Cons.prems(4) kv by (auto simp: Let_def split: if_splits prod.splits)
    have "remembers hash V ?h (view(k := v))"
      using remembers_upd [OF Cons.prems(3)] remembers_key_empty remembers_key_value [OF assms(3)] v by auto
    from Cons.IH [OF wf(1,3) this d(1)] have "filtered hash V (view(k := v)) data data'' h'" .
    moreover have "raw_empty v \<or> view k \<noteq> v"
      using False v remembers_hit [OF Cons.prems(3) assms(3)] by auto
    ultimately show ?thesis
      using wf(2) kv d(2) by (simp add: filtered_keep)
  qed
qed

section \<open>What a client gets\<close>

text \<open>
  A client that applies the data of every \<^verbatim>\<open>Next\<close> to what it has. The provider answers from
  one snapshot of the data during one call of \<^verbatim>\<open>Next\<close>.
\<close>

definition look_in :: "string set \<Rightarrow> (string \<Rightarrow> raw) \<Rightarrow> bool" where
  "look_in V look \<longleftrightarrow> (\<forall>k. raw_empty (look k) \<or> raw_bytes (look k) \<in> V)"

lemma values_in_look:
  assumes "wf_map data" "look_in V look" "\<And>k. k \<in> fst ` set data \<Longrightarrow> mraw data k = look k"
  shows "values_in V data" "\<And>k v. (k, v) \<in> set data \<Longrightarrow> v = look k"
proof -
  show look: "v = look k" if "(k, v) \<in> set data" for k v
  proof -
    have "k \<in> fst ` set data" using that by force
    moreover have "map_of data k = Some v" using assms(1) that by (simp add: wf_map_def)
    ultimately show ?thesis using assms(3) [of k] by (simp add: mraw_def)
  qed
  show "values_in V data"
    using assms(2) look by (fastforce simp: values_in_def look_in_def)
qed

lemma wf_map_filter: "wf_map data \<Longrightarrow> wf_map (filter P data)"
  by (simp add: wf_map_def distinct_map_filter)

lemma values_in_filter: "values_in V data \<Longrightarrow> values_in V (filter P data)"
  by (auto simp: values_in_def)

lemma same_trans_empty: "raw_empty v \<Longrightarrow> raw_empty v' \<Longrightarrow> same v v'"
  by (simp add: same_def)

lemma remembers_zero: "remembers hash V h view \<Longrightarrow> history_zero h k \<Longrightarrow> raw_empty (view k)"
  unfolding remembers_def remembers_key_def history_zero_def by metis

lemma remembers_nonzero: "remembers hash V h view \<Longrightarrow> \<not> history_zero h k \<Longrightarrow> \<not> raw_empty (view k)"
  unfolding remembers_def remembers_key_def history_zero_def raw_empty_def by (metis option.distinct(1) option.inject)

context snapshot_provider
begin

lemma answer:
  assumes "good w" "look_in V look" "\<forall>k \<in> set keys. valid k"
  obtains data w' where "rd uid keys w = (Inr data, w')" "good w'" "wf_map data" "values_in V data"
    "\<And>k v. (k, v) \<in> set data \<longleftrightarrow> k \<in> set keys \<and> v = look k"
proof -
  obtain data w' where rd: "rd uid keys w = (Inr data, w')" "good w'" "wf_map data" "fst ` set data = set keys"
    "\<forall>k \<in> set keys. mraw data k = look k"
    using provides [OF assms(1,3)] by blast
  have mraw: "mraw data k = look k" if "k \<in> fst ` set data" for k
    using that rd(4,5) by simp
  have look: "v = look k" if "(k, v) \<in> set data" for k v
    using values_in_look(2) [OF rd(3) assms(2) mraw that] .
  have "(k, v) \<in> set data \<longleftrightarrow> k \<in> set keys \<and> v = look k" for k v
  proof
    assume kv: "(k, v) \<in> set data"
    then have "k \<in> fst ` set data" by force
    then show "k \<in> set keys \<and> v = look k" using rd(4) look [OF kv] by simp
  next
    assume "k \<in> set keys \<and> v = look k"
    moreover from this obtain v' where "(k, v') \<in> set data"
      using rd(4) by force
    ultimately show "(k, v) \<in> set data"
      using look [of k v'] by simp
  qed
  with rd(1-3) values_in_look(1) [OF rd(3) assms(2) mraw] that show ?thesis by blast
qed

lemma Next_first_correct:
  assumes "good w" "conn_uid c = uid" "hash_ok hash V" "look_in V look"
    "\<forall>k \<in> set (kb_Keys kbo (conn_kb c)). valid k"
  obtains data h t w' where
    "Next_first rd tp kbo hash c w = (Inr data, c\<lparr>conn_filter := Some h, conn_tid := t\<rparr>, w')" "good w'"
    "remembers hash V h (apply_data data (\<lambda>_. None))" "wf_map data"
    "\<And>k. k \<in> set (kb_Keys kbo (conn_kb c)) \<Longrightarrow> same (apply_data data (\<lambda>_. None) k) (look k)"
    "\<And>k v. (k, v) \<in> set data \<Longrightarrow> k \<in> set (kb_Keys kbo (conn_kb c)) \<and> v = look k \<and> \<not> raw_empty v"
proof -
  let ?keys = "kb_Keys kbo (conn_kb c)"
  obtain data w' where rd: "rd uid ?keys w = (Inr data, w')" "good w'" "wf_map data" "values_in V data"
    and data: "\<And>k v. (k, v) \<in> set data \<longleftrightarrow> k \<in> set ?keys \<and> v = look k"
    using answer [OF assms(1,4,5)] by blast
  let ?data1 = "filter (\<lambda>(k, v). \<not> raw_empty v) data"
  obtain data' h where f: "filter_data hash ?data1 Map.empty = (data', h)"
    by (cases "filter_data hash ?data1 Map.empty")
  have "remembers hash V Map.empty (\<lambda>_. None)"
    by (simp add: remembers_def remembers_key_def raw_empty_def)
  note filt = filteredD [OF filter_data_filtered [OF wf_map_filter [OF rd(3)] values_in_filter [OF rd(4)] assms(3) this f]]
  have sent: "k \<in> set ?keys \<and> v = look k \<and> \<not> raw_empty v" if "(k, v) \<in> set data'" for k v
    using subsetD [OF filt(2) that] by (auto simp: data)
  have sees: "same (apply_data data' (\<lambda>_. None) k) (look k)" if "k \<in> set ?keys" for k
  proof (cases "raw_empty (look k)")
    case True
    then have "k \<notin> fst ` set data'"
      using sent by fastforce
    then show ?thesis
      using True by (simp add: apply_data_notin same_def raw_empty_def)
  next
    case False
    then have "(k, look k) \<in> set ?data1"
      using that data by simp
    then show ?thesis by (rule filt(4))
  qed
  have "Next_first rd tp kbo hash c w =
      (Inr data', c\<lparr>conn_filter := Some h, conn_tid := (if conn_tid c = 0 then LastID tp w else conn_tid c)\<rparr>, w')"
    using rd(1) f assms(2) by (simp add: Next_first_def Let_def)
  then show ?thesis
    using that rd(2) filt(1,3) sees sent by blast
qed

lemma Next_first_exact:
  assumes "good w" "conn_uid c = uid" "hash_ok hash V" "look_in V look"
    "\<forall>k \<in> set (kb_Keys kbo (conn_kb c)). valid k"
  obtains data h t w' where
    "Next_first rd tp kbo hash c w = (Inr data, c\<lparr>conn_filter := Some h, conn_tid := t\<rparr>, w')" "good w'"
    "remembers hash V h (apply_data data (\<lambda>_. None))" "wf_map data"
    "\<And>k x. (k, x) \<in> set data \<longleftrightarrow> k \<in> set (kb_Keys kbo (conn_kb c)) \<and> x = look k \<and> \<not> raw_empty x"
    "\<And>k. k \<in> set (kb_Keys kbo (conn_kb c)) \<Longrightarrow> same (apply_data data (\<lambda>_. None) k) (look k)"
proof -
  obtain data h t w' where d:
    "Next_first rd tp kbo hash c w = (Inr data, c\<lparr>conn_filter := Some h, conn_tid := t\<rparr>, w')" "good w'"
    "remembers hash V h (apply_data data (\<lambda>_. None))" "wf_map data"
    and sees: "\<And>k. k \<in> set (kb_Keys kbo (conn_kb c)) \<Longrightarrow> same (apply_data data (\<lambda>_. None) k) (look k)"
    and sent: "\<And>k v. (k, v) \<in> set data \<Longrightarrow> k \<in> set (kb_Keys kbo (conn_kb c)) \<and> v = look k \<and> \<not> raw_empty v"
    by (rule Next_first_correct [OF assms]) blast
  have "(k, look k) \<in> set data" if "k \<in> set (kb_Keys kbo (conn_kb c))" "\<not> raw_empty (look k)" for k
  proof -
    have "apply_data data (\<lambda>_. None) k = look k"
      using sees [OF that(1)] that(2) by (simp add: same_def)
    with that(2) have "map_of data k = Some (look k)"
      by (cases "map_of data k") (simp_all add: apply_data_def raw_empty_def)
    then show ?thesis by (rule map_of_SomeD)
  qed
  with sent have "(k, x) \<in> set data \<longleftrightarrow> k \<in> set (kb_Keys kbo (conn_kb c)) \<and> x = look k \<and> \<not> raw_empty x" for k x
    by blast
  with d sees show ?thesis
    by (intro that)
qed

lemma Next_send_correct:
  assumes "good w" "conn_uid c = uid" "hash_ok hash V" "look_in V look" "remembers hash V h view"
    "\<forall>k \<in> set keys. valid k"
  obtains data h' w' where
    "Next_send rd hash h keys c w = (Inr data, c\<lparr>conn_filter := Some h'\<rparr>, w')" "good w'"
    "remembers hash V h' (apply_data data view)" "wf_map data"
    "\<And>k. k \<in> set keys \<Longrightarrow> same (apply_data data view k) (look k)"
    "\<And>k v. (k, v) \<in> set data \<Longrightarrow> k \<in> set keys \<and> v = look k \<and> \<not> same v (view k)"
proof -
  obtain data w' where rd: "rd uid keys w = (Inr data, w')" "good w'" "wf_map data" "values_in V data"
    and data: "\<And>k v. (k, v) \<in> set data \<longleftrightarrow> k \<in> set keys \<and> v = look k"
    using answer [OF assms(1,4,6)] by blast
  let ?data1 = "filter (\<lambda>(k, v). \<not> (raw_empty v \<and> history_zero h k)) data"
  obtain data' h' where f: "filter_data hash ?data1 h = (data', h')"
    by (cases "filter_data hash ?data1 h")
  note filt = filteredD [OF filter_data_filtered [OF wf_map_filter [OF rd(3)] values_in_filter [OF rd(4)] assms(3,5) f]]
  have sub: "k \<in> set keys \<and> v = look k \<and> \<not> (raw_empty v \<and> history_zero h k)" if "(k, v) \<in> set data'" for k v
    using subsetD [OF filt(2) that] by (auto simp: data)
  have sees: "same (apply_data data' view k) (look k)" if "k \<in> set keys" for k
  proof (cases "raw_empty (look k) \<and> history_zero h k")
    case True
    then have "k \<notin> fst ` set data'"
      using sub by fastforce
    then show ?thesis
      using True remembers_zero [OF assms(5)] by (simp add: apply_data_notin same_trans_empty)
  next
    case False
    then have "(k, look k) \<in> set ?data1"
      using that data by simp
    then show ?thesis by (rule filt(4))
  qed
  have new: "\<not> same v (view k)" if kv: "(k, v) \<in> set data'" for k v
  proof (cases "raw_empty v")
    case True
    then have "\<not> history_zero h k"
      using sub [OF kv] by simp
    then show ?thesis
      using True remembers_nonzero [OF assms(5)] by (auto simp: same_def)
  next
    case False
    then show ?thesis
      using filt(5) [OF kv] by (auto simp: same_def)
  qed
  have "Next_send rd hash h keys c w = (Inr data', c\<lparr>conn_filter := Some h'\<rparr>, w')"
    using rd(1) f assms(2) by (simp add: Next_send_def Let_def)
  then show ?thesis
    using that rd(2) filt(1,3) sees new sub by blast
qed

text \<open>
  A pass of \<^verbatim>\<open>Next\<close>. Before it, the client has the values of the snapshot \<open>old\<close>
  for its keys; \<^verbatim>\<open>Receive\<close> returns all keys whose value has changed since.
\<close>

lemma Next_pass_correct:
  assumes "Receive tp (conn_tid c) w = ((tid, changed, None), w1)"
    and "kb_Update kbo (conn_kb c) w1 = ((None, kb), w2)" "good w2"
    and "\<forall>k \<in> set (kb_Keys kbo (conn_kb c)) \<union> set (kb_Keys kbo kb). valid k"
    and "conn_uid c = uid" "hash_ok hash V" "look_in V look"
    and "remembers hash V h view" "conn_filter c = Some h"
    and "\<forall>k \<in> set (kb_Keys kbo (conn_kb c)). same (view k) (old k)"
    and "\<forall>k. look k \<noteq> old k \<longrightarrow> k \<in> set changed"
  obtains r data h' w' where
    "Next_pass rd tp kbo hash h c w = (r, c\<lparr>conn_tid := tid, conn_kb := kb, conn_filter := Some h'\<rparr>, w')"
    "r = None \<and> data = [] \<or> r = Some (Inr data)" "good w'" "wf_map data"
    "remembers hash V h' (apply_data data view)"
    "\<And>k. k \<in> set (kb_Keys kbo (conn_kb c)) \<union> set (kb_Keys kbo kb) \<Longrightarrow> same (apply_data data view k) (look k)"
    "\<And>k v. (k, v) \<in> set data \<Longrightarrow> v = look k \<and> \<not> same v (view k)"
proof -
  let ?old = "kb_Keys kbo (conn_kb c)"
  let ?keys = "keysDiff ?old (kb_Keys kbo kb) @ filter (\<lambda>k. k \<in> set changed) ?old"
  let ?c = "c\<lparr>conn_tid := tid, conn_kb := kb\<rparr>"
  have keys: "set ?keys \<subseteq> set ?old \<union> set (kb_Keys kbo kb)"
    by (auto simp: keysDiff_def)
  have kept: "same (view k) (look k)" if "k \<in> set ?old \<union> set (kb_Keys kbo kb)" "k \<notin> set ?keys" for k
  proof -
    have "k \<in> set ?old" "k \<notin> set changed"
      using that by (auto simp: keysDiff_def)
    then show ?thesis
      using assms(10,11) by metis
  qed
  have pass: "Next_pass rd tp kbo hash h c w =
      (if ?keys = [] then (None, ?c, w2) else map_prod Some id (Next_send rd hash h ?keys ?c w2))"
    by (simp add: Next_pass_def assms(1,2) Let_def)
  show ?thesis
  proof (cases "?keys = []")
    case True
    have c: "?c = c\<lparr>conn_tid := tid, conn_kb := kb, conn_filter := Some h\<rparr>"
      using assms(9) by simp
    have "same (view k) (look k)" if "k \<in> set ?old \<union> set (kb_Keys kbo kb)" for k
      using kept [OF that] unfolding True by simp
    then show ?thesis
      using that [of None h w2 "[]", simplified] pass True c assms(3,8) by (simp add: wf_map_def)
  next
    case False
    have valid: "\<forall>k \<in> set ?keys. valid k"
      using keys assms(4) by blast
    have uid: "conn_uid ?c = uid"
      using assms(5) by simp
    obtain data h' w' where d: "Next_send rd hash h ?keys ?c w2 = (Inr data, ?c\<lparr>conn_filter := Some h'\<rparr>, w')"
      "good w'" "remembers hash V h' (apply_data data view)" "wf_map data"
      and sees: "\<And>k. k \<in> set ?keys \<Longrightarrow> same (apply_data data view k) (look k)"
      and new: "\<And>k v. (k, v) \<in> set data \<Longrightarrow> k \<in> set ?keys \<and> v = look k \<and> \<not> same v (view k)"
      by (rule Next_send_correct [OF assms(3) uid assms(6,7,8) valid]) blast
    have "same (apply_data data view k) (look k)" if "k \<in> set ?old \<union> set (kb_Keys kbo kb)" for k
    proof (cases "k \<in> set ?keys")
      case False
      then have "k \<notin> fst ` set data"
        using new by fastforce
      then show ?thesis
        using kept [OF that False] by (simp add: apply_data_notin)
    qed (rule sees)
    then show ?thesis
      using that [of "Some (Inr data)" h' w' data] pass False d new by simp
  qed
qed

end

section \<open>RestrictedData is a snapshot provider\<close>

text \<open>
  \<open>v\<close> is the data in the database, \<open>allow\<close> the keys the user may see. Through
  \<^verbatim>\<open>RestrictedData\<close> the user sees the snapshot \<open>restricted_look\<close>; a key is readable
  when the datastore accepts it and the restricter has no error on it.
\<close>

definition restricted_look :: "permission \<Rightarrow> restricter \<Rightarrow> int \<Rightarrow> (string \<Rightarrow> bool) \<Rightarrow> (string \<Rightarrow> raw) \<Rightarrow> string \<Rightarrow> raw" where
  "restricted_look perm r uid allow v k =
     (case restrict_value perm r uid (allow k) k (null_to_nil (v k)) of Inr nv \<Rightarrow> nv | Inl e \<Rightarrow> None)"

definition readable :: "permission \<Rightarrow> restricter \<Rightarrow> int \<Rightarrow> (string \<Rightarrow> bool) \<Rightarrow> (string \<Rightarrow> bool) \<Rightarrow> (string \<Rightarrow> raw) \<Rightarrow> string \<Rightarrow> bool" where
  "readable perm r uid accepts allow v k \<longleftrightarrow> accepts k \<and> \<not> isl (restrict_value perm r uid (allow k) k (null_to_nil (v k)))"

definition service_good :: "'w http_client \<Rightarrow> permission \<Rightarrow> int \<Rightarrow> (string \<Rightarrow> bool) \<Rightarrow> (string \<Rightarrow> bool) \<Rightarrow> (string \<Rightarrow> raw) \<Rightarrow> ('w \<Rightarrow> bool)
    \<Rightarrow> ('s, 'w) world \<Rightarrow> bool" where
  "service_good http perm uid accepts allow v good dw \<longleftrightarrow>
     serves http (url (fst dw)) accepts good v \<and> good (snd dw) \<and> in_sync v (cache_of (fst dw)) \<and>
     permission_check (CheckFQFields perm uid) allow"

lemma readable_value:
  "readable perm r uid accepts allow v k \<Longrightarrow>
    restrict_value perm r uid (allow k) k (null_to_nil (v k)) = Inr (restricted_look perm r uid allow v k)"
  by (auto simp: readable_def restricted_look_def split: sum.split)

lemma zip_map_graph: "zip ks (map f ks) = map (\<lambda>k. (k, f k)) ks"
  by (induction ks) simp_all

lemma mput_all_zip:
  "wf_map (mput_all (zip ks (map f ks)) [])" "set (mput_all (zip ks (map f ks)) []) = (\<lambda>k. (k, f k)) ` set ks"
proof -
  show "wf_map (mput_all (zip ks (map f ks)) [])"
    by (rule wf_map_mput_all) simp
  have "set (mput_all (map (\<lambda>k. (k, f k)) ks) []) = set (map (\<lambda>k. (k, f k)) ks) \<union> set []"
    by (rule set_mput_all_functional) auto
  then show "set (mput_all (zip ks (map f ks)) []) = (\<lambda>k. (k, f k)) ` set ks"
    by (simp add: zip_map_graph)
qed

lemma wf_map_map_values: "wf_map data \<Longrightarrow> wf_map (map (\<lambda>(k, v). (k, g k v)) data)"
  by (simp add: wf_map_def case_prod_beta comp_def)

lemma RestrictedData_provides:
  assumes "service_good http perm uid accepts allow v good dw" "\<forall>k \<in> set ks. readable perm r uid accepts allow v k"
  shows "\<exists>data dw'. RestrictedData http perm r uid ks dw = (Inr data, dw') \<and>
    service_good http perm uid accepts allow v good dw' \<and> wf_map data \<and> fst ` set data = set ks \<and>
    (\<forall>k \<in> set ks. mraw data k = restricted_look perm r uid allow v k)"
proof -
  let ?look = "restricted_look perm r uid allow v"
  obtain d w where dw: "dw = (d, w)" by (cases dw)
  have good: "serves http (url d) accepts good v" "good w" "in_sync v (cache_of d)" "permission_check (CheckFQFields perm uid) allow"
    using assms(1) by (simp_all add: service_good_def dw)
  have keys: "\<forall>k \<in> set ks. accepts k"
    using assms(2) by (simp add: readable_def)
  obtain c w' where get: "Get http ks d w = (Inr (map (\<lambda>k. null_to_nil (v k)) ks), d\<lparr>cache_of := c\<rparr>, w')"
    "in_sync v c" "good w'"
    using Get_in_sync [OF good(1-3) keys] by blast
  let ?m = "mput_all (zip ks (map (\<lambda>k. null_to_nil (v k)) ks)) []"
  let ?data = "map (\<lambda>(k, x). (k, ?look k)) ?m"
  have m: "wf_map ?m" "set ?m = (\<lambda>k. (k, null_to_nil (v k))) ` set ks"
    by (rule mput_all_zip)+
  have "restrict_value perm r uid (allow k) k x = Inr (?look k)" if "(k, x) \<in> set ?m" for k x
    using that assms(2) readable_value unfolding m(2) by fastforce
  then have "Restrict perm r uid ?m = Inr ?data"
    by (rule Restrict_pointwise [OF good(4), where g = "\<lambda>k x. ?look k"])
  then have "RestrictedData http perm r uid ks dw = (Inr ?data, (d\<lparr>cache_of := c\<rparr>, w'))"
    using get(1) by (simp add: RestrictedData_def dw)
  moreover have "service_good http perm uid accepts allow v good (d\<lparr>cache_of := c\<rparr>, w')"
    using good get(2,3) by (simp add: service_good_def)
  moreover have wf: "wf_map ?data"
    using wf_map_map_values [OF m(1), of "\<lambda>k x. ?look k"] .
  moreover have data: "set ?data = (\<lambda>k. (k, ?look k)) ` set ks"
    unfolding set_map m(2) by (simp add: image_image)
  moreover have "mraw ?data k = ?look k" if "k \<in> set ks" for k
  proof -
    have "(k, ?look k) \<in> set ?data" using that unfolding data by simp
    then have "map_of ?data k = Some (?look k)"
      using wf by (simp add: wf_map_def)
    then show ?thesis by (simp add: mraw_def)
  qed
  ultimately show ?thesis
    by (metis (no_types, lifting) fst_conv image_cong image_ident image_image)
qed

interpretation restricted: snapshot_provider "RestrictedData http perm r" uid "service_good http perm uid accepts allow v good"
    "readable perm r uid accepts allow v" "restricted_look perm r uid allow v"
  for http perm r uid accepts allow v good
  by unfold_locales (rule RestrictedData_provides)

section \<open>Properties\<close>

text \<open>The filter without hashes: it compares with the last value of the key itself.\<close>

fun filter_reference :: "data \<Rightarrow> view \<Rightarrow> data \<times> view" where
  "filter_reference [] view = ([], view)"
| "filter_reference ((k, v) # data) view =
     (if \<not> raw_empty v \<and> view k = v then filter_reference data view
      else (let (data', view') = filter_reference data (view(k := v)) in ((k, v) # data', view')))"

text \<open>
  C30. The filter with hashes is equivalent to a filter that keeps the values themselves, as long
  as the hash function has no collision on the values that occur: both keep the same entries, and
  the history goes on to stand for the last values.
\<close>

theorem filter_data_reference:
  assumes "values_in V data" "hash_ok hash V" "remembers hash V h view"
  shows "fst (filter_data hash data h) = fst (filter_reference data view) \<and>
    remembers hash V (snd (filter_data hash data h)) (snd (filter_reference data view))"
  using assms(1,3)
proof (induction data arbitrary: h view)
  case (Cons kv data)
  obtain k v where kv: "kv = (k, v)" by (cases kv)
  have vals: "values_in V data" "raw_empty v \<or> raw_bytes v \<in> V"
    using Cons.prems(1) kv by (auto simp: values_in_def)
  show ?case
  proof (cases "\<not> raw_empty v \<and> view k = v")
    case True
    then have "h k = Some (hash (raw_bytes v))"
      using remembers_hit [OF Cons.prems(2) assms(2)] vals(2) by simp
    with True Cons.IH [OF vals(1) Cons.prems(2)] kv show ?thesis by simp
  next
    case False
    let ?h = "if raw_empty v then h(k \<mapsto> 0) else h(k \<mapsto> hash (raw_bytes v))"
    have upd: "remembers hash V ?h (view(k := v))"
      using remembers_upd [OF Cons.prems(2)] remembers_key_empty remembers_key_value [OF assms(2)] vals(2) by auto
    from Cons.IH [of ?h "view(k := v)", OF vals(1) upd] have "fst (filter_data hash data ?h) = fst (filter_reference data (view(k := v)))"
      "remembers hash V (snd (filter_data hash data ?h)) (snd (filter_reference data (view(k := v))))"
      by blast+
    moreover have "filter_data hash (kv # data) h = apfst (Cons (k, v)) (filter_data hash data ?h)"
      using False kv vals(2) remembers_hit [OF Cons.prems(2) assms(2), of v k]
      by (cases "raw_empty v") (simp_all add: Let_def split: prod.split)
    moreover have "filter_reference (kv # data) view = apfst (Cons (k, v)) (filter_reference data (view(k := v)))"
      using False kv by (cases "filter_reference data (view(k := v))") auto
    ultimately show ?thesis by simp
  qed
qed simp

theorem filter_data_reference_witness:
  "fst (filter_data (\<lambda>s. 1) [(''a/1/b'', Some ''5''), (''a/1/c'', None)] Map.empty) =
     fst (filter_reference [(''a/1/b'', Some ''5''), (''a/1/c'', None)] (\<lambda>_. None))"
proof -
  have "values_in {''5''} [(''a/1/b'', Some ''5''), (''a/1/c'', None)]"
    by (simp add: values_in_def raw_bytes_def raw_empty_def)
  moreover have "hash_ok (\<lambda>s. 1) {''5''}"
    by (simp add: hash_ok_def)
  moreover have "remembers (\<lambda>s. 1) {''5''} Map.empty (\<lambda>_. None)"
    by (simp add: remembers_def remembers_key_def raw_empty_def)
  ultimately show ?thesis
    using filter_data_reference by blast
qed

text \<open>The state after \<open>n\<close> passes of \<^verbatim>\<open>Next\<close> that had no data for the client.\<close>

fun quiet_passes :: "nat \<Rightarrow> 'w provider \<Rightarrow> 'w topic \<Rightarrow> ('k, 'w) keys_builder \<Rightarrow> (string \<Rightarrow> 64 word)
    \<Rightarrow> history \<Rightarrow> 'k connection \<Rightarrow> 'w \<Rightarrow> ('k connection \<times> 'w) option" where
  "quiet_passes 0 rd tp kbo hash h c w = Some (c, w)"
| "quiet_passes (Suc n) rd tp kbo hash h c w =
     (case Next_pass rd tp kbo hash h c w of
        (None, c', w') \<Rightarrow> quiet_passes n rd tp kbo hash h c' w'
      | (Some r, _) \<Rightarrow> None)"

lemma Next_pass_quiet_filter: "Next_pass rd tp kbo hash h c w = (None, c', w') \<Longrightarrow> conn_filter c' = conn_filter c"
  by (auto simp: Next_pass_def Next_send_def Let_def split: prod.splits sum.splits option.splits if_splits)


definition counting_topic :: "nat topic" where
  "counting_topic = \<lparr>LastID = (\<lambda>n. 0),
     Receive = (\<lambda>t n. ((t, if n = 1 then [''user/1/name''] else [], None), Suc n))\<rparr>"




end
