(* ===== verification/Http.thy ===== *)
theory Http
  imports Autoupdate
begin

text \<open>
  The handlers of \<^verbatim>\<open>internal/http/http.go\<close>: the routes, the check of the request, the
  loop that writes the data of a connection, and the answer to an error.

  The response writer is a record: the header map, the status line once it is written, the bytes
  of the body and the number of bytes that were flushed. As in \<^verbatim>\<open>net/http\<close>, the first
  write sends the status 200 when no status was set, and a later status has no effect.
  \<^verbatim>\<open>Authenticate\<close> and the texts of errors of the standard library are parameters. The
  router of \<^verbatim>\<open>net/http\<close> is modelled for clean paths, on which it compares the whole path
  with the registered patterns.
\<close>

section \<open>Requests and responses\<close>

record request =
  ProtoMajor :: nat
  ProtoMinor :: nat
  Method :: string
  Path :: string
  RawQuery :: string
  ReqBody :: string

definition ProtoAtLeast :: "nat \<Rightarrow> nat \<Rightarrow> request \<Rightarrow> bool" where
  "ProtoAtLeast major minor r \<longleftrightarrow>
     major < ProtoMajor r \<or> ProtoMajor r = major \<and> minor \<le> ProtoMinor r"

record writer =
  wr_header :: "string \<rightharpoonup> string"
  wr_status :: "nat option"
  wr_body :: string
  wr_flushed :: nat

definition new_writer :: writer where
  "new_writer = \<lparr>wr_header = Map.empty, wr_status = None, wr_body = [], wr_flushed = 0\<rparr>"

definition Header_Set :: "string \<Rightarrow> string \<Rightarrow> writer \<Rightarrow> writer" where
  "Header_Set k v wr = wr\<lparr>wr_header := (wr_header wr)(k \<mapsto> v)\<rparr>"

definition WriteHeader :: "nat \<Rightarrow> writer \<Rightarrow> writer" where
  "WriteHeader code wr = (if wr_status wr = None then wr\<lparr>wr_status := Some code\<rparr> else wr)"

definition Write :: "string \<Rightarrow> writer \<Rightarrow> writer" where
  "Write bs wr = (WriteHeader 200 wr)\<lparr>wr_body := wr_body wr @ bs\<rparr>"

definition Flush :: "writer \<Rightarrow> writer" where
  "Flush wr = (WriteHeader 200 wr)\<lparr>wr_flushed := length (wr_body wr)\<rparr>"

abbreviation dquote :: string where
  "dquote \<equiv> [CHR 0x22]"

abbreviation newline :: string where
  "newline \<equiv> [CHR 0x0A]"

definition http_Error :: "string \<Rightarrow> nat \<Rightarrow> writer \<Rightarrow> writer" where
  "http_Error msg code wr =
     Write (msg @ newline)
       (WriteHeader code
         (Header_Set ''X-Content-Type-Options'' ''nosniff''
           (Header_Set ''Content-Type'' ''text/plain; charset=utf-8'' wr)))"

section \<open>Sending data\<close>

fun send_entries :: "bool \<Rightarrow> data \<Rightarrow> writer \<Rightarrow> writer" where
  "send_entries first [] wr = wr"
| "send_entries first ((key, value) # data) wr =
     (let wr1 = (if first then wr else Write '','' wr);
          wr2 = Write [CHR 0x22] wr1;
          wr3 = Write key wr2;
          wr4 = Write [CHR 0x22, CHR '':''] wr3;
          wr5 = Write (case value of None \<Rightarrow> ''null'' | Some bs \<Rightarrow> bs) wr4
      in send_entries False data wr5)"

definition sendData :: "data \<Rightarrow> writer \<Rightarrow> writer" where
  "sendData data wr = Flush (Write (''}'' @ newline) (send_entries True data (Write ''{'' wr)))"

section \<open>The autoupdate handler\<close>

text \<open>
  A handler works on a request, the writer and the state of the service. The loop of the handler
  ends only with an error; \<open>n\<close> bounds the number of rounds, and \<open>None\<close> means that it still
  runs after them, or that \<^verbatim>\<open>Next\<close> still waits.
\<close>

fun autoupdate_loop :: "nat \<Rightarrow> ('k connection \<Rightarrow> 'w \<Rightarrow> ((goerror + data) \<times> 'k connection \<times> 'w) option)
    \<Rightarrow> 'k connection \<Rightarrow> 'w \<Rightarrow> writer \<Rightarrow> goerror option \<times> writer \<times> 'w" where
  "autoupdate_loop 0 next c w wr = (None, wr, w)"
| "autoupdate_loop (Suc n) next c w wr =
     (case next c w of
        None \<Rightarrow> (None, wr, w)
      | Some (Inl e, c', w') \<Rightarrow> (Some e, wr, w')
      | Some (Inr data, c', w') \<Rightarrow> autoupdate_loop n next c' w' (sendData data wr))"

text \<open>
  \<^verbatim>\<open>Handler.autoupdate\<close>. The deferred function has no effect: the variable it reads is
  shadowed in the loop, and the result of the handler is not named.
\<close>

definition autoupdate_handler :: "(request \<Rightarrow> goerror + int) \<Rightarrow> ('w \<Rightarrow> 64 word)
    \<Rightarrow> (request \<Rightarrow> int \<Rightarrow> 'w \<Rightarrow> (goerror + 'k) \<times> 'w)
    \<Rightarrow> ('k connection \<Rightarrow> 'w \<Rightarrow> ((goerror + data) \<times> 'k connection \<times> 'w) option)
    \<Rightarrow> nat \<Rightarrow> request \<Rightarrow> writer \<Rightarrow> 'w \<Rightarrow> goerror option \<times> writer \<times> 'w" where
  "autoupdate_handler auth lastID kbg next n r wr w =
     (let wr1 = Header_Set ''Content-Type'' ''application/octet-stream'' wr
      in (case auth r of
            Inl e \<Rightarrow> (Some (EWrap ''authenticate request: '' e), wr1, w)
          | Inr uid \<Rightarrow>
              (let tid = lastID w
               in (case kbg r uid w of
                     (Inl e, w1) \<Rightarrow> (Some (EWrap ''build keysbuilder: '' e), wr1, w1)
                   | (Inr kb, w1) \<Rightarrow> autoupdate_loop n next (Connect uid kb tid) w1 wr1))))"

definition Handler_complex :: "'w provider \<Rightarrow> (process \<Rightarrow> process) \<Rightarrow> request \<Rightarrow> int \<Rightarrow> 'w \<Rightarrow> (goerror + builder) \<times> 'w" where
  "Handler_complex rd ord r uid w = ManyFromJSON rd ord uid (ReqBody r) w"

definition Handler_simple :: "request \<Rightarrow> int \<Rightarrow> 'w \<Rightarrow> (goerror + simple) \<times> 'w" where
  "Handler_simple r uid w =
     (let kb = \<lparr>K = split_on CHR '','' (RawQuery r)\<rparr>
      in (case Simple_Validate kb of
            Some e \<Rightarrow> (Inl e, w)
          | None \<Rightarrow> (Inr kb, w)))"

definition Handler_health :: "writer \<Rightarrow> writer" where
  "Handler_health wr = Write (''{'' @ dquote @ ''healthy'' @ dquote @ '': true}'' @ newline) wr"

section \<open>Errors\<close>

definition quote :: "string \<Rightarrow> string" where
  "quote s = replace_all CHR 0x22 [CHR 0x5C, CHR 0x22] s"

fun is_ENoStatus :: "goerror \<Rightarrow> bool" where
  "is_ENoStatus (ENoStatus _) = True"
| "is_ENoStatus _ = False"

fun is_EPanic :: "goerror \<Rightarrow> bool" where
  "is_EPanic (EPanic _) = True"
| "is_EPanic _ = False"

text \<open>\<^verbatim>\<open>{"error": {"type": "%s", "msg": "%s"}}\<close>\<close>

definition error_body :: "string \<Rightarrow> string \<Rightarrow> string" where
  "error_body ty msg =
     ''{'' @ dquote @ ''error'' @ dquote @ '': {'' @ dquote @ ''type'' @ dquote @ '': '' @ dquote @ ty @ dquote @ '', '' @
     dquote @ ''msg'' @ dquote @ '': '' @ dquote @ msg @ dquote @ ''}}''"

text \<open>
  The answer to an error. A panic is no error value: it ends the connection, and nothing more is
  written.
\<close>

definition handle_error :: "(goerror \<Rightarrow> string) \<Rightarrow> goerror \<Rightarrow> writer \<Rightarrow> writer" where
  "handle_error std err wr =
     (let status = (errors_As is_ENoStatus err = None)
      in if errors_As is_EPanic err \<noteq> None then wr
         else if errors_As (\<lambda>e. e = EClosing) err \<noteq> None \<or> errors_As (\<lambda>e. e = ECanceled) err \<noteq> None then wr
         else
           (case errors_As (\<lambda>e. Error_Type e \<noteq> None) err of
              Some derr \<Rightarrow>
                Write (error_body (the (Error_Type derr)) (quote (Error_string std derr)))
                  (if status then WriteHeader 400 wr else wr)
            | None \<Rightarrow>
                Write (error_body ''InternalError'' ''Ups, something went wrong!'' @ newline)
                  (if status then WriteHeader 500 wr else wr)))"

text \<open>\<^verbatim>\<open>errHandleFunc.ServeHTTP\<close>, on the result of the handler.\<close>

definition errHandleFunc_ServeHTTP :: "(goerror \<Rightarrow> string) \<Rightarrow> goerror option \<times> writer \<times> 'w \<Rightarrow> writer \<times> 'w" where
  "errHandleFunc_ServeHTTP std res =
     (case res of
        (None, wr, w) \<Rightarrow> (wr, w)
      | (Some err, wr, w) \<Rightarrow> (handle_error std err wr, w))"

section \<open>Routes\<close>

type_synonym 'w http_handler = "request \<Rightarrow> writer \<Rightarrow> 'w \<Rightarrow> writer \<times> 'w"

definition validRequest :: "'w http_handler \<Rightarrow> 'w http_handler" where
  "validRequest h r wr w =
     (if \<not> ProtoAtLeast 2 0 r then (http_Error ''Only http2 is supported'' 400 wr, w)
      else if \<not> (Method r = ''POST'' \<or> Method r = ''GET'') then
        (http_Error ''Only GET or POST requests are supported'' 405 wr, w)
      else h r wr w)"

text \<open>
  \<^verbatim>\<open>Handler\<close>: the autoupdate service, that is, its restricted data, its topic and the hash
  function of the filters, and the authenticator. \<open>h_ord\<close> is the order in which the keys builder
  ranges over maps.
\<close>

record 'w handler =
  h_rd :: "'w provider"
  h_topic :: "'w topic"
  h_hash :: "string \<Rightarrow> 64 word"
  h_auth :: "request \<Rightarrow> goerror + int"
  h_ord :: "process \<Rightarrow> process"

text \<open>\<open>n\<close> bounds the rounds of the handler, \<open>m\<close> the passes of one \<^verbatim>\<open>Next\<close>.\<close>

definition complex_route :: "nat \<Rightarrow> nat \<Rightarrow> (goerror \<Rightarrow> string) \<Rightarrow> 'w handler \<Rightarrow> 'w http_handler" where
  "complex_route n m std h r wr w =
     errHandleFunc_ServeHTTP std
       (autoupdate_handler (h_auth h) (LastID (h_topic h)) (Handler_complex (h_rd h) (h_ord h))
          (Next m (h_rd h) (h_topic h) (Builder_ops (h_rd h) (h_ord h)) (h_hash h)) n r wr w)"

definition simple_route :: "nat \<Rightarrow> nat \<Rightarrow> (goerror \<Rightarrow> string) \<Rightarrow> 'w handler \<Rightarrow> 'w http_handler" where
  "simple_route n m std h r wr w =
     errHandleFunc_ServeHTTP std
       (autoupdate_handler (h_auth h) (LastID (h_topic h)) Handler_simple
          (Next m (h_rd h) (h_topic h) Simple_ops (h_hash h)) n r wr w)"

definition New_Handler :: "nat \<Rightarrow> nat \<Rightarrow> (goerror \<Rightarrow> string) \<Rightarrow> 'w handler \<Rightarrow> (string \<times> 'w http_handler) list" where
  "New_Handler n m std h =
     [(''/system/autoupdate'', validRequest (complex_route n m std h)),
      (''/system/autoupdate/keys'', validRequest (simple_route n m std h)),
      (''/system/autoupdate/health'', validRequest (\<lambda>r wr w. (Handler_health wr, w)))]"

definition Handler_ServeHTTP :: "nat \<Rightarrow> nat \<Rightarrow> (goerror \<Rightarrow> string) \<Rightarrow> 'w handler \<Rightarrow> 'w http_handler" where
  "Handler_ServeHTTP n m std h r wr w =
     (case map_of (New_Handler n m std h) (Path r) of
        Some f \<Rightarrow> f r wr w
      | None \<Rightarrow> (http_Error ''404 page not found'' 404 wr, w))"

section \<open>What is written\<close>

definition value_text :: "raw \<Rightarrow> string" where
  "value_text v = (case v of None \<Rightarrow> ''null'' | Some bs \<Rightarrow> bs)"

definition entry_text :: "string \<times> raw \<Rightarrow> string" where
  "entry_text kv = CHR 0x22 # fst kv @ [CHR 0x22, CHR '':''] @ value_text (snd kv)"

definition frame_text :: "data \<Rightarrow> string" where
  "frame_text data = CHR ''{'' # join_with '','' (map entry_text data) @ ''}'' @ newline"

lemma wr_Write [simp]:
  "wr_body (Write bs wr) = wr_body wr @ bs" "wr_header (Write bs wr) = wr_header wr"
  "wr_flushed (Write bs wr) = wr_flushed wr"
  "wr_status (Write bs wr) = (case wr_status wr of None \<Rightarrow> Some 200 | Some c \<Rightarrow> Some c)"
  by (simp_all add: Write_def WriteHeader_def split: option.split)

lemma wr_WriteHeader [simp]:
  "wr_body (WriteHeader c wr) = wr_body wr" "wr_header (WriteHeader c wr) = wr_header wr"
  "wr_flushed (WriteHeader c wr) = wr_flushed wr"
  "wr_status (WriteHeader c wr) = (case wr_status wr of None \<Rightarrow> Some c | Some c' \<Rightarrow> Some c')"
  by (simp_all add: WriteHeader_def split: option.split)

lemma send_entries_header: "wr_header (send_entries first data wr) = wr_header wr"
  by (induction first data wr rule: send_entries.induct) (auto simp: Let_def)

lemma send_entries_status: "wr_status wr = Some c \<Longrightarrow> wr_status (send_entries first data wr) = Some c"
  by (induction first data wr rule: send_entries.induct) (auto simp: Let_def)

lemma send_entries_body:
  "wr_body (send_entries first data wr) =
    wr_body wr @ (if first \<or> data = [] then [] else '','') @ join_with '','' (map entry_text data)"
proof (induction first data wr rule: send_entries.induct)
  case (2 first key v data wr)
  then show ?case
    by (cases data) (simp_all add: Let_def entry_text_def value_text_def)
qed simp

lemma sendData_writes [simp]:
  "wr_body (sendData data wr) = wr_body wr @ frame_text data"
  "wr_flushed (sendData data wr) = length (wr_body wr @ frame_text data)"
  "wr_header (sendData data wr) = wr_header wr"
  "wr_status (sendData data wr) = (case wr_status wr of None \<Rightarrow> Some 200 | Some c \<Rightarrow> Some c)"
  by (simp_all add: sendData_def Flush_def send_entries_body frame_text_def send_entries_header send_entries_status split: option.split)

text \<open>
  Data that the client can read: the keys need no escapes, and the values are texts of JSON
  values.
\<close>

definition sendable :: "data \<Rightarrow> bool" where
  "sendable data \<longleftrightarrow>
     (\<forall>(k, v) \<in> set data. list_all html_safe k \<and> (\<exists>j. text_of (value_text v) j))"

lemma encode_body_safe: "list_all html_safe s \<Longrightarrow> encode_body s = s"
proof (induction s)
  case (Cons c s)
  then have "is_ascii c" by (simp add: html_safe_def is_ascii_def in_range_def)
  with Cons show ?case by (simp add: encode_body_ascii encode_ascii_def)
qed (simp add: encode_body_Nil)

lemma safe_ascii: "list_all html_safe s \<Longrightarrow> list_all is_ascii s"
  by (auto simp: list_all_iff html_safe_def is_ascii_def in_range_def)

lemma frame_members:
  assumes "sendable data"
  shows "\<exists>ms. list_all member_ok ms \<and> frame_text data = obj_text ms @ newline \<and>
    map (\<lambda>(n, t, j). (n, t)) ms = map (\<lambda>(k, v). (k, value_text v)) data"
proof -
  have "\<exists>ms. list_all member_ok ms \<and> map member_text ms = map entry_text data \<and>
      map (\<lambda>(n, t, j). (n, t)) ms = map (\<lambda>(k, v). (k, value_text v)) data"
    using assms
  proof (induction data)
    case (Cons kv data)
    obtain k v where kv: "kv = (k, v)" by (cases kv)
    obtain ms where ms: "list_all member_ok ms" "map member_text ms = map entry_text data"
      "map (\<lambda>(n, t, j). (n, t)) ms = map (\<lambda>(k, v). (k, value_text v)) data"
      using Cons by (auto simp: sendable_def)
    obtain j where j: "list_all html_safe k" "text_of (value_text v) j"
      using Cons.prems kv by (auto simp: sendable_def)
    have "member_text (k, value_text v, j) = entry_text kv"
      using j kv by (simp add: marshal_string_def encode_body_safe entry_text_def)
    then show ?case
      using ms j kv by (intro exI [of _ "(k, value_text v, j) # ms"]) (simp add: safe_ascii)
  qed simp
  then show ?thesis
    by (force simp: frame_text_def obj_text_def)
qed

text \<open>A client that reads a stream of JSON values, one after the other.\<close>

fun read_stream :: "nat \<Rightarrow> string \<Rightarrow> json list option" where
  "read_stream 0 s = Some []"
| "read_stream (Suc n) s =
     (case parse s of
        Inl _ \<Rightarrow> None
      | Inr (v, r) \<Rightarrow> map_option (Cons v) (read_stream n r))"

text \<open>Decoding into \<^verbatim>\<open>map[string]json.RawMessage\<close>.\<close>

definition decode_data :: "json \<Rightarrow> type_error + data" where
  "decode_data = decode_gomap (\<lambda>t _. Inr (Some t))"

lemma decode_entries_raw:
  "distinct (map fst ms) \<Longrightarrow>
    decode_entries (\<lambda>t _. Inr (Some t)) ms = Inr (map (\<lambda>(n, t, j). (n, Some t)) ms)"
  by (induction ms) (force simp: image_iff)+

lemma decode_data_members:
  assumes "map (\<lambda>(n, t, j). (n, t)) ms = map (\<lambda>(k, v). (k, value_text v)) data" "wf_map data"
  shows "decode_data (JObj ms) = Inr (map (\<lambda>(k, v). (k, Some (value_text v))) data)"
proof -
  have "map fst ms = map fst data"
    using arg_cong [OF assms(1), of "map fst"] by (simp add: comp_def case_prod_unfold)
  then have "distinct (map fst ms)" using assms(2) by (simp add: wf_map_def)
  moreover have "map (\<lambda>(n, t, j). (n, Some t)) ms = map (\<lambda>(k, v). (k, Some (value_text v))) data"
    using arg_cong [OF assms(1), of "map (\<lambda>(n, t). (n, Some t))"] by (simp add: comp_def case_prod_unfold)
  ultimately show ?thesis
    by (simp add: decode_data_def decode_gomap_def decode_entries_raw)
qed

lemma parse_frame:
  assumes "sendable data" "wf_map data"
  obtains v where "parse (frame_text data @ s) = Inr (v, newline @ s)" "parse (newline @ frame_text data @ s) = Inr (v, newline @ s)"
    "decode_data v = Inr (map (\<lambda>(k, v). (k, Some (value_text v))) data)"
proof -
  obtain ms where ms: "list_all member_ok ms" "frame_text data = obj_text ms @ newline"
    "map (\<lambda>(n, t, j). (n, t)) ms = map (\<lambda>(k, v). (k, value_text v)) data"
    using frame_members [OF assms(1)] by blast
  have p: "parse (frame_text data @ s) = Inr (JObj ms, newline @ s)"
    using parse_object [OF ms(1), of "newline @ s"] ms(2) by simp
  have "parse (newline @ frame_text data @ s) = Inr (JObj ms, newline @ s)"
    using parse_object_ws [OF ms(1), of "CHR 0x0A" "newline @ s"] ms(2) by (simp add: is_ws_def)
  with p that decode_data_members [OF ms(3) assms(2)] show ?thesis by metis
qed

lemma read_stream_frames:
  assumes "\<forall>d \<in> set ds. sendable d \<and> wf_map d"
  shows "\<exists>vs. read_stream (length ds) (concat (map frame_text ds)) = Some vs \<and>
    map decode_data vs = map (\<lambda>d. Inr (map (\<lambda>(k, v). (k, Some (value_text v))) d)) ds"
proof -
  have "\<exists>vs. read_stream (length ds) (nl @ concat (map frame_text ds)) = Some vs \<and>
      map decode_data vs = map (\<lambda>d. Inr (map (\<lambda>(k, v). (k, Some (value_text v))) d)) ds"
    if "nl = [] \<or> nl = newline" for nl
    using assms that
  proof (induction ds arbitrary: nl)
    case (Cons d ds)
    then have d: "sendable d" "wf_map d" by simp_all
    obtain v where v: "parse (nl @ frame_text d @ concat (map frame_text ds)) = Inr (v, newline @ concat (map frame_text ds))"
      "decode_data v = Inr (map (\<lambda>(k, v). (k, Some (value_text v))) d)"
      using parse_frame [OF d, of "concat (map frame_text ds)"] Cons.prems(2) by (metis append_Nil)
    moreover obtain vs where "read_stream (length ds) (newline @ concat (map frame_text ds)) = Some vs"
      "map decode_data vs = map (\<lambda>d. Inr (map (\<lambda>(k, v). (k, Some (value_text v))) d)) ds"
      using Cons.IH [of newline] Cons.prems(1) by auto
    ultimately show ?case
      by (intro exI [of _ "v # vs"]) simp
  qed simp
  from this [of "[]"] show ?thesis by simp
qed

text \<open>What the calls of \<^verbatim>\<open>Next\<close> return, in order, up to the first error.\<close>

fun next_results :: "nat \<Rightarrow> ('k connection \<Rightarrow> 'w \<Rightarrow> ((goerror + data) \<times> 'k connection \<times> 'w) option)
    \<Rightarrow> 'k connection \<Rightarrow> 'w \<Rightarrow> data list \<times> goerror option" where
  "next_results 0 next c w = ([], None)"
| "next_results (Suc n) next c w =
     (case next c w of
        None \<Rightarrow> ([], None)
      | Some (Inl e, _) \<Rightarrow> ([], Some e)
      | Some (Inr data, c', w') \<Rightarrow> map_prod (Cons data) id (next_results n next c' w'))"

lemma autoupdate_loop_results:
  assumes "next_results n next c w = (ds, e)"
  shows "\<exists>wr' w'. autoupdate_loop n next c w wr = (e, wr', w') \<and> wr_header wr' = wr_header wr \<and>
    wr_body wr' = wr_body wr @ concat (map frame_text ds) \<and>
    (ds \<noteq> [] \<longrightarrow> wr_flushed wr' = length (wr_body wr') \<and> wr_status wr' = Some (case wr_status wr of None \<Rightarrow> 200 | Some s \<Rightarrow> s)) \<and>
    (ds = [] \<longrightarrow> wr' = wr)"
  using assms
proof (induction n "next" c w arbitrary: ds wr rule: next_results.induct)
  case (2 n "next" c w)
  show ?case
  proof (cases "next c w")
    case None
    with 2(2) show ?thesis by auto
  next
    case (Some r)
    obtain x c' w' where r: "r = (x, c', w')" by (cases r)
    show ?thesis
    proof (cases x)
      case (Inl err)
      with Some r 2(2) show ?thesis by auto
    next
      case (Inr data)
      obtain ds' where ds: "ds = data # ds'" "next_results n next c' w' = (ds', e)"
        using 2(2) Some r Inr by (cases "next_results n next c' w'") auto
      from 2(1) [OF Some r [symmetric] Inr refl ds(2), of "sendData data wr"] show ?thesis
        using Some r Inr ds(1) by (cases ds') (auto split: option.splits)
    qed
  qed
qed auto

section \<open>Properties\<close>

text \<open>
  What \<^verbatim>\<open>sendData\<close> writes is read back by a JSON decoder: every key with its
  value, a missing value as \<^verbatim>\<open>null\<close>, in one frame that is flushed completely.
\<close>

lemma sendData_round_trip:
  assumes "sendable data" "wf_map data"
  shows "unmarshal decode_data (wr_body (sendData data new_writer)) =
      Inr (map (\<lambda>(k, v). (k, Some (value_text v))) data) \<and>
    wr_flushed (sendData data new_writer) = length (wr_body (sendData data new_writer)) \<and>
    wr_status (sendData data new_writer) = Some 200"
proof -
  obtain v where "parse (frame_text data @ []) = Inr (v, newline @ [])"
    "decode_data v = Inr (map (\<lambda>(k, v). (k, Some (value_text v))) data)"
    by (rule parse_frame [OF assms]) blast
  moreover have "skip_ws newline = []"
    by (simp add: skip_ws_def is_ws_def)
  ultimately show ?thesis
    by (simp add: new_writer_def unmarshal_def json_valid_def)
qed

definition sent_data :: data where
  "sent_data = [(''user/1/name'', Some (render (JStr ''Max''))), (''user/1/x'', None)]"

lemma sent_data_ok: "sendable sent_data" "wf_map sent_data"
proof -
  have "\<exists>j. text_of (marshal_string ''Max'') j"
    using text_of_render [of "JStr ''Max''"] by (auto simp: is_ascii_def in_range_def)
  moreover have "\<exists>j. text_of ''null'' j"
    using text_of_render [of JNull] by auto
  ultimately show "sendable sent_data"
    by (simp add: sendable_def sent_data_def value_text_def html_safe_def in_range_def)
  show "wf_map sent_data"
    by (simp add: wf_map_def sent_data_def)
qed



definition internal_error :: "goerror \<Rightarrow> bool" where
  "internal_error e \<longleftrightarrow>
     errors_As (\<lambda>e. Error_Type e \<noteq> None \<or> e = EClosing \<or> e = ECanceled \<or> is_EPanic e \<or> is_ENoStatus e) e = None"

lemma errors_As_mono: "errors_As p e = None \<Longrightarrow> (\<And>x. p' x \<Longrightarrow> p x) \<Longrightarrow> errors_As p' e = None"
  by (induction p e rule: errors_As.induct) (auto split: if_splits)

text \<open>
  C21. The client learns nothing about an internal error: for any two errors that are neither
  defined for clients nor a closed connection, the response is the same, with status 500 when no
  data was sent before.
\<close>

theorem handle_error_hides_internal:
  assumes "internal_error e" "internal_error e'"
  shows "handle_error std e wr = handle_error std' e' wr \<and>
    (wr_status wr = None \<longrightarrow> wr_status (handle_error std e wr) = Some 500) \<and>
    (wr_status wr \<noteq> None \<longrightarrow> wr_status (handle_error std e wr) = wr_status wr)"
proof -
  have "handle_error std e wr =
      Write (error_body ''InternalError'' ''Ups, something went wrong!'' @ newline) (WriteHeader 500 wr)"
    if "internal_error e" for e std
  proof -
    have "errors_As p e = None"
      if "\<And>x. p x \<Longrightarrow> Error_Type x \<noteq> None \<or> x = EClosing \<or> x = ECanceled \<or> is_EPanic x \<or> is_ENoStatus x" for p
      using \<open>internal_error e\<close> errors_As_mono that unfolding internal_error_def by blast
    then show ?thesis
      by (simp add: handle_error_def Let_def)
  qed
  with assms show ?thesis by (auto split: option.splits)
qed

theorem handle_error_hides_internal_witness:
  "handle_error (\<lambda>_. []) (EWrap ''open '' (EMsg ''secret'')) new_writer = handle_error (\<lambda>_. ''x'') EEOF new_writer"
  by (rule handle_error_hides_internal [THEN conjunct1]) (simp_all add: internal_error_def)

text \<open>
  C22. No route answers a request that is not HTTP/2 or whose method is neither GET nor POST: the
  status is 400 or 405, the state of the service does not change, and the response does not
  depend on the service at all.
\<close>

theorem Handler_ServeHTTP_rejects:
  assumes "Path r \<in> {''/system/autoupdate'', ''/system/autoupdate/keys'', ''/system/autoupdate/health''}"
    and "ProtoMajor r < 2 \<or> Method r \<notin> {''GET'', ''POST''}"
  shows "\<exists>msg code. Handler_ServeHTTP n m std h r new_writer w = (http_Error msg code new_writer, w) \<and>
    (ProtoMajor r < 2 \<longrightarrow> code = 400) \<and> (2 \<le> ProtoMajor r \<longrightarrow> code = 405) \<and>
    wr_status (http_Error msg code new_writer) = Some code"
proof -
  obtain f where f: "Handler_ServeHTTP n m std h r new_writer w = validRequest f r new_writer w"
    using assms(1) by (auto simp: Handler_ServeHTTP_def New_Handler_def)
  have status: "wr_status (http_Error msg code new_writer) = Some code" for msg code
    by (simp add: http_Error_def Header_Set_def new_writer_def)
  show ?thesis
    unfolding f validRequest_def ProtoAtLeast_def using assms(2) status by auto
qed

theorem Handler_ServeHTTP_rejects_witness:
  "\<exists>msg code. Handler_ServeHTTP 1 1 (\<lambda>_. [])
      \<lparr>h_rd = (\<lambda>_ _ n. (Inl EEOF, n)), h_topic = \<lparr>LastID = (\<lambda>_. 0), Receive = (\<lambda>t n. ((t, [], None), n))\<rparr>,
       h_hash = (\<lambda>_. 0), h_auth = (\<lambda>_. Inr 1), h_ord = id\<rparr>
      \<lparr>ProtoMajor = 1, ProtoMinor = 1, Method = ''GET'', Path = ''/system/autoupdate'', RawQuery = [], ReqBody = []\<rparr>
      new_writer (0 :: nat) = (http_Error msg code new_writer, 0) \<and> code = 400"
proof -
  let ?r = "\<lparr>ProtoMajor = 1, ProtoMinor = 1, Method = ''GET'', Path = ''/system/autoupdate'', RawQuery = [], ReqBody = []\<rparr>"
  show ?thesis
    using Handler_ServeHTTP_rejects [of ?r 1 1 "\<lambda>_. []"
      "\<lparr>h_rd = (\<lambda>_ _ n. (Inl EEOF, n)), h_topic = \<lparr>LastID = (\<lambda>_. 0), Receive = (\<lambda>t n. ((t, [], None), n))\<rparr>,
        h_hash = (\<lambda>_. 0), h_auth = (\<lambda>_. Inr 1), h_ord = id\<rparr>" "0 :: nat"] by auto
qed

text \<open>
  C23. A request for keys in the URL, one of which has fewer than two slashes, is answered with
  status 400 and the defined error; no data is read.
\<close>

theorem simple_route_rejects:
  assumes "h_auth h r = Inr uid" "key \<in> set (split_on CHR '','' (RawQuery r))" "count_char CHR ''/'' key < 2"
  shows "\<exists>wr. simple_route n m std h r new_writer w = (wr, w) \<and> wr_status wr = Some 400 \<and>
    wr_body wr = error_body ''SyntaxError'' ''Invalid keys''"
proof -
  have "validate_keys (split_on CHR '','' (RawQuery r)) \<noteq> None"
    using assms(2,3) unfolding validate_keys_ok_iff by (simp add: not_le) blast
  then have "validate_keys (split_on CHR '','' (RawQuery r)) = Some (invalid ''Invalid keys'')"
    using validate_keys_error by blast
  then show ?thesis
    using assms(1)
    by (simp add: simple_route_def autoupdate_handler_def Handler_simple_def Simple_Validate_def Let_def
        errHandleFunc_ServeHTTP_def handle_error_def invalid_def InvalidError_Error_def InvalidError_fields_def
        Header_Set_def new_writer_def quote_def replace_all_def)
qed

theorem simple_route_rejects_witness:
  "\<exists>wr. simple_route 1 1 (\<lambda>_. [])
      \<lparr>h_rd = (\<lambda>_ _ n. (Inl EEOF, n)), h_topic = \<lparr>LastID = (\<lambda>_. 0), Receive = (\<lambda>t n. ((t, [], None), n))\<rparr>,
       h_hash = (\<lambda>_. 0), h_auth = (\<lambda>_. Inr 1), h_ord = id\<rparr>
      \<lparr>ProtoMajor = 2, ProtoMinor = 0, Method = ''GET'', Path = [], RawQuery = ''user/1/name,user'', ReqBody = []\<rparr>
      new_writer (0 :: nat) = (wr, 0) \<and> wr_status wr = Some 400 \<and>
    wr_body wr = error_body ''SyntaxError'' ''Invalid keys''"
  by (rule simple_route_rejects [where uid = 1 and key = "''user''"]) (simp_all add: count_char_def)

definition backslash_request :: string where
  "backslash_request =
     render (JArr [JObj [member ''ids'' (JArr [JNum ''1'']), member ''collection'' (JStr ''user''),
       member ''fields'' (JObj [member [CHR 0x5C, CHR ''x''] (JObj [member ''type'' (JStr ''foo'')])])]])"


end
