(* ===== verification/Redis.thy ===== *)
theory Redis
  imports Go_Error
begin

text \<open>
  The receiver of updates, \<^verbatim>\<open>internal/redis\<close>: the parser of a stream reply
  (\<^verbatim>\<open>stream.go\<close>), the service with its last seen message id (\<^verbatim>\<open>redis.go\<close>) and
  the commands that are sent (\<^verbatim>\<open>conn.go\<close>). The redis client library is a parameter: a
  function that takes a command with its arguments.
\<close>

section \<open>Replies\<close>

text \<open>The Go values a reply consists of.\<close>

datatype reply =
    RNil
  | RString string
  | RBytes string
  | RInt int
  | RList "reply list"

fun go_T :: "reply \<Rightarrow> string" where
  "go_T RNil = ''<nil>''"
| "go_T (RString _) = ''string''"
| "go_T (RBytes _) = ''[]uint8''"
| "go_T (RInt _) = ''int64''"
| "go_T (RList _) = ''[]interface {}''"

fun tostr :: "reply \<Rightarrow> string option" where
  "tostr (RString s) = Some s"
| "tostr (RBytes s) = Some s"
| "tostr _ = None"

definition invalid_input :: "string \<Rightarrow> goerror" where
  "invalid_input m = EMsg (''invalid input. '' @ m)"

section \<open>The parser\<close>

text \<open>The loop over the keys and values of one message.\<close>

fun stream_kv :: "reply list \<Rightarrow> (string, raw) gomap \<Rightarrow> goerror + (string, raw) gomap" where
  "stream_kv (k # v # kv) retData =
     (case tostr k of
        None \<Rightarrow> Inl (invalid_input (''Key has to be a string, got '' @ go_T k))
      | Some key \<Rightarrow>
          if count_char CHR ''/'' key \<noteq> 2 then Inl (EMsg (''invalid key '' @ key))
          else (case tostr v of
                  None \<Rightarrow> Inl (invalid_input (''Values has to be a string, got '' @ go_T v))
                | Some value \<Rightarrow> stream_kv kv (mput key (Some value) retData)))"
| "stream_kv _ retData = Inr retData"

definition stream_element :: "reply \<Rightarrow> (string, raw) gomap \<Rightarrow> goerror + string \<times> (string, raw) gomap" where
  "stream_element v retData =
     (case v of
        RList [i, kvs] \<Rightarrow>
          (case tostr i of
             None \<Rightarrow> Inl (invalid_input (''Stream ID has to be a string, got '' @ go_T i))
           | Some id' \<Rightarrow>
               (case kvs of
                  RList kv \<Rightarrow>
                    if length kv mod 2 \<noteq> 0 then Inl (invalid_input ''Odd number of key value pairs'')
                    else map_sum id (Pair id') (stream_kv kv retData)
                | _ \<Rightarrow> Inl (invalid_input (''Key values has to be a list of strings, got '' @ go_T kvs))))
      | RList element \<Rightarrow>
          Inl (invalid_input (''Stream element has to be a two-tuple, got '' @ show_nat (length element) @ '' elements''))
      | _ \<Rightarrow> Inl (invalid_input (''Stream element has to be a two-tuple, got '' @ go_T v)))"

fun stream_elements :: "reply list \<Rightarrow> string \<Rightarrow> (string, raw) gomap \<Rightarrow> goerror + string \<times> (string, raw) gomap" where
  "stream_elements [] id' retData = Inr (id', retData)"
| "stream_elements (v # data) id' retData =
     (case stream_element v retData of
        Inl e \<Rightarrow> Inl e
      | Inr (id'', retData') \<Rightarrow> stream_elements data id'' retData')"

text \<open>The special error value \<^verbatim>\<open>errNil\<close> is told apart from all other errors.\<close>

datatype stream_error = errNil | StreamError goerror

definition stream :: "goerror + reply \<Rightarrow> stream_error + string \<times> (string, raw) gomap" where
  "stream r =
     (case r of
        Inl e \<Rightarrow> Inl (StreamError e)
      | Inr RNil \<Rightarrow> Inl errNil
      | Inr (RList []) \<Rightarrow> Inl (StreamError (invalid_input ''No stream in data''))
      | Inr (RList (RList [name, RList data] # streams)) \<Rightarrow>
          map_sum StreamError id (stream_elements data [] [])
      | Inr (RList (RList [name, x] # streams)) \<Rightarrow>
          Inl (StreamError (invalid_input (''Stream data has to be a list, got '' @ go_T x)))
      | Inr (RList (RList stream1 # streams)) \<Rightarrow>
          Inl (StreamError (invalid_input
            (''Stream has to be a two-tuple, got '' @ show_nat (length stream1) @ '' elements'')))
      | Inr (RList (x # streams)) \<Rightarrow>
          Inl (StreamError (invalid_input (''Stream has to be a two-tuple, not '' @ go_T x)))
      | Inr x \<Rightarrow> Inl (StreamError (invalid_input (''Data has to be a list, not '' @ go_T x))))"

section \<open>The service\<close>

definition maxMessages :: string where
  "maxMessages = ''10''"

definition blockTimeout :: string where
  "blockTimeout = ''3600000''"

definition fieldChangedTopic :: string where
  "fieldChangedTopic = ''ModifiedFields''"

text \<open>\<^verbatim>\<open>Connection.XREAD\<close>, on a state of the outside world.\<close>

type_synonym 'w xread = "string \<Rightarrow> string \<Rightarrow> string \<Rightarrow> string \<Rightarrow> 'w \<Rightarrow> (goerror + reply) \<times> 'w"

record service =
  lastID :: string

definition Service_Update :: "'w xread \<Rightarrow> service \<Rightarrow> 'w \<Rightarrow> (goerror + (string, raw) gomap) \<times> service \<times> 'w" where
  "Service_Update XREAD s w =
     (let id' = (if lastID s = [] then ''$'' else lastID s);
          (reply, w') = XREAD maxMessages blockTimeout fieldChangedTopic id' w
      in (case stream reply of
            Inl errNil \<Rightarrow> (Inr [], s, w')
          | Inl (StreamError e) \<Rightarrow> (Inl (EWrap ''get xread data from redis: '' e), s, w')
          | Inr (id'', keys) \<Rightarrow> (Inr keys, (if id'' = [] then s else s\<lparr>lastID := id''\<rparr>), w')))"

text \<open>\<^verbatim>\<open>NewConnection\<close>: the settings of the connection pool, with the timeout in seconds.\<close>

record pool =
  MaxActive :: nat
  Wait :: bool
  MaxIdle :: nat
  IdleTimeout :: nat
  Dial :: "string \<times> string"

definition NewConnection :: "string \<Rightarrow> pool" where
  "NewConnection addr = \<lparr>MaxActive = 100, Wait = True, MaxIdle = 10, IdleTimeout = 240, Dial = (''tcp'', addr)\<rparr>"

text \<open>The commands of \<^verbatim>\<open>Pool\<close>; \<open>do\<close> is \<^verbatim>\<open>Conn.Do\<close> on a connection of the pool.\<close>

definition Pool_XREAD :: "(string \<Rightarrow> string list \<Rightarrow> 'w \<Rightarrow> (goerror + reply) \<times> 'w) \<Rightarrow> 'w xread" where
  "Pool_XREAD do_cmd cnt block strm i w =
     do_cmd ''XREAD'' [''COUNT'', cnt, ''BLOCK'', block, ''STREAMS'', strm, i] w"

definition Pool_TestConn :: "(string \<Rightarrow> string list \<Rightarrow> 'w \<Rightarrow> (goerror + reply) \<times> 'w) \<Rightarrow> 'w \<Rightarrow> goerror option \<times> 'w" where
  "Pool_TestConn do_cmd w =
     (case do_cmd ''PING'' [] w of
        (Inl e, w') \<Rightarrow> (Some (EWrap ''no connection to redis: '' e), w')
      | (Inr _, w') \<Rightarrow> (None, w'))"

section \<open>Messages\<close>

text \<open>A message of the stream: its id and its keys with their values, and the reply for some.\<close>

type_synonym message = "string \<times> (string \<times> string) list"

definition message_reply :: "message \<Rightarrow> reply" where
  "message_reply m = RList [RBytes (fst m), RList (concat (map (\<lambda>(k, v). [RBytes k, RBytes v]) (snd m)))]"

definition stream_reply :: "message list \<Rightarrow> reply" where
  "stream_reply ms =
     (if ms = [] then RNil else RList [RList [RBytes fieldChangedTopic, RList (map message_reply ms)]])"

definition message_ok :: "message \<Rightarrow> bool" where
  "message_ok m \<longleftrightarrow> fst m \<noteq> [] \<and> (\<forall>(k, v) \<in> set (snd m). count_char CHR ''/'' k = 2)"

definition message_data :: "message \<Rightarrow> (string, raw) gomap" where
  "message_data m = map (\<lambda>(k, v). (k, Some v)) (snd m)"

lemma stream_kv_pairs:
  "(\<forall>(k, v) \<in> set kvs. count_char CHR ''/'' k = 2) \<Longrightarrow>
     stream_kv (concat (map (\<lambda>(k, v). [RBytes k, RBytes v]) kvs)) d = Inr (mput_all (map (\<lambda>(k, v). (k, Some v)) kvs) d)"
proof (induction kvs arbitrary: d)
  case (Cons kv kvs)
  then show ?case by (cases kv) simp
qed simp

lemma length_pairs: "length (concat (map (\<lambda>(k, v). [RBytes k, RBytes v]) kvs)) = 2 * length kvs"
  by (induction kvs) auto

lemma stream_element_message:
  "message_ok m \<Longrightarrow> stream_element (message_reply m) d = Inr (fst m, mput_all (message_data m) d)"
  by (simp add: stream_element_def message_reply_def message_ok_def message_data_def stream_kv_pairs length_pairs)

lemma stream_elements_messages:
  "list_all message_ok ms \<Longrightarrow>
     stream_elements (map message_reply ms) i d =
       Inr (if ms = [] then i else fst (last ms), mput_all (concat (map message_data ms)) d)"
  by (induction ms arbitrary: i d) (auto simp: stream_element_message mput_all_append)

lemma stream_messages:
  "list_all message_ok ms \<Longrightarrow> ms \<noteq> [] \<Longrightarrow>
     stream (Inr (stream_reply ms)) = Inr (fst (last ms), mput_all (concat (map message_data ms)) [])"
  by (simp add: stream_def stream_reply_def stream_elements_messages)

lemma stream_kv_keys:
  "stream_kv kv d = Inr d' \<Longrightarrow> (\<forall>k \<in> fst ` set d. count_char CHR ''/'' k = 2) \<Longrightarrow>
     (\<forall>k \<in> fst ` set d'. count_char CHR ''/'' k = 2)"
  by (induction kv d arbitrary: d' rule: stream_kv.induct)
    (auto simp: keys_mput split: option.splits if_splits)

lemma stream_element_keys:
  assumes "stream_element v d = Inr (i, d')" "\<forall>k \<in> fst ` set d. count_char CHR ''/'' k = 2"
  shows "\<forall>k \<in> fst ` set d'. count_char CHR ''/'' k = 2"
proof -
  obtain kv where "stream_kv kv d = Inr d'"
    using assms(1) by (auto simp: stream_element_def split: reply.splits list.splits option.splits if_splits)
  then show ?thesis
    using assms(2) by (rule stream_kv_keys)
qed

lemma stream_elements_keys:
  "stream_elements vs i d = Inr (i', d') \<Longrightarrow> (\<forall>k \<in> fst ` set d. count_char CHR ''/'' k = 2) \<Longrightarrow>
     (\<forall>k \<in> fst ` set d'. count_char CHR ''/'' k = 2)"
proof (induction vs arbitrary: i d)
  case (Cons v vs)
  then obtain i1 d1 where "stream_element v d = Inr (i1, d1)" "stream_elements vs i1 d1 = Inr (i', d')"
    by (auto split: sum.splits)
  with Cons stream_element_keys show ?case by blast
qed simp

lemma stream_keys:
  assumes "stream r = Inr (i, d)"
  shows "\<forall>k \<in> fst ` set d. count_char CHR ''/'' k = 2"
proof -
  obtain vs where "stream_elements vs [] [] = Inr (i, d)"
    using assms by (auto simp: stream_def map_sum_Inr_id split: sum.splits reply.splits list.splits)
  then show ?thesis
    by (rule stream_elements_keys) simp
qed

section \<open>Properties\<close>

text \<open>
  C18. Every key of an update has exactly two slashes, whatever redis replies.
\<close>

theorem Update_keys_valid:
  assumes "Service_Update XREAD s w = (Inr data, s', w')" "k \<in> set (mkeys data)"
  shows "count_char CHR ''/'' k = 2"
  using assms stream_keys
  by (auto simp: Service_Update_def Let_def split: prod.splits sum.splits stream_error.splits)

theorem Update_keys_valid_witness: "count_char CHR ''/'' ''user/1/name'' = 2"
proof -
  let ?X = "\<lambda>c b st i (w :: unit). (Inr (stream_reply [(''12-0'', [(''user/1/name'', ''5'')])]), w)"
  have "Service_Update ?X \<lparr>lastID = []\<rparr> () = (Inr [(''user/1/name'', Some ''5'')], \<lparr>lastID = ''12-0''\<rparr>, ())"
    by code_simp
  from Update_keys_valid [OF this, of "''user/1/name''"] show ?thesis by simp
qed



text \<open>\<open>n\<close> calls of \<^verbatim>\<open>Update\<close>, one after the other.\<close>

fun Service_Updates :: "nat \<Rightarrow> 'w xread \<Rightarrow> service \<Rightarrow> 'w \<Rightarrow> (goerror + (string, raw) gomap) list \<times> service \<times> 'w" where
  "Service_Updates 0 XREAD s w = ([], s, w)"
| "Service_Updates (Suc n) XREAD s w =
     (let (r, s1, w1) = Service_Update XREAD s w; (rs, s2, w2) = Service_Updates n XREAD s1 w1
      in (r # rs, s2, w2))"

text \<open>
  What redis documents of \<^verbatim>\<open>XREAD COUNT 10\<close>: it returns, for the id of a message of the
  stream, the next messages after it, at most ten.
\<close>

definition reads_log :: "'w xread \<Rightarrow> message list \<Rightarrow> bool" where
  "reads_log XREAD msgs \<longleftrightarrow>
     (\<forall>i w. i < length msgs \<longrightarrow>
        XREAD maxMessages blockTimeout fieldChangedTopic (fst (msgs ! i)) w =
          (Inr (stream_reply (take 10 (drop (Suc i) msgs))), w))"

definition batch_data :: "message list \<Rightarrow> (string, raw) gomap" where
  "batch_data ms = mput_all (concat (map message_data ms)) []"

lemma Service_Update_log:
  assumes "reads_log XREAD msgs" "list_all message_ok msgs" "i < length msgs" "lastID s = fst (msgs ! i)"
  shows "Service_Update XREAD s w =
    (Inr (batch_data (take 10 (drop (Suc i) msgs))),
     s\<lparr>lastID := fst (msgs ! min (i + 10) (length msgs - 1))\<rparr>, w)"
proof -
  let ?ms = "take 10 (drop (Suc i) msgs)"
  have ok: "list_all message_ok ?ms"
    using assms(2) by (auto simp: list_all_iff dest: in_set_takeD in_set_dropD)
  have id: "lastID s \<noteq> []"
    using assms(2-4) by (auto simp: list_all_length message_ok_def)
  have reply: "XREAD maxMessages blockTimeout fieldChangedTopic (lastID s) w = (Inr (stream_reply ?ms), w)"
    using assms(1,3,4) by (simp add: reads_log_def)
  show ?thesis
  proof (cases "?ms = []")
    case True
    then have "min (i + 10) (length msgs - 1) = i"
      using assms(3) by auto
    moreover have "s\<lparr>lastID := fst (msgs ! i)\<rparr> = s"
      using assms(4) by simp
    ultimately show ?thesis
      using reply id True by (simp add: Service_Update_def stream_reply_def stream_def batch_data_def)
  next
    case False
    have "Suc i + (length ?ms - 1) = min (i + 10) (length msgs - 1)" "length ?ms - 1 < 10"
      using False assms(3) by auto
    then have "last ?ms = msgs ! min (i + 10) (length msgs - 1)"
      using False by (metis drop_eq_Nil last_conv_nth leI nless_le nth_drop nth_take take_eq_Nil)
    moreover have "fst (last ?ms) \<noteq> []"
      using ok False by (auto simp: list_all_iff message_ok_def dest: last_in_set)
    ultimately show ?thesis
      using reply id stream_messages [OF ok False] by (simp add: Service_Update_def batch_data_def)
  qed
qed

text \<open>
  C17. Once the service has seen a message, \<open>n\<close> calls of \<^verbatim>\<open>Update\<close> deliver the next
  \<open>10 * n\<close> messages of the stream, ten by ten, in their order, without a gap and without a
  repetition; within a batch the last value of a key wins.
\<close>

theorem Updates_deliver_log:
  assumes "reads_log XREAD msgs" "list_all message_ok msgs" "i < length msgs" "lastID s = fst (msgs ! i)"
  shows "Service_Updates n XREAD s w =
    (map (\<lambda>j. Inr (batch_data (take 10 (drop (Suc i + 10 * j) msgs)))) [0..<n],
     s\<lparr>lastID := fst (msgs ! min (i + 10 * n) (length msgs - 1))\<rparr>, w)"
  using assms(3,4)
proof (induction n arbitrary: i s)
  case 0
  then show ?case by simp
next
  case (Suc n)
  let ?i = "min (i + 10) (length msgs - 1)"
  let ?s = "s\<lparr>lastID := fst (msgs ! ?i)\<rparr>"
  have "?i < length msgs" "lastID ?s = fst (msgs ! ?i)"
    using Suc.prems by auto
  note rest = Suc.IH [OF this]
  have later: "take 10 (drop (Suc ?i + 10 * j) msgs) = take 10 (drop (Suc i + 10 * Suc j) msgs)" for j
  proof (cases "i + 10 < length msgs")
    case True
    then have "?i = i + 10" by simp
    then have "Suc ?i + 10 * j = Suc i + 10 * Suc j" by simp
    then show ?thesis by (simp only:)
  next
    case False
    then have "length msgs \<le> Suc ?i + 10 * j" "length msgs \<le> Suc i + 10 * Suc j"
      using Suc.prems(1) by arith+
    then show ?thesis by simp
  qed
  have "min (?i + 10 * n) (length msgs - 1) = min (i + 10 * Suc n) (length msgs - 1)"
    by simp
  then show ?case
    using rest later Service_Update_log [OF assms(1,2) Suc.prems]
    by (simp add: upt_conv_Cons map_Suc_upt [symmetric] o_def del: upt_Suc)
qed

theorem Updates_deliver_log_witness:
  "Service_Updates 2 (\<lambda>c b st i w. (if i = ''1-0'' then Inr (stream_reply [(''2-0'', [(''user/1/name'', ''5'')])]) else Inr RNil, w))
     \<lparr>lastID = ''1-0''\<rparr> () = ([Inr [(''user/1/name'', Some ''5'')], Inr []], \<lparr>lastID = ''2-0''\<rparr>, ())"
proof -
  let ?X = "\<lambda>c b st i (w :: unit). (if i = ''1-0'' then Inr (stream_reply [(''2-0'', [(''user/1/name'', ''5'')])])
    else Inr RNil, w)"
  let ?log = "[(''1-0'', []), (''2-0'', [(''user/1/name'', ''5'')])]"
  have "reads_log ?X ?log"
    unfolding reads_log_def
  proof (intro allI impI)
    fix i :: nat and w :: unit
    assume "i < length ?log"
    then consider "i = 0" | "i = 1" by fastforce
    then show "?X maxMessages blockTimeout fieldChangedTopic (fst (?log ! i)) w =
        (Inr (stream_reply (take 10 (drop (Suc i) ?log))), w)"
      by cases (simp_all add: stream_reply_def)
  qed
  moreover have "list_all message_ok ?log"
    by (simp add: message_ok_def count_char_def)
  ultimately have "Service_Updates 2 ?X \<lparr>lastID = ''1-0''\<rparr> () =
      (map (\<lambda>j. Inr (batch_data (take 10 (drop (Suc 0 + 10 * j) ?log)))) [0..<2],
       \<lparr>lastID = ''1-0''\<rparr>\<lparr>lastID := fst (?log ! min (0 + 10 * 2) (length ?log - 1))\<rparr>, ())"
    by (rule Updates_deliver_log) simp_all
  moreover have "map (\<lambda>j. Inr (batch_data (take 10 (drop (Suc 0 + 10 * j) ?log)))) [0..<2] =
      [Inr [(''user/1/name'', Some ''5'')], Inr []]"
    by (simp add: upt_rec batch_data_def message_data_def mput_def)
  ultimately show ?thesis by simp
qed

end
