(* ===== verification/Command.thy ===== *)
theory Command
  imports Http Redis
begin

text \<open>
  The command \<^verbatim>\<open>cmd/autoupdate\<close>: the choice of the services from the environment, the
  certificate, the fake services of \<^verbatim>\<open>fakes.go\<close>, the shutdown, and how \<^verbatim>\<open>main\<close>
  puts the service together.

  The environment, the file system, the certificate library and redis are parameters; what is
  printed is not modelled.
\<close>

section \<open>Environment\<close>

type_synonym environment = "string \<Rightarrow> string"

text \<open>\<^verbatim>\<open>os.Getenv\<close> returns the empty string for a variable that is not set.\<close>

definition getEnv :: "environment \<Rightarrow> string \<Rightarrow> string \<Rightarrow> string" where
  "getEnv env name devaultValue = (let v = env name in if v = [] then devaultValue else v)"

section \<open>Fake services\<close>

text \<open>
  \<open>faker = None\<close> is the nil pointer; \<open>faker_buf\<close> is the rest of the input, which ends with
  \<^verbatim>\<open>io.EOF\<close> or with an error.
\<close>

record faker =
  faker_url :: string
  faker_buf :: string
  faker_end :: "goerror option"

definition newFaker :: "string \<Rightarrow> string \<Rightarrow> goerror option \<Rightarrow> faker" where
  "newFaker u input e = \<lparr>faker_url = u, faker_buf = input, faker_end = e\<rparr>"

text \<open>\<^verbatim>\<open>ReadString\<close>: the next line with its end, or the error at the end of the input.\<close>

definition ReadString :: "faker \<Rightarrow> (goerror + string) \<times> faker" where
  "ReadString f =
     (let line = takeWhile (\<lambda>c. c \<noteq> CHR 0x0A) (faker_buf f); rest = dropWhile (\<lambda>c. c \<noteq> CHR 0x0A) (faker_buf f)
      in (case rest of
            [] \<Rightarrow> (Inl (case faker_end f of None \<Rightarrow> EEOF | Some e \<Rightarrow> e), f\<lparr>faker_buf := []\<rparr>)
          | c # cs \<Rightarrow> (Inr (line @ [c]), f\<lparr>faker_buf := cs\<rparr>)))"

text \<open>
  The loop over the words of a line; \<open>now\<close> is the text of the current time. A word without
  an equals sign is a key with the time as its value.
\<close>

definition faker_value :: "string \<Rightarrow> string list \<Rightarrow> string \<times> raw" where
  "faker_value now keyValue =
     (case keyValue of
        key # v # _ \<Rightarrow> (key, Some v)
      | key # [] \<Rightarrow> (key, Some ([CHR 0x22] @ ''The time is: '' @ now @ [CHR 0x22]))
      | [] \<Rightarrow> ([], None))"

definition faker_data :: "string \<Rightarrow> string \<Rightarrow> data" where
  "faker_data now msg =
     mput_all (map (\<lambda>d. faker_value now (split_n CHR ''='' 2 d)) (split_on CHR '' '' (trim_space msg))) []"

text \<open>\<open>None\<close>: \<^verbatim>\<open>Update\<close> blocks forever.\<close>

definition faker_Update :: "string \<Rightarrow> faker option \<Rightarrow> ((goerror + data) \<times> faker) option" where
  "faker_Update now f =
     (case f of
        None \<Rightarrow> None
      | Some fk \<Rightarrow>
          (case ReadString fk of
             (Inl e, fk') \<Rightarrow> if e = EEOF then None else Some (Inl (EWrap ''read from buffer: '' e), fk')
           | (Inr msg, fk') \<Rightarrow> Some (Inr (faker_data now msg), fk')))"

definition fakeAuth_Authenticate :: "int \<Rightarrow> request \<Rightarrow> goerror + int" where
  "fakeAuth_Authenticate a r = Inr a"

definition buildAuth :: "request \<Rightarrow> goerror + int" where
  "buildAuth = fakeAuth_Authenticate 1"

section \<open>Building the services\<close>

datatype receiver =
    FakeUpdater "faker option"
  | RedisUpdater string service

text \<open>\<open>do_cmd\<close> is a command on a connection to the redis server at an address.\<close>

definition buildReceiver :: "(string \<Rightarrow> string \<Rightarrow> string list \<Rightarrow> 'w \<Rightarrow> (goerror + reply) \<times> 'w) \<Rightarrow> environment
    \<Rightarrow> faker option \<Rightarrow> 'w \<Rightarrow> (goerror + receiver) \<times> 'w" where
  "buildReceiver do_cmd env f w =
     (let serviceName = getEnv env ''MESSAGING'' ''fake''
      in if serviceName = ''redis'' then
           (let redisAddress = getEnv env ''MESSAGE_BUS_HOST'' ''localhost'' @ '':'' @ getEnv env ''MESSAGE_BUS_PORT'' ''6379'';
                receiver = Inr (RedisUpdater redisAddress \<lparr>lastID = []\<rparr>)
            in if getEnv env ''REDIS_TEST_CONN'' ''true'' = ''true'' then
                 (case Pool_TestConn (do_cmd redisAddress) w of
                    (Some e, w') \<Rightarrow> (Inl (EWrap ''connect to redis: '' e), w')
                  | (None, w') \<Rightarrow> (receiver, w'))
               else (receiver, w))
         else if serviceName = ''fake'' then (Inr (FakeUpdater f), w)
         else (Inl (EMsg (''unknown messagin service '' @ serviceName)), w))"

text \<open>
  The datastore with its updater. \<open>fk\<close> is the faker that is created when it is needed: the
  standard input, and the address of its test server.
\<close>

definition buildDatastore :: "(string \<Rightarrow> string \<Rightarrow> string list \<Rightarrow> 'w \<Rightarrow> (goerror + reply) \<times> 'w) \<Rightarrow> environment
    \<Rightarrow> faker \<Rightarrow> 'w \<Rightarrow> (goerror + 's datastore \<times> receiver) \<times> 'w" where
  "buildDatastore do_cmd env fk w =
     (let dsService = getEnv env ''DATASTORE'' ''fake'';
          choice =
            (if dsService = ''fake'' then Inr (Some fk, faker_url fk)
             else if dsService = ''service'' then
               (let host = getEnv env ''DATASTORE_READER_HOST'' ''localhost'';
                    port = getEnv env ''DATASTORE_READER_PORT'' ''9010'';
                    protocol = getEnv env ''DATASTORE_READER_PROTOCOL'' ''http''
                in Inr (None, protocol @ ''://'' @ host @ '':'' @ port))
             else Inl (EMsg (''unknown datastore '' @ dsService)))
      in (case choice of
            Inl e \<Rightarrow> (Inl e, w)
          | Inr (f, u) \<Rightarrow>
              (case buildReceiver do_cmd env f w of
                 (Inl e, w') \<Rightarrow> (Inl (EWrap ''build receiver: '' e), w')
               | (Inr receiver, w') \<Rightarrow> (Inr (New u, receiver), w'))))"

section \<open>Certificate\<close>

text \<open>
  \<^verbatim>\<open>GenerateCert\<close> of \<^verbatim>\<open>internal/http/cert.go\<close>. The crypto library is a
  parameter: \<open>genkey\<close> creates a key, \<open>randInt\<close> a random number below a limit, and
  \<open>create\<close> signs a template with the key. Times are in nanoseconds; the numbers of the usages
  are those of the package \<^verbatim>\<open>x509\<close>.
\<close>

definition certValidDuration :: int where
  "certValidDuration = 90 * 24 * 60 * 60 * 1000000000"

record cert_template =
  SerialNumber :: int
  Organization :: "string list"
  NotBefore :: int
  NotAfter :: int
  KeyUsage :: int
  ExtKeyUsage :: "int list"
  BasicConstraintsValid :: bool

record 'k certificate =
  cert_data :: "string list"
  cert_key :: 'k

definition GenerateCert :: "('w \<Rightarrow> (goerror + 'k) \<times> 'w) \<Rightarrow> ('w \<Rightarrow> int) \<Rightarrow> (int \<Rightarrow> 'w \<Rightarrow> (goerror + int) \<times> 'w)
    \<Rightarrow> (cert_template \<Rightarrow> 'k \<Rightarrow> 'w \<Rightarrow> (goerror + string) \<times> 'w) \<Rightarrow> 'w \<Rightarrow> (goerror + 'k certificate) \<times> 'w" where
  "GenerateCert genkey now randInt create w =
     (case genkey w of
        (Inl e, w1) \<Rightarrow> (Inl (EWrap ''creating private key: '' e), w1)
      | (Inr priv, w1) \<Rightarrow>
          (let notBefore = now w1; notAfter = notBefore + certValidDuration
           in (case randInt (2 ^ 128) w1 of
                 (Inl e, w2) \<Rightarrow> (Inl (EWrap ''generating serial number: '' e), w2)
               | (Inr serialNumber, w2) \<Rightarrow>
                   (case create \<lparr>SerialNumber = serialNumber, Organization = [''OpenSlides''], NotBefore = notBefore,
                       NotAfter = notAfter, KeyUsage = 4 + 1, ExtKeyUsage = [1], BasicConstraintsValid = True\<rparr> priv w2 of
                      (Inl e, w3) \<Rightarrow> (Inl (EWrap ''create certificate: '' e), w3)
                    | (Inr certData, w3) \<Rightarrow> (Inr \<lparr>cert_data = [certData], cert_key = priv\<rparr>, w3)))))"

definition generalCertName :: string where
  "generalCertName = ''cert.pem''"

definition generalKeyName :: string where
  "generalKeyName = ''key.pem''"

definition specialCertName :: string where
  "specialCertName = ''autoupdate.pem''"

definition specialKeyName :: string where
  "specialKeyName = ''autoupdate-key.pem''"

text \<open>\<^verbatim>\<open>path.Clean\<close> and \<^verbatim>\<open>path.Join\<close> of two elements.\<close>

fun clean_parts :: "bool \<Rightarrow> string list \<Rightarrow> string list \<Rightarrow> string list" where
  "clean_parts rooted acc [] = rev acc"
| "clean_parts rooted acc (p # ps) =
     (if p = [] \<or> p = ''.'' then clean_parts rooted acc ps
      else if p = ''..'' then
        (case acc of
           [] \<Rightarrow> clean_parts rooted (if rooted then [] else [p]) ps
         | a # as \<Rightarrow> clean_parts rooted (if a = ''..'' then p # acc else as) ps)
      else clean_parts rooted (p # acc) ps)"

definition path_Clean :: "string \<Rightarrow> string" where
  "path_Clean s =
     (let rooted = (take 1 s = ''/'');
          r = (if rooted then ''/'' else []) @ join_with ''/'' (clean_parts rooted [] (split_on CHR ''/'' s))
      in if r = [] then ''.'' else r)"

definition path_Join :: "string \<Rightarrow> string \<Rightarrow> string" where
  "path_Join a b =
     (if a = [] \<and> b = [] then []
      else if a = [] then path_Clean b
      else if b = [] then path_Clean a
      else path_Clean (a @ ''/'' @ b))"

text \<open>
  \<open>missing\<close> tells for a file whether \<^verbatim>\<open>os.Stat\<close> fails because it does not exist;
  \<open>gen\<close> and \<open>load\<close> create and load a certificate. In both branches the second
  \<^verbatim>\<open>os.Stat\<close> asks for the same file as the first one.
\<close>

definition find_file :: "(string \<Rightarrow> bool) \<Rightarrow> string \<Rightarrow> string \<Rightarrow> string \<Rightarrow> goerror + string" where
  "find_file missing certDir special general =
     (let certFile = path_Join certDir special
      in if missing certFile then
           (let certFile2 = path_Join certDir general
            in if missing certFile then Inl (EMsg (certFile @ '' or '' @ certFile2 @ '' has to exist''))
               else Inr certFile2)
         else Inr certFile)"

definition getCert :: "environment \<Rightarrow> (string \<Rightarrow> bool) \<Rightarrow> (goerror + 'c) \<Rightarrow> (string \<Rightarrow> string \<Rightarrow> goerror + 'c) \<Rightarrow> goerror + 'c" where
  "getCert env missing gen load =
     (let certDir = getEnv env ''CERT_DIR'' []
      in if certDir = [] then map_sum (EWrap ''creating new certificate: '') id gen
         else
           (case find_file missing certDir specialCertName generalCertName of
              Inl e \<Rightarrow> Inl e
            | Inr certFile \<Rightarrow>
                (case find_file missing certDir specialKeyName generalKeyName of
                   Inl e \<Rightarrow> Inl e
                 | Inr keyFile \<Rightarrow>
                     map_sum (EWrap (''loading certificates from '' @ certFile @ '' and '' @ keyFile @ '': '')) id
                       (load certFile keyFile))))"

section \<open>Shutdown\<close>

text \<open>
  \<^verbatim>\<open>waitForShutdown\<close> and the goroutine that calls it: the first signal closes the
  services and the HTTP server, a second signal ends the process at once with status 1, and
  when the server is shut down \<^verbatim>\<open>main\<close> returns.
\<close>

datatype process_state = Serving | ShuttingDown | Exited nat

datatype process_event = Signal | ShutdownDone

fun process_step :: "process_event \<Rightarrow> process_state \<Rightarrow> process_state" where
  "process_step Signal Serving = ShuttingDown"
| "process_step Signal ShuttingDown = Exited 1"
| "process_step ShutdownDone ShuttingDown = Exited 0"
| "process_step _ st = st"

section \<open>Main\<close>

definition listen_addr :: "environment \<Rightarrow> string" where
  "listen_addr env = getEnv env ''AUTOUPDATE_HOST'' [] @ '':'' @ getEnv env ''AUTOUPDATE_PORT'' ''9012''"

text \<open>The permission service, the restricter and the handler that \<^verbatim>\<open>main\<close> creates.\<close>

definition main_perm :: permission where
  "main_perm = MockPermission Map.empty True"

definition main_restricter :: restricter where
  "main_restricter = New_Restricter OpenSlidesChecker"

definition main_handler :: "'w http_client \<Rightarrow> ('s, 'w) world topic \<Rightarrow> (string \<Rightarrow> 64 word) \<Rightarrow> (process \<Rightarrow> process)
    \<Rightarrow> ('s, 'w) world handler" where
  "main_handler http tp hash ord =
     \<lparr>h_rd = RestrictedData http main_perm main_restricter, h_topic = tp, h_hash = hash,
      h_auth = buildAuth, h_ord = ord\<rparr>"

text \<open>
  The start of the service: the datastore with the change listener of the autoupdate service, its
  updater, the certificate and the address, or the error with which the process ends.
\<close>

definition main_setup :: "(string \<Rightarrow> string \<Rightarrow> string list \<Rightarrow> 'w \<Rightarrow> (goerror + reply) \<times> 'w) \<Rightarrow> environment \<Rightarrow> faker
    \<Rightarrow> (string list \<Rightarrow> 's \<Rightarrow> 's) \<Rightarrow> (string \<Rightarrow> bool) \<Rightarrow> (goerror + 'c) \<Rightarrow> (string \<Rightarrow> string \<Rightarrow> goerror + 'c) \<Rightarrow> 'w
    \<Rightarrow> (goerror + 's datastore \<times> receiver \<times> 'c \<times> string) \<times> 'w" where
  "main_setup do_cmd env fk publish missing gen load w =
     (case buildDatastore do_cmd env fk w of
        (Inl e, w') \<Rightarrow> (Inl (EWrap ''Can not create datastore service: '' e), w')
      | (Inr (d, receiver), w') \<Rightarrow>
          (case getCert env missing gen load of
             Inl e \<Rightarrow> (Inl (EWrap ''Can not get certificate: '' e), w')
           | Inr cert \<Rightarrow> (Inr (New_Autoupdate publish d, receiver, cert, listen_addr env), w')))"

section \<open>Properties\<close>

lemma ReadString_line:
  assumes "CHR 0x0A \<notin> set l" "faker_buf f = l @ CHR 0x0A # rest"
  shows "ReadString f = (Inr (l @ [CHR 0x0A]), f\<lparr>faker_buf := rest\<rparr>)"
proof -
  have "takeWhile (\<lambda>c. c \<noteq> CHR 0x0A) (l @ CHR 0x0A # rest) = l" "dropWhile (\<lambda>c. c \<noteq> CHR 0x0A) (l @ CHR 0x0A # rest) = CHR 0x0A # rest"
    using assms(1) by (induction l) auto
  then show ?thesis
    by (simp add: ReadString_def assms(2))
qed

lemma faker_line_data:
  assumes "assignments_ok ps"
  shows "faker_data now (assignments_line ps @ [CHR 0x0A]) = mput_all (map (\<lambda>(k, v). (k, Some v)) ps) []"
proof -
  have "map (\<lambda>d. faker_value now (split_n CHR ''='' 2 d)) (map assignment ps) = map (\<lambda>(k, v). (k, Some v)) ps"
    using assms by (auto simp: assignments_ok_def split_assignment faker_value_def)
  then show ?thesis
    unfolding faker_data_def split_assignments(2) [OF assms] by (rule arg_cong)
qed

text \<open>
  C33. The fake updater reads back what is written to its input: a line of assignments is
  returned as the map with these keys and values, a later assignment to a key wins, and the
  next call starts with the next line. At the end of the input it blocks.
\<close>

theorem faker_Update_line:
  assumes "assignments_ok ps" "faker_buf f = assignments_line ps @ CHR 0x0A # rest"
  shows "faker_Update now (Some f) =
      Some (Inr (mput_all (map (\<lambda>(k, v). (k, Some v)) ps) []), f\<lparr>faker_buf := rest\<rparr>) \<and>
    faker_Update now (Some (newFaker u [] None)) = None"
  using ReadString_line [OF split_assignments(3) [OF assms(1)] assms(2)] faker_line_data [OF assms(1), of now]
  by (simp add: faker_Update_def) (simp add: ReadString_def newFaker_def)

theorem faker_Update_line_witness:
  "faker_Update [] (Some (newFaker [] (assignments_line [(''user/1/name'', ''5'')] @ CHR 0x0A # ''x'') None)) =
     Some (Inr [(''user/1/name'', Some ''5'')], newFaker [] ''x'' None)"
  using faker_Update_line [of "[(''user/1/name'', ''5'')]"
      "newFaker [] (assignments_line [(''user/1/name'', ''5'')] @ CHR 0x0A # ''x'') None" "''x''" "[]" "[]"]
  by (simp add: newFaker_def assignments_ok_def is_space_def mput_def)

text \<open>
  C34. The general certificate is never used: when one of the two special files does not exist,
  the service does not start, whether the general files exist or not, because the second
  \<^verbatim>\<open>os.Stat\<close> asks for the special file again.
\<close>

theorem getCert_needs_special:
  assumes "getEnv env ''CERT_DIR'' [] = dir" "dir \<noteq> []"
    and "missing (path_Join dir specialCertName) \<or> missing (path_Join dir specialKeyName)"
  shows "\<exists>msg. getCert env missing gen load = Inl (EMsg msg)"
  using assms by (auto simp: getCert_def find_file_def Let_def)

theorem getCert_needs_special_witness:
  "\<exists>msg. getCert (\<lambda>n. if n = ''CERT_DIR'' then ''/certs'' else [])
      (\<lambda>file. file \<notin> {''/certs/cert.pem'', ''/certs/key.pem''}) (Inr ()) (\<lambda>c k. Inr ()) = Inl (EMsg msg)"
proof (rule getCert_needs_special)
  show "getEnv (\<lambda>n. if n = ''CERT_DIR'' then ''/certs'' else []) ''CERT_DIR'' [] = ''/certs''"
    by (simp add: getEnv_def)
  have "path_Join ''/certs'' specialCertName = ''/certs/autoupdate.pem''"
    by code_simp
  then show "path_Join ''/certs'' specialCertName \<notin> {''/certs/cert.pem'', ''/certs/key.pem''} \<or>
      path_Join ''/certs'' specialKeyName \<notin> {''/certs/cert.pem'', ''/certs/key.pem''}"
    by simp
qed simp



end
