(* ===== verification/Json_Text.thy ===== *)
theory Json_Text
  imports Json_Codec
begin

text \<open>
  Texts of JSON values as the service passes them on. Every valid JSON text without surrounding
  white space is a \<open>text_of\<close> its value: it can be put into an object as it is, and a scan of
  the object finds the same bytes again. This is what makes \<^verbatim>\<open>json.RawMessage\<close> work.

  The second half is about the way \<^verbatim>\<open>json.Encoder\<close> writes a
  \<^verbatim>\<open>RawMessage\<close>: white space between tokens is dropped and some characters are escaped,
  and the result is a text again.
\<close>

section \<open>More fuel does not matter\<close>

lemma parse_more_fuel:
  "(\<forall>s. parse_value n s \<noteq> Inl OutOfFuel \<longrightarrow> parse_value (Suc n) s = parse_value n s) \<and>
   (\<forall>s. parse_elems n s \<noteq> Inl OutOfFuel \<longrightarrow> parse_elems (Suc n) s = parse_elems n s) \<and>
   (\<forall>s. parse_members n s \<noteq> Inl OutOfFuel \<longrightarrow> parse_members (Suc n) s = parse_members n s)"
proof (induction n)
  case 0
  show ?case by (simp add: parse_value.simps(1) parse_elems.simps(1) parse_members.simps(1))
next
  case (Suc n)
  have V: "parse_value (Suc n) s = parse_value n s" if "parse_value n s \<noteq> Inl OutOfFuel" for s using Suc that by blast
  have E: "parse_elems (Suc n) s = parse_elems n s" if "parse_elems n s \<noteq> Inl OutOfFuel" for s using Suc that by blast
  have M: "parse_members (Suc n) s = parse_members n s" if "parse_members n s \<noteq> Inl OutOfFuel" for s using Suc that by blast
  have "parse_value (Suc (Suc n)) s = parse_value (Suc n) s" if "parse_value (Suc n) s \<noteq> Inl OutOfFuel" for s
    using that unfolding parse_value.simps(2) by (auto simp: M E split: list.splits)
  moreover have "parse_elems (Suc (Suc n)) s = parse_elems (Suc n) s" if "parse_elems (Suc n) s \<noteq> Inl OutOfFuel" for s
  proof (cases "parse_value n s")
    case (Inl e)
    then show ?thesis
      using that V [of s] by (simp add: parse_elems.simps(2))
  next
    case (Inr p)
    then show ?thesis
      using that V [of s] by (cases p) (auto simp: parse_elems.simps(2) [of _ s] E split: list.splits)
  qed
  moreover have "parse_members (Suc (Suc n)) s = parse_members (Suc n) s" if ok: "parse_members (Suc n) s \<noteq> Inl OutOfFuel" for s
  proof (cases "\<exists>cs k r1 r2. skip_ws s = CHR 0x22 # cs \<and> lex_string cs = Inr (k, r1) \<and> skip_ws r1 = CHR '':'' # r2")
    case True
    then obtain cs k r1 r2 where h: "skip_ws s = CHR 0x22 # cs" "lex_string cs = Inr (k, r1)" "skip_ws r1 = CHR '':'' # r2"
      by blast
    show ?thesis
    proof (cases "parse_value n r2")
      case (Inl e)
      then show ?thesis
        using ok h V [of r2] by (simp add: parse_members.simps(2))
    next
      case (Inr p)
      then show ?thesis
        using ok h V [of r2] by (cases p) (auto simp: parse_members.simps(2) [of _ s] Let_def M split: list.splits)
    qed
  next
    case False
    then show ?thesis
      unfolding parse_members.simps(2) by (auto split: list.splits sum.splits)
  qed
  ultimately show ?case by blast
qed

lemma parse_value_fuel:
  assumes "parse_value n s \<noteq> Inl OutOfFuel" "n \<le> m"
  shows "parse_value m s = parse_value n s"
  using assms(2)
proof (induction rule: dec_induct)
  case (step k)
  then show ?case
    using parse_more_fuel [of k] assms(1) by metis
qed simp

section \<open>What a scan consumes\<close>

lemma skip_ws_split:
  assumes "skip_ws s = c # cs"
  obtains w where "s = w @ c # cs" "list_all is_ws w" "\<not> is_ws c"
proof -
  have "s = takeWhile is_ws s @ c # cs"
    using assms takeWhile_dropWhile_id [of is_ws s] by (simp add: skip_ws_def)
  moreover have "list_all is_ws (takeWhile is_ws s)"
    by (auto simp: list_all_iff dest: set_takeWhileD)
  moreover have "\<not> is_ws c"
    using assms hd_dropWhile [of is_ws s] by (simp add: skip_ws_def)
  ultimately show ?thesis by (rule that)
qed

lemma skip_ws_append [simp]: "list_all is_ws w \<Longrightarrow> skip_ws (w @ s) = skip_ws s"
  by (simp add: skip_ws_def list_all_iff dropWhile_append)

lemma parse_value_ws [simp]: "list_all is_ws w \<Longrightarrow> parse_value n (w @ s) = parse_value n s"
  by (cases n) (simp_all add: parse_value.simps)

lemma delim_ws: "list_all is_ws w \<Longrightarrow> delim s \<Longrightarrow> delim (w @ s)"
  by (cases w) simp_all

lemma lex_string_text:
  "lex_string s = Inr (b, r) \<Longrightarrow> s = b @ CHR 0x22 # r \<and> (\<forall>r'. lex_string (b @ CHR 0x22 # r') = Inr (b, r'))"
proof (induction "length s" arbitrary: s b rule: less_induct)
  case less
  have IH: "t = b' @ CHR 0x22 # r \<and> (\<forall>r'. lex_string (b' @ CHR 0x22 # r') = Inr (b', r'))"
    if "lex_string t = Inr (b', r)" "length t < length s" for t b'
    using less.hyps that by blast
  show ?case
  proof (cases s)
    case (Cons c cs)
    then show ?thesis
      using less.prems by (auto split: if_splits list.splits dest!: IH)
  qed (use less.prems in simp)
qed

text \<open>What ends a number.\<close>

definition number_end :: "string \<Rightarrow> bool" where
  "number_end r \<longleftrightarrow> (case r of [] \<Rightarrow> True | c # _ \<Rightarrow> \<not> is_digit c \<and> c \<notin> {CHR ''.'', CHR ''e'', CHR ''E''})"

lemma number_end_delim: "delim r \<Longrightarrow> number_end r"
  by (auto simp: number_end_def delim_def is_ws_def is_digit_def split: list.splits)

abbreviation no_digit :: "string \<Rightarrow> bool" where
  "no_digit r \<equiv> (case r of [] \<Rightarrow> True | c # _ \<Rightarrow> \<not> is_digit c)"

lemma digits_append:
  assumes "no_digit r"
  shows "takeWhile is_digit (takeWhile is_digit s @ r) = takeWhile is_digit s"
    and "dropWhile is_digit (takeWhile is_digit s @ r) = r"
proof -
  have "\<forall>c \<in> set (takeWhile is_digit s). is_digit c"
    by (auto dest: set_takeWhileD)
  moreover have "takeWhile is_digit r = []" "dropWhile is_digit r = r"
    using assms by (auto split: list.splits)
  ultimately show "takeWhile is_digit (takeWhile is_digit s @ r) = takeWhile is_digit s"
    "dropWhile is_digit (takeWhile is_digit s @ r) = r"
    by (simp_all add: takeWhile_append dropWhile_append)
qed

lemma lex_int_text:
  "lex_int s = Inr (t, r) \<Longrightarrow> s = t @ r \<and> (\<forall>r'. no_digit r' \<longrightarrow> lex_int (t @ r') = Inr (t, r'))"
  by (cases s) (auto simp: lex_int_def digits_append split: if_splits)

lemma lex_digits1_text:
  "lex_digits1 s = Inr (t, r) \<Longrightarrow> s = t @ r \<and> (\<forall>r'. no_digit r' \<longrightarrow> lex_digits1 (t @ r') = Inr (t, r'))"
  by (cases s) (auto simp: lex_digits1_def digits_append split: if_splits)

lemma lex_frac_text:
  assumes "lex_frac s = Inr (t, r)"
  shows "s = t @ r" "t = [] \<or> hd t = CHR ''.''"
    "no_digit r' \<Longrightarrow> r' = [] \<or> hd r' \<noteq> CHR ''.'' \<Longrightarrow> lex_frac (t @ r') = Inr (t, r')"
  using assms by (cases s; auto simp: lex_frac_def split: if_splits list.splits dest!: lex_digits1_text)+

lemma lex_exp_cases:
  assumes "lex_exp s = Inr (t, r)"
  obtains "t = []" "s = r" "s = [] \<or> hd s \<notin> {CHR ''e'', CHR ''E''}"
  | c d u where "c = CHR ''e'' \<or> c = CHR ''E''" "d = CHR ''+'' \<or> d = CHR ''-''" "t = c # d # u" "s = c # d # u @ r"
      "\<forall>r'. no_digit r' \<longrightarrow> lex_digits1 (u @ r') = Inr (u, r')"
  | c u where "c = CHR ''e'' \<or> c = CHR ''E''" "t = c # u" "s = c # u @ r" "u \<noteq> []" "hd u \<noteq> CHR ''+''" "hd u \<noteq> CHR ''-''"
      "\<forall>r'. no_digit r' \<longrightarrow> lex_digits1 (u @ r') = Inr (u, r')"
proof (cases s)
  case Nil
  then show ?thesis
    using assms that(1) by (simp add: lex_exp_def)
next
  case (Cons c cs)
  show ?thesis
  proof (cases "c = CHR ''e'' \<or> c = CHR ''E''")
    case e: True
    then obtain d ds where cs: "cs = d # ds"
      using assms Cons by (cases cs) (simp_all add: lex_exp_def)
    show ?thesis
    proof (cases "d = CHR ''+'' \<or> d = CHR ''-''")
      case True
      then obtain u where u: "lex_digits1 ds = Inr (u, r)" "t = c # d # u"
        using assms Cons cs e by (auto simp: lex_exp_def)
      show ?thesis
        using that(2) [OF e True u(2)] lex_digits1_text [OF u(1)] Cons cs by simp
    next
      case False
      then obtain u where u: "lex_digits1 cs = Inr (u, r)" "t = c # u"
        using assms Cons cs e by (auto simp: lex_exp_def)
      have "u \<noteq> []" "hd u = d"
        using u(1) cs by (auto simp: lex_digits1_def split: if_splits)
      then show ?thesis
        using that(3) [OF e u(2)] lex_digits1_text [OF u(1)] Cons False by simp
    qed
  next
    case False
    then have "t = []" "s = r" "hd s \<notin> {CHR ''e'', CHR ''E''}"
      using assms Cons by (auto simp: lex_exp_def)
    then show ?thesis
      using that(1) by simp
  qed
qed

lemma number_end_no_digit: "number_end r \<Longrightarrow> no_digit r"
  by (auto simp: number_end_def split: list.splits)

lemma lex_exp_text:
  assumes "lex_exp s = Inr (t, r)"
  shows "s = t @ r" "t = [] \<or> hd t \<in> {CHR ''e'', CHR ''E''}"
  by (rule lex_exp_cases [OF assms]; auto)+

lemma lex_exp_extend:
  assumes "lex_exp s = Inr (t, r)" "number_end r'"
  shows "lex_exp (t @ r') = Inr (t, r')"
  using assms(1)
proof (cases rule: lex_exp_cases)
  case 1
  then show ?thesis
    using assms(2) by (auto simp: lex_exp_def number_end_def split: list.splits)
next
  case (2 c d u)
  then show ?thesis
    using number_end_no_digit [OF assms(2)] by (auto simp: lex_exp_def)
next
  case (3 c u)
  then show ?thesis
    using number_end_no_digit [OF assms(2)] by (cases u) (auto simp: lex_exp_def)
qed

lemma lex_number_text:
  assumes "lex_number s = Inr (t, r)"
  shows "s = t @ r" "delim r' \<Longrightarrow> lex_number (t @ r') = Inr (t, r')"
proof -
  define neg where "neg = (case s of c # _ \<Rightarrow> c = CHR ''-'' | [] \<Rightarrow> False)"
  define s0 where "s0 = (if neg then tl s else s)"
  obtain i s1 f s2 x where p: "lex_int s0 = Inr (i, s1)" "lex_frac s1 = Inr (f, s2)" "lex_exp s2 = Inr (x, r)"
    "t = (if neg then [CHR ''-''] else []) @ i @ f @ x"
    using assms unfolding lex_number_def Let_def s0_def [symmetric] neg_def [symmetric]
    by (auto split: sum.splits)
  have s: "s = (if neg then [CHR ''-''] else []) @ s0"
    by (cases s) (auto simp: s0_def neg_def)
  have i: "i \<noteq> []" "hd i \<noteq> CHR ''-''"
    using p(1) by (cases s0; auto simp: lex_int_def is_digit_not_minus split: if_splits)+
  show "s = t @ r"
    using s lex_int_text [OF p(1)] lex_frac_text(1) [OF p(2)] lex_exp_text(1) [OF p(3)] p(4) by simp
  assume "delim r'"
  then have r': "number_end r'" by (rule number_end_delim)
  have x: "lex_exp (x @ r') = Inr (x, r')"
    by (rule lex_exp_extend [OF p(3) r'])
  have x0: "no_digit (x @ r')" "x @ r' = [] \<or> hd (x @ r') \<noteq> CHR ''.''"
    using lex_exp_text(2) [OF p(3)] r'
    by (cases x; auto simp: number_end_def is_digit_def split: list.splits)+
  have f: "lex_frac (f @ x @ r') = Inr (f, x @ r')"
    by (rule lex_frac_text(3) [OF p(2) x0])
  have "no_digit (f @ x @ r')"
    using lex_frac_text(2) [OF p(2)] x0(1) by (cases f) (auto simp: is_digit_def)
  then have "lex_int (i @ f @ x @ r') = Inr (i, f @ x @ r')"
    using lex_int_text [OF p(1)] by blast
  then show "lex_number (t @ r') = Inr (t, r')"
    using p(4) f x i by (cases i; cases neg) (auto simp: lex_number_def)
qed

lemma lex_word_text: "lex_word w v s = Inr (v', r) \<Longrightarrow> s = w @ r \<and> v' = v"
  by (induction w v s rule: lex_word.induct) (auto split: if_splits)

lemma lex_word_append [simp]: "lex_word w v (w @ r) = Inr (v, r)"
  by (induction w) simp_all

lemma parse_literal_cases:
  assumes "parse_literal c cs = Inr (v, r)"
  obtains (str) b where "c = CHR 0x22" "lex_string cs = Inr (b, r)" "v = JStr (unquote b)"
  | (word) w where "c \<in> {CHR ''t'', CHR ''f'', CHR ''n''}" "cs = w @ r" "list_all (\<lambda>c. \<not> is_ws c \<and> c \<noteq> CHR 0x22) w"
      "\<And>r'. parse_literal c (w @ r') = Inr (v, r')"
  | (num) t where "c = CHR ''-'' \<or> is_digit c" "lex_number (c # cs) = Inr (t, r)" "v = JNum t"
      "\<And>s. parse_literal c s = map_sum id (\<lambda>(t, r). (JNum t, r)) (lex_number (c # s))"
proof -
  consider "c = CHR 0x22" | "c = CHR ''t''" | "c = CHR ''f''" | "c = CHR ''n''"
    | "c \<noteq> CHR 0x22 \<and> c \<noteq> CHR ''t'' \<and> c \<noteq> CHR ''f'' \<and> c \<noteq> CHR ''n''"
    by argo
  then show ?thesis
  proof cases
    case 1
    then show ?thesis
      using assms str by (auto simp: parse_literal_def)
  next
    case 2
    then have "cs = ''rue'' @ r" "v = JBool True"
      using assms by (simp_all add: parse_literal_def) (auto dest: lex_word_text)
    with 2 show ?thesis
      by (intro word [of "''rue''"]) (simp_all add: parse_literal_def is_ws_def)
  next
    case 3
    then have "cs = ''alse'' @ r" "v = JBool False"
      using assms by (simp_all add: parse_literal_def) (auto dest: lex_word_text)
    with 3 show ?thesis
      by (intro word [of "''alse''"]) (simp_all add: parse_literal_def is_ws_def)
  next
    case 4
    then have "cs = ''ull'' @ r" "v = JNull"
      using assms by (simp_all add: parse_literal_def) (auto dest: lex_word_text)
    with 4 show ?thesis
      by (intro word [of "''ull''"]) (simp_all add: parse_literal_def is_ws_def)
  next
    case 5
    then have c: "c = CHR ''-'' \<or> is_digit c"
      using assms by (simp add: parse_literal_def split: if_splits)
    with 5 have eq: "parse_literal c s = map_sum id (\<lambda>(t, r). (JNum t, r)) (lex_number (c # s))" for s
      by (simp add: parse_literal_def)
    with assms c num show ?thesis by auto
  qed
qed

lemma parse_literal_text:
  assumes "parse_literal c cs = Inr (v, r)"
  obtains u where "cs = u @ r" "\<And>r'. delim r' \<Longrightarrow> parse_literal c (u @ r') = Inr (v, r')"
  using assms
proof (cases rule: parse_literal_cases)
  case (str b)
  show ?thesis
    by (rule that [of "b @ [CHR 0x22]"]) (use str lex_string_text [OF str(2)] in \<open>simp_all add: parse_literal_def\<close>)
next
  case (word w)
  then show ?thesis by (intro that)
next
  case (num t)
  obtain t' where t': "t = c # t'"
    using lex_number_text(1) [OF num(2)] lex_number_shorter [OF num(2)] by (cases t) auto
  show ?thesis
    by (rule that [of t']) (use num t' lex_number_text [OF num(2)] in auto)
qed

section \<open>A valid text can be put before any delimiter\<close>

definition consumes :: "nat \<Rightarrow> string \<Rightarrow> json \<Rightarrow> string \<Rightarrow> bool" where
  "consumes n s v r \<longleftrightarrow>
     (\<exists>c u. skip_ws s = (c # u) @ r \<and> \<not> is_ws c \<and> (\<forall>r'. delim r' \<longrightarrow> parse_value n ((c # u) @ r') = Inr (v, r')))"

lemma parse_value_start:
  assumes "parse_value (Suc n) (c # cs) = Inr p" "\<not> is_ws c"
  shows "c \<noteq> CHR '']''" "c \<noteq> CHR ''}''"
  using assms by (auto simp: parse_value.simps(2) skip_ws_Cons parse_literal_def is_digit_def)

lemma consumes_value_step:
  assumes E: "\<And>s vs r. parse_elems n s = Inr (vs, r) \<Longrightarrow> \<exists>u. s = u @ r \<and> (\<forall>r'. parse_elems n (u @ r') = Inr (vs, r'))"
    and M: "\<And>s ms r. parse_members n s = Inr (ms, r) \<Longrightarrow> \<exists>u. s = u @ r \<and> (\<forall>r'. parse_members n (u @ r') = Inr (ms, r'))"
    and eq: "parse_value (Suc n) s = Inr (v, r)"
  shows "consumes (Suc n) s v r"
proof -
  obtain c cs where s: "skip_ws s = c # cs"
    using eq by (cases "skip_ws s") (auto simp: parse_value.simps(2))
  then have c: "\<not> is_ws c" by (auto elim: skip_ws_split)
  consider (obj) "c = CHR ''{''" | (arr) "c = CHR ''[''" | (lit) "c \<noteq> CHR ''{''" "c \<noteq> CHR ''[''" by blast
  then obtain u where "cs = u @ r" "\<forall>r'. delim r' \<longrightarrow> parse_value (Suc n) (c # u @ r') = Inr (v, r')"
  proof cases
    case obj
    then obtain d ds where d: "skip_ws cs = d # ds"
      using eq s by (cases "skip_ws cs") (auto simp: parse_value.simps(2))
    obtain w where w: "cs = w @ d # ds" "list_all is_ws w" "\<not> is_ws d"
      using d by (rule skip_ws_split)
    show ?thesis
    proof (cases "d = CHR ''}''")
      case True
      then have "v = JObj []" "r = ds"
        using eq s obj d by (simp_all add: parse_value.simps(2))
      then show ?thesis
        using obj w True by (intro that [of "w @ [d]"]) (simp_all add: parse_value.simps(2) skip_ws_Cons)
    next
      case False
      then obtain ms where ms: "parse_members n (d # ds) = Inr (ms, r)" "v = JObj ms"
        using eq s obj d by (auto simp: parse_value.simps(2))
      then obtain u where u: "d # ds = u @ r" "\<forall>r'. parse_members n (u @ r') = Inr (ms, r')"
        using M by blast
      moreover have "length r < length (d # ds)"
        using parse_shorter [of n] ms(1) by blast
      ultimately obtain u' where u': "u = d # u'" by (cases u) auto
      show ?thesis
        using obj w False u u' ms(2) by (intro that [of "w @ u"]) (auto simp: parse_value.simps(2) skip_ws_Cons)
    qed
  next
    case arr
    then obtain d ds where d: "skip_ws cs = d # ds"
      using eq s by (cases "skip_ws cs") (auto simp: parse_value.simps(2))
    obtain w where w: "cs = w @ d # ds" "list_all is_ws w" "\<not> is_ws d"
      using d by (rule skip_ws_split)
    show ?thesis
    proof (cases "d = CHR '']''")
      case True
      then have "v = JArr []" "r = ds"
        using eq s arr d by (simp_all add: parse_value.simps(2))
      then show ?thesis
        using arr w True by (intro that [of "w @ [d]"]) (simp_all add: parse_value.simps(2) skip_ws_Cons)
    next
      case False
      then obtain vs where vs: "parse_elems n (d # ds) = Inr (vs, r)" "v = JArr vs"
        using eq s arr d by (auto simp: parse_value.simps(2))
      then obtain u where u: "d # ds = u @ r" "\<forall>r'. parse_elems n (u @ r') = Inr (vs, r')"
        using E by blast
      moreover have "length r < length (d # ds)"
        using parse_shorter [of n] vs(1) by blast
      ultimately obtain u' where u': "u = d # u'" by (cases u) auto
      show ?thesis
        using arr w False u u' vs(2) by (intro that [of "w @ u"]) (auto simp: parse_value.simps(2) skip_ws_Cons)
    qed
  next
    case lit
    then have "parse_literal c cs = Inr (v, r)"
      using eq s by (simp add: parse_value.simps(2))
    then show ?thesis
    proof (rule parse_literal_text)
      fix u assume "cs = u @ r" "\<And>r'. delim r' \<Longrightarrow> parse_literal c (u @ r') = Inr (v, r')"
      then show ?thesis
        using lit c by (intro that [of u]) (simp_all add: parse_value.simps(2) skip_ws_Cons)
    qed
  qed
  then show ?thesis
    using s c unfolding consumes_def by auto
qed

lemma consumesE:
  assumes "consumes n s v r"
  obtains w c u where "s = w @ (c # u) @ r" "list_all is_ws w" "\<not> is_ws c"
    "\<And>r'. delim r' \<Longrightarrow> parse_value n ((c # u) @ r') = Inr (v, r')"
  using assms unfolding consumes_def by (metis append_Cons skip_ws_split)

lemma consumes_elems_step:
  assumes V: "\<And>s v r. parse_value n s = Inr (v, r) \<Longrightarrow> consumes n s v r"
    and E: "\<And>s vs r. parse_elems n s = Inr (vs, r) \<Longrightarrow> \<exists>u. s = u @ r \<and> (\<forall>r'. parse_elems n (u @ r') = Inr (vs, r'))"
    and eq: "parse_elems (Suc n) s = Inr (vs, r)"
  shows "\<exists>u. s = u @ r \<and> (\<forall>r'. parse_elems (Suc n) (u @ r') = Inr (vs, r'))"
proof -
  obtain v r1 where h: "parse_value n s = Inr (v, r1)"
    using eq by (rule parse_elems_SucE)
  obtain w c u where s: "s = w @ (c # u) @ r1" "list_all is_ws w" "\<And>r'. delim r' \<Longrightarrow> parse_value n ((c # u) @ r') = Inr (v, r')"
    using V [OF h] by (rule consumesE) blast
  from eq show ?thesis
  proof (rule parse_elems_SucE)
    fix v' r1' cs assume "parse_value n s = Inr (v', r1')" "skip_ws r1' = CHR '']'' # cs" "vs = [v']" "r = cs"
    with h have e: "skip_ws r1 = CHR '']'' # cs" "vs = [v]" "r = cs" by simp_all
    obtain w1 where r1: "r1 = w1 @ CHR '']'' # cs" "list_all is_ws w1"
      using e(1) by (rule skip_ws_split) blast
    have "parse_elems (Suc n) (w @ (c # u) @ w1 @ CHR '']'' # r') = Inr (vs, r')" for r'
      using s(2,3) r1(2) e(2) delim_ws [OF r1(2)] by (simp add: parse_elems.simps(2) skip_ws_Cons)
    with s(1) r1(1) e(3) show ?thesis
      by (intro exI [of _ "w @ (c # u) @ w1 @ [CHR '']'']"]) simp
  next
    fix v' r1' cs vs' assume "parse_value n s = Inr (v', r1')" "skip_ws r1' = CHR '','' # cs"
      "parse_elems n cs = Inr (vs', r)" "vs = v' # vs'"
    with h have e: "skip_ws r1 = CHR '','' # cs" "parse_elems n cs = Inr (vs', r)" "vs = v # vs'" by simp_all
    obtain w1 where r1: "r1 = w1 @ CHR '','' # cs" "list_all is_ws w1"
      using e(1) by (rule skip_ws_split) blast
    obtain u2 where u2: "cs = u2 @ r" "\<forall>r'. parse_elems n (u2 @ r') = Inr (vs', r')"
      using E [OF e(2)] by blast
    have "parse_elems (Suc n) (w @ (c # u) @ w1 @ CHR '','' # u2 @ r') = Inr (vs, r')" for r'
      using s(2,3) r1(2) e(3) u2(2) delim_ws [OF r1(2)] by (simp add: parse_elems.simps(2) [of n] skip_ws_Cons)
    with s(1) r1(1) u2(1) show ?thesis
      by (intro exI [of _ "w @ (c # u) @ w1 @ CHR '','' # u2"]) simp
  qed
qed

lemma consumes_members_step:
  assumes V: "\<And>s v r. parse_value n s = Inr (v, r) \<Longrightarrow> consumes n s v r"
    and M: "\<And>s ms r. parse_members n s = Inr (ms, r) \<Longrightarrow> \<exists>u. s = u @ r \<and> (\<forall>r'. parse_members n (u @ r') = Inr (ms, r'))"
    and eq: "parse_members (Suc n) s = Inr (ms, r)"
  shows "\<exists>u. s = u @ r \<and> (\<forall>r'. parse_members (Suc n) (u @ r') = Inr (ms, r'))"
  using eq
proof (rule parse_members_SucE)
  fix cs k r1 r2 v r3 d r4 m
  assume h: "skip_ws s = CHR 0x22 # cs" "lex_string cs = Inr (k, r1)" "skip_ws r1 = CHR '':'' # r2"
    "parse_value n r2 = Inr (v, r3)" "skip_ws r3 = d # r4"
    and m: "m = (unquote k, take (length (skip_ws r2) - length r3) (skip_ws r2), v)"
    and e: "d = CHR ''}'' \<and> ms = [m] \<and> r = r4 \<or> d = CHR '','' \<and> (\<exists>ms'. parse_members n r4 = Inr (ms', r) \<and> ms = m # ms')"
  obtain w0 where s: "s = w0 @ CHR 0x22 # cs" "list_all is_ws w0" using h(1) by (rule skip_ws_split) blast
  have k: "cs = k @ CHR 0x22 # r1" "\<And>r'. lex_string (k @ CHR 0x22 # r') = Inr (k, r')"
    using lex_string_text [OF h(2)] by blast+
  obtain w1 where r1: "r1 = w1 @ CHR '':'' # r2" "list_all is_ws w1" using h(3) by (rule skip_ws_split) blast
  obtain w c u where r2: "r2 = w @ (c # u) @ r3" "list_all is_ws w" "\<not> is_ws c"
      "\<And>r'. delim r' \<Longrightarrow> parse_value n ((c # u) @ r') = Inr (v, r')"
    using V [OF h(4)] by (rule consumesE) blast
  obtain w3 where r3: "r3 = w3 @ d # r4" "list_all is_ws w3" "\<not> is_ws d" using h(5) by (rule skip_ws_split)
  have m2: "m = (unquote k, c # u, v)"
    using m r2(1-3) by (simp add: skip_ws_Cons)
  have de: "delim (w3 @ d # t)" for t
    using e by (auto intro: delim_ws [OF r3(2)])
  let ?pre = "w0 @ CHR 0x22 # k @ CHR 0x22 # w1 @ CHR '':'' # w @ (c # u) @ w3 @ [d]"
  have step: "parse_members (Suc n) (?pre @ t) =
      (if d = CHR '','' then map_sum id (\<lambda>(ms, r'). (m # ms, r')) (parse_members n t)
       else if d = CHR ''}'' then Inr ([m], t) else Inl SyntaxError)" for t
    using s(2) k(2) r1(2) r2(2,3) r2(4) [OF de] r3(2,3) m2
    by (simp add: parse_members.simps(2) [of n] skip_ws_Cons Let_def)
  have pre: "s = ?pre @ r4"
    using s(1) k(1) r1(1) r2(1) r3(1) by simp
  from e show ?thesis
  proof (elim disjE conjE exE)
    assume "d = CHR ''}''" "ms = [m]" "r = r4"
    then show ?thesis
      using step pre by (intro exI [of _ ?pre]) simp
  next
    fix ms' assume d: "d = CHR '',''" "parse_members n r4 = Inr (ms', r)" "ms = m # ms'"
    from M [OF d(2)] obtain u4 where u4: "r4 = u4 @ r" "\<forall>r'. parse_members n (u4 @ r') = Inr (ms', r')"
      by blast
    have "parse_members (Suc n) ((?pre @ u4) @ r') = Inr (ms, r')" for r'
      using step [of "u4 @ r'"] d u4(2) by simp
    with pre u4(1) show ?thesis
      by (intro exI [of _ "?pre @ u4"]) simp
  qed
qed

lemma parse_consumes:
  "(\<forall>s v r. parse_value n s = Inr (v, r) \<longrightarrow> consumes n s v r) \<and>
   (\<forall>s vs r. parse_elems n s = Inr (vs, r) \<longrightarrow> (\<exists>u. s = u @ r \<and> (\<forall>r'. parse_elems n (u @ r') = Inr (vs, r')))) \<and>
   (\<forall>s ms r. parse_members n s = Inr (ms, r) \<longrightarrow> (\<exists>u. s = u @ r \<and> (\<forall>r'. parse_members n (u @ r') = Inr (ms, r'))))"
proof (induction n)
  case 0
  show ?case by (simp add: parse_value.simps(1) parse_elems.simps(1) parse_members.simps(1))
next
  case (Suc n)
  then show ?case
    using consumes_value_step [of n] consumes_elems_step [of n] consumes_members_step [of n] by blast
qed

text \<open>A valid text without surrounding white space.\<close>

theorem valid_text_of:
  assumes "parse t = Inr (v, [])" "t \<noteq> []" "\<not> is_ws (hd t)"
  shows "text_of t v"
proof -
  have p: "parse_value (2 * length t + 2) t = Inr (v, [])"
    using assms(1) by (simp add: parse_def)
  have "consumes (2 * length t + 2) t v []"
    using parse_consumes p by blast
  moreover have ws: "skip_ws t = t"
    using assms(2,3) by (cases t) (simp_all add: skip_ws_Cons)
  ultimately have ext: "parse_value (2 * length t + 2) (t @ r) = Inr (v, r)" if "delim r" for r
    using that by (auto simp: consumes_def)
  have more: "parse_value n (t @ r) = Inr (v, r)" if "delim r" "2 * length t + 2 \<le> n" for n r
    using parse_value_fuel [OF _ that(2)] ext [OF that(1)] by simp
  obtain c cs where t: "t = c # cs" "\<not> is_ws c"
    using assms(2,3) by (cases t) auto
  have "parse_value (Suc (2 * length t + 1)) (c # cs) = Inr (v, [])"
    using p t(1) by simp
  note start = parse_value_start [OF this t(2)]
  show ?thesis
    unfolding text_of_def using t start more by blast
qed

section \<open>Writing a raw message\<close>

text \<open>
  \<^verbatim>\<open>json.Encoder\<close> writes a \<^verbatim>\<open>RawMessage\<close> without the white space between tokens,
  with the HTML characters and the two line separators of Unicode escaped; \<open>instr\<close> tells
  whether the position is inside of a string.
\<close>

definition html_escape :: "char \<Rightarrow> string" where
  "html_escape c = CHR 0x5C # ''u00'' @ [hex_digit ((of_char c :: nat) div 16), hex_digit ((of_char c :: nat) mod 16)]"

fun compact :: "bool \<Rightarrow> string \<Rightarrow> string" where
  "compact instr [] = []"
| "compact False (c # cs) =
     (if is_ws c then compact False cs else if c = CHR 0x22 then c # compact True cs else c # compact False cs)"
| "compact True (c # cs) =
     (if c = CHR 0x22 then c # compact False cs
      else if c = CHR 0x5C then (case cs of [] \<Rightarrow> [c] | e # es \<Rightarrow> c # e # compact True es)
      else if c \<in> {CHR ''<'', CHR ''>'', CHR ''&''} then html_escape c @ compact True cs
      else (case cs of
              a # b # rest \<Rightarrow>
                if c = CHR 0xE2 \<and> a = CHR 0x80 \<and> b = CHR 0xA8 then CHR 0x5C # ''u2028'' @ compact True rest
                else if c = CHR 0xE2 \<and> a = CHR 0x80 \<and> b = CHR 0xA9 then CHR 0x5C # ''u2029'' @ compact True rest
                else c # compact True cs
            | _ \<Rightarrow> c # compact True cs))"

lemma compact_string_code:
  "compact True (c # cs) =
     (if c = CHR 0x22 then c # compact False cs
      else if c = CHR 0x5C then (case cs of [] \<Rightarrow> [c] | e # es \<Rightarrow> c # e # compact True es)
      else if c = CHR ''<'' \<or> c = CHR ''>'' \<or> c = CHR ''&'' then html_escape c @ compact True cs
      else if c = CHR 0xE2 \<and> take 2 cs = [CHR 0x80, CHR 0xA8] then CHR 0x5C # ''u2028'' @ compact True (drop 2 cs)
      else if c = CHR 0xE2 \<and> take 2 cs = [CHR 0x80, CHR 0xA9] then CHR 0x5C # ''u2029'' @ compact True (drop 2 cs)
      else c # compact True cs)"
  by (simp add: numeral_2_eq_2 split: list.split)

lemmas compact_code [code] = compact.simps(1,2) compact_string_code

definition encode_raw :: "raw \<Rightarrow> string option" where
  "encode_raw v =
     (case v of
        None \<Rightarrow> Some ''null''
      | Some bs \<Rightarrow> if json_valid bs = None then None else Some (compact False bs))"

section \<open>Canonical values are written unchanged\<close>

lemma compact_plain:
  assumes "list_all (\<lambda>c. \<not> is_ws c \<and> c \<noteq> CHR 0x22) s"
  shows "compact False (s @ r) = s @ compact False r"
  using assms by (induction s) simp_all

lemma compact_in_string:
  assumes "c \<noteq> CHR 0x22" "c \<noteq> CHR 0x5C" "c \<notin> {CHR ''<'', CHR ''>'', CHR ''&''}" "c \<noteq> CHR 0xE2"
  shows "compact True (c # cs) = c # compact True cs"
  using assms by (auto split: list.split)

lemma hex_digit_plain:
  "n < 16 \<Longrightarrow> hex_digit n \<notin> {CHR 0x22, CHR 0x5C, CHR ''<'', CHR ''>'', CHR ''&'', CHR 0xE2}"
  by (auto simp: hex_digit_def dest: arg_cong [of _ _ "of_char :: char \<Rightarrow> nat"])

lemma html_safe_plain: "html_safe c \<Longrightarrow> c \<notin> {CHR 0x22, CHR 0x5C, CHR ''<'', CHR ''>'', CHR ''&'', CHR 0xE2}"
  by (cases "c = CHR 0xE2") (simp_all add: html_safe_def in_range_def)

lemma compact_escape: "compact True (CHR 0x5C # e # s) = CHR 0x5C # e # compact True s"
  by simp

lemma compact_hex:
  assumes "m < 16" "n < 16"
  shows "compact True (CHR 0x5C # ''u00'' @ hex_digit m # hex_digit n # s) =
    CHR 0x5C # ''u00'' @ hex_digit m # hex_digit n # compact True s"
proof -
  have "compact True (CHR ''0'' # t) = CHR ''0'' # compact True t" for t
    by (rule compact_in_string) simp_all
  moreover have "compact True (hex_digit k # t) = hex_digit k # compact True t" if "k < 16" for k t
    by (rule compact_in_string) (use hex_digit_plain [OF that] in simp_all)
  ultimately show ?thesis
    using assms by (simp only: append_Cons append_Nil compact_escape)
qed

lemma compact_encode_ascii:
  assumes "is_ascii c"
  shows "compact True (encode_ascii c @ s) = encode_ascii c @ compact True s"
proof (cases "html_safe c")
  case True
  then have "compact True (c # s) = c # compact True s"
    by (intro compact_in_string) (use html_safe_plain [OF True] in simp_all)
  with True show ?thesis by (simp add: encode_ascii_def)
next
  case False
  have n: "(of_char c :: nat) div 16 < 16" "(of_char c :: nat) mod 16 < 16"
    using is_ascii_of_char [OF assms] by simp_all
  from assms show ?thesis
  proof (cases rule: encode_ascii_cases)
    case plain
    with False show ?thesis by (simp add: encode_ascii_def split: if_splits)
  next
    case (short e)
    then show ?thesis by (simp only: append_Cons append_Nil compact_escape)
  next
    case hex
    then show ?thesis
      using compact_hex [OF n, of s] unfolding hex_escape_def by (simp only: append_Cons append_Nil)
  qed
qed

lemma compact_encode_body:
  "list_all is_ascii s \<Longrightarrow> compact True (encode_body s @ CHR 0x22 # r) = encode_body s @ CHR 0x22 # compact False r"
proof (induction s)
  case (Cons c s)
  then show ?case
    by (simp add: encode_body_ascii compact_encode_ascii del: compact.simps(3))
qed (simp add: encode_body_Nil)

lemma compact_marshal_string:
  "list_all is_ascii s \<Longrightarrow> compact False (marshal_string s @ r) = marshal_string s @ compact False r"
  by (simp add: marshal_string_def compact_encode_body del: compact.simps(3))

lemma Itoa_plain: "list_all (\<lambda>c. \<not> is_ws c \<and> c \<noteq> CHR 0x22) (Itoa i)"
proof -
  have "is_digit c \<Longrightarrow> \<not> is_ws c \<and> c \<noteq> CHR 0x22" for c
    by (auto simp: is_digit_def is_ws_def)
  then have "list_all (\<lambda>c. \<not> is_ws c \<and> c \<noteq> CHR 0x22) (show_nat n)" for n
    using show_nat_digits [of n] by (auto simp: list_all_iff)
  then show ?thesis
    by (simp add: Itoa_def is_ws_def)
qed

lemma compact_join:
  assumes "\<And>t r. t \<in> set ts \<Longrightarrow> compact False (t @ r) = t @ compact False r"
  shows "compact False (join_with '','' ts @ r) = join_with '','' ts @ compact False r"
  using assms
proof (induction ts)
  case (Cons t ts)
  then show ?case
    by (cases ts) (simp_all add: is_ws_def)
qed simp

lemma compact_render: "canonical v \<Longrightarrow> compact False (render v @ r) = render v @ compact False r"
proof (induction v arbitrary: r)
  case (JNum t)
  then obtain i where "t = Itoa i"
    by (auto split: option.splits)
  then show ?case
    using compact_plain [OF Itoa_plain] by simp
next
  case (JStr s)
  then show ?case by (simp add: compact_marshal_string)
next
  case (JArr vs)
  have "compact False (join_with '','' (map render vs) @ r') = join_with '','' (map render vs) @ compact False r'" for r'
    using JArr by (intro compact_join) (auto simp: list_all_iff)
  then show ?case
    by (simp add: marshal_list_def is_ws_def)
next
  case (JObj ms)
  have mem: "compact False (render_member m @ r') = render_member m @ compact False r'" if "m \<in> set ms" for m r'
  proof -
    obtain n t v where m: "m = (n, t, v)" by (cases m)
    have "list_all is_ascii n" "canonical v"
      using JObj.prems that m by (auto simp: list_all_iff)
    moreover have "compact False (render v @ r') = render v @ compact False r'"
      using JObj.IH that m \<open>canonical v\<close> by fastforce
    ultimately show ?thesis
      using m compact_marshal_string [of n "CHR '':'' # render v @ r'"] by (simp add: is_ws_def)
  qed
  have "compact False (join_with '','' (map render_member ms) @ r') = join_with '','' (map render_member ms) @ compact False r'" for r'
    using mem by (intro compact_join) auto
  then show ?case
    by (simp add: is_ws_def)
qed (simp_all add: is_ws_def)

lemma encode_raw_render: "canonical v \<Longrightarrow> encode_raw (Some (render v)) = Some (render v)"
  using compact_render [of v "[]"] by (simp add: encode_raw_def json_valid_render)

section \<open>What is written is a text\<close>

lemma compact_skip: "compact False (skip_ws s) = compact False s"
  by (induction s) (simp_all add: skip_ws_def)

lemma compact_token:
  assumes "skip_ws s = c # cs"
  shows "compact False s = c # compact (c = CHR 0x22) cs"
proof -
  have "\<not> is_ws c" using assms by (rule skip_ws_split)
  then show ?thesis
    using compact_skip [of s] assms by (cases "c = CHR 0x22") simp_all
qed

lemma compact_ws: "skip_ws s = [] \<Longrightarrow> compact False s = []"
  using compact_skip [of s] by simp

lemma is_hex_plain: "is_hex c \<Longrightarrow> c \<notin> {CHR 0x22, CHR 0x5C, CHR ''<'', CHR ''>'', CHR ''&'', CHR 0xE2}"
  by (auto simp: is_hex_def hex_val_def Let_def)

lemma compact_hexes: "list_all is_hex h \<Longrightarrow> compact True (h @ s) = h @ compact True s"
proof (induction h)
  case (Cons c h)
  then have "compact True (c # h @ s) = c # compact True (h @ s)"
    using is_hex_plain [of c] by (intro compact_in_string) auto
  with Cons show ?case by (simp del: compact.simps)
qed simp

lemma lex_html_escape:
  assumes "c \<in> {CHR ''<'', CHR ''>'', CHR ''&''}" "lex_string t = Inr (b, r)"
  shows "\<exists>b'. lex_string (html_escape c @ t) = Inr (b', r)"
proof -
  have "(of_char c :: nat) < 128" using assms(1) by auto
  note h = hex_escape_ok [OF this]
  have "html_escape c = CHR 0x5C # CHR ''u'' # hex_escape (of_char c)"
    by (simp add: html_escape_def hex_escape_def)
  then show ?thesis
    using lex_string_hex [OF h(1,3) assms(2)] by simp
qed

lemma lex_string_plainD:
  assumes "lex_string (c # cs) = Inr (b, r)" "c \<noteq> CHR 0x22" "c \<noteq> CHR 0x5C"
  obtains b' where "lex_string cs = Inr (b', r)" "32 \<le> (of_char c :: nat)"
  using assms by (auto split: if_splits)

lemma lex_string_escD:
  assumes "lex_string (CHR 0x5C # cs) = Inr (b, r)"
  obtains e es b' where "cs = e # es" "is_escape e" "lex_string es = Inr (b', r)"
  | h es b' where "cs = CHR ''u'' # h @ es" "list_all is_hex h" "length h = 4" "lex_string es = Inr (b', r)"
proof -
  obtain e es where cs: "cs = e # es"
    using assms by (cases cs) simp_all
  show ?thesis
  proof (cases "is_escape e")
    case True
    then show ?thesis
      using assms cs that(1) by auto
  next
    case False
    then have u: "e = CHR ''u''"
      using assms cs by (auto split: if_splits)
    with False assms cs obtain h1 h2 h3 h4 es' where es: "es = [h1, h2, h3, h4] @ es'"
      by (simp split: list.splits)
    obtain b' where "lex_string es' = Inr (b', r)" "list_all is_hex [h1, h2, h3, h4]"
      using assms cs u es False by (auto split: if_splits)
    then show ?thesis
      using cs u es by (intro that(2) [of "[h1, h2, h3, h4]" es' b']) simp_all
  qed
qed

lemma compact_string_cases:
  obtains (special) "c \<in> {CHR 0x22, CHR 0x5C}"
  | (html) "c \<in> {CHR ''<'', CHR ''>'', CHR ''&''}" "compact True (c # cs) = html_escape c @ compact True cs"
  | (sep) h rest where "h \<in> {''2028'', ''2029''}" "c = CHR 0xE2" "\<exists>x. cs = CHR 0x80 # x # rest \<and> x \<in> {CHR 0xA8, CHR 0xA9}"
      "compact True (c # cs) = CHR 0x5C # CHR ''u'' # h @ compact True rest"
  | (plain) "c \<notin> {CHR 0x22, CHR 0x5C}" "compact True (c # cs) = c # compact True cs"
proof -
  consider "c \<in> {CHR 0x22, CHR 0x5C}" | "c \<in> {CHR ''<'', CHR ''>'', CHR ''&''}"
    | "\<exists>x rest. c = CHR 0xE2 \<and> cs = CHR 0x80 # x # rest \<and> x \<in> {CHR 0xA8, CHR 0xA9}"
    | "c \<notin> {CHR 0x22, CHR 0x5C}" "c \<notin> {CHR ''<'', CHR ''>'', CHR ''&''}"
      "\<not> (\<exists>x rest. c = CHR 0xE2 \<and> cs = CHR 0x80 # x # rest \<and> x \<in> {CHR 0xA8, CHR 0xA9})"
    by argo
  then show ?thesis
  proof cases
    case 1
    then show ?thesis by (rule special)
  next
    case 2
    then have "compact True (c # cs) = html_escape c @ compact True cs" by auto
    with 2 show ?thesis by (rule html)
  next
    case 3
    then obtain x rest where x: "c = CHR 0xE2" "cs = CHR 0x80 # x # rest" "x \<in> {CHR 0xA8, CHR 0xA9}" by blast
    then have "compact True (c # cs) =
        CHR 0x5C # CHR ''u'' # (if x = CHR 0xA8 then ''2028'' else ''2029'') @ compact True rest"
      by auto
    with x show ?thesis
      by (intro sep [of "if x = CHR 0xA8 then ''2028'' else ''2029''" rest]) simp_all
  next
    case 4
    have "compact True (c # cs) = c # compact True cs"
    proof (cases "\<exists>a x rest. cs = a # x # rest")
      case True
      then obtain a x rest where "cs = a # x # rest" by blast
      with 4 show ?thesis by (simp del: compact.simps(3) add: compact.simps(3) [of c])
    next
      case False
      with 4(1,2) show ?thesis
        by (cases cs; cases "tl cs") (simp_all del: compact.simps(3) add: compact.simps(3) [of c])
    qed
    with 4(1) show ?thesis by (intro plain) simp_all
  qed
qed

lemma lex_string_compact:
  "lex_string s = Inr (b, r) \<Longrightarrow> \<exists>b'. lex_string (compact True s) = Inr (b', compact False r)"
proof (induction "length s" arbitrary: s b rule: less_induct)
  case less
  obtain c cs where s: "s = c # cs"
    using less.prems by (cases s) simp_all
  note IH = less.hyps [unfolded s]
  note prem = less.prems [unfolded s]
  have "\<exists>b'. lex_string (compact True (c # cs)) = Inr (b', compact False r)"
  proof (cases rule: compact_string_cases [where c = c and cs = cs])
    case special
    then consider "c = CHR 0x22" | "c = CHR 0x5C" by blast
    then show ?thesis
    proof cases
      case 1
      with prem show ?thesis by simp
    next
      case 2
      from prem [unfolded 2] show ?thesis
      proof (cases rule: lex_string_escD)
        case (1 e es b1)
        then show ?thesis
          using IH [OF _ 1(3)] 2 by auto
      next
        case (2 h es b1)
        obtain b2 where "lex_string (compact True es) = Inr (b2, compact False r)"
          using IH [OF _ 2(4)] 2(1) by auto
        from lex_string_hex [OF 2(2,3) this] show ?thesis
          unfolding \<open>c = CHR 0x5C\<close> 2(1) compact_escape compact_hexes [OF 2(2)] by blast
      qed
    qed
  next
    case html
    from prem obtain b1 where "lex_string cs = Inr (b1, r)"
      by (rule lex_string_plainD) (use html(1) in auto)
    from IH [OF _ this] obtain b2 where "lex_string (compact True cs) = Inr (b2, compact False r)" by auto
    from lex_html_escape [OF html(1) this] show ?thesis
      unfolding html(2) .
  next
    case (sep h rest)
    then obtain x where x: "cs = CHR 0x80 # x # rest" "x \<in> {CHR 0xA8, CHR 0xA9}" by blast
    from prem obtain b1 where "lex_string cs = Inr (b1, r)"
      by (rule lex_string_plainD) (use sep(2) in auto)
    then obtain b2 where "lex_string (x # rest) = Inr (b2, r)"
      unfolding x(1) by (rule lex_string_plainD) auto
    then obtain b3 where b3: "lex_string rest = Inr (b3, r)"
      by (rule lex_string_plainD) (use x(2) in auto)
    from IH [OF _ b3] obtain b4 where b4: "lex_string (compact True rest) = Inr (b4, compact False r)"
      using x(1) by auto
    have "list_all is_hex h" "length h = 4"
      using sep(1) by (auto simp: is_hex_def hex_val_def)
    from lex_string_hex [OF this b4] show ?thesis
      unfolding sep(4) by blast
  next
    case plain
    from prem obtain b1 where b1: "lex_string cs = Inr (b1, r)" "32 \<le> (of_char c :: nat)"
      by (rule lex_string_plainD) (use plain(1) in auto)
    from IH [OF _ b1(1)] obtain b2 where "lex_string (compact True cs) = Inr (b2, compact False r)" by auto
    with plain(1) b1(2) show ?thesis
      unfolding plain(2) by simp
  qed
  with s show ?case by simp
qed

definition number_char :: "char \<Rightarrow> bool" where
  "number_char c \<longleftrightarrow> is_digit c \<or> c \<in> {CHR ''-'', CHR ''+'', CHR ''.'', CHR ''e'', CHR ''E''}"

lemma number_char_simps [simp]:
  "is_digit c \<Longrightarrow> number_char c" "number_char CHR ''-''" "number_char CHR ''+''" "number_char CHR ''.''"
  "number_char CHR ''e''" "number_char CHR ''E''" "number_char CHR ''0''"
  by (simp_all add: number_char_def is_digit_def)

abbreviation number_chars :: "string \<Rightarrow> bool" where
  "number_chars t \<equiv> list_all number_char t"

lemma takeWhile_digits [simp]: "number_chars (takeWhile is_digit s)"
  by (auto simp: list_all_iff dest: set_takeWhileD)

lemma lex_digits1_chars: "lex_digits1 s = Inr (t, r) \<Longrightarrow> number_chars t"
  by (cases s) (auto simp: lex_digits1_def split: if_splits)

lemma lex_int_chars: "lex_int s = Inr (t, r) \<Longrightarrow> number_chars t"
  by (cases s) (auto simp: lex_int_def split: if_splits)

lemma lex_frac_chars: "lex_frac s = Inr (t, r) \<Longrightarrow> number_chars t"
  by (cases s) (auto simp: lex_frac_def split: if_splits dest: lex_digits1_chars)

lemma lex_exp_chars: "lex_exp s = Inr (t, r) \<Longrightarrow> number_chars t"
  by (cases s) (auto simp: lex_exp_def split: if_splits list.splits dest: lex_digits1_chars)

lemma lex_number_chars: "lex_number s = Inr (t, r) \<Longrightarrow> number_chars t"
  unfolding lex_number_def Let_def
  by (auto split: sum.splits if_splits) (blast dest: lex_int_chars lex_frac_chars lex_exp_chars)+

lemma compact_number:
  assumes "number_chars t"
  shows "compact False (t @ r) = t @ compact False r"
proof (rule compact_plain)
  have "number_char c \<Longrightarrow> \<not> is_ws c \<and> c \<noteq> CHR 0x22" for c
    by (auto simp: number_char_def is_digit_def is_ws_def)
  with assms show "list_all (\<lambda>c. \<not> is_ws c \<and> c \<noteq> CHR 0x22) t"
    by (auto simp: list_all_iff)
qed

lemma parse_literal_compact:
  assumes "parse_literal c cs = Inr (v, r)" "delim (compact False r)"
  shows "\<exists>v'. parse_literal c (compact (c = CHR 0x22) cs) = Inr (v', compact False r)"
  using assms(1)
proof (cases rule: parse_literal_cases)
  case (str b)
  with lex_string_compact [of cs b r] show ?thesis
    by (auto simp: parse_literal_def)
next
  case (word w)
  then have "c \<noteq> CHR 0x22" by auto
  with word compact_plain [OF word(3)] show ?thesis by auto
next
  case (num t)
  have "c # cs = t @ r"
    by (rule lex_number_text(1) [OF num(2)])
  then have "compact False (c # cs) = t @ compact False r"
    using compact_number [OF lex_number_chars [OF num(2)]] by simp
  moreover have c: "\<not> is_ws c" "c \<noteq> CHR 0x22"
    using number_start [OF num(1)] by simp_all
  ultimately have "lex_number (c # compact False cs) = Inr (t, compact False r)"
    using lex_number_text(2) [OF num(2) assms(2)] by simp
  then show ?thesis
    using num(4) c(2) by simp
qed

lemma compact_value_step:
  assumes E: "\<And>s vs r. parse_elems n s = Inr (vs, r) \<Longrightarrow> \<exists>vs'. parse_elems n (compact False s) = Inr (vs', compact False r)"
    and M: "\<And>s ms r. parse_members n s = Inr (ms, r) \<Longrightarrow> \<exists>ms'. parse_members n (compact False s) = Inr (ms', compact False r)"
    and eq: "parse_value (Suc n) s = Inr (v, r)" and r: "delim (compact False r)"
  shows "\<exists>v'. parse_value (Suc n) (compact False s) = Inr (v', compact False r)"
proof -
  obtain c cs where s: "skip_ws s = c # cs"
    using eq by (cases "skip_ws s") (auto simp: parse_value.simps(2))
  then have c: "\<not> is_ws c" by (auto elim: skip_ws_split)
  note tok = compact_token [OF s]
  show ?thesis
  proof (cases "c = CHR ''{'' \<or> c = CHR ''[''")
    case True
    then obtain d ds where d: "skip_ws cs = d # ds"
      using eq s by (cases "skip_ws cs") (auto simp: parse_value.simps(2))
    then have "\<not> is_ws d" by (auto elim: skip_ws_split)
    moreover have "compact False cs = compact False (d # ds)"
      using compact_skip [of cs] d by simp
    moreover have "compact False (d # ds) = d # compact (d = CHR 0x22) ds"
      by (rule compact_token) (simp add: skip_ws_Cons \<open>\<not> is_ws d\<close>)
    ultimately show ?thesis
      using eq s c d True tok E [of "d # ds"] M [of "d # ds"]
      by (auto simp: parse_value.simps(2) skip_ws_Cons simp del: compact.simps split: if_splits)
  next
    case False
    then have "parse_literal c cs = Inr (v, r)"
      using eq s by (simp add: parse_value.simps(2))
    from parse_literal_compact [OF this r] show ?thesis
      using False c tok by (simp add: parse_value.simps(2) skip_ws_Cons)
  qed
qed

lemma compact_elems_step:
  assumes V: "\<And>s v r. parse_value n s = Inr (v, r) \<Longrightarrow> delim (compact False r) \<Longrightarrow> \<exists>v'. parse_value n (compact False s) = Inr (v', compact False r)"
    and E: "\<And>s vs r. parse_elems n s = Inr (vs, r) \<Longrightarrow> \<exists>vs'. parse_elems n (compact False s) = Inr (vs', compact False r)"
    and eq: "parse_elems (Suc n) s = Inr (vs, r)"
  shows "\<exists>vs'. parse_elems (Suc n) (compact False s) = Inr (vs', compact False r)"
  using eq
proof (rule parse_elems_SucE)
  fix v r1 cs assume h: "parse_value n s = Inr (v, r1)" "skip_ws r1 = CHR '']'' # cs" "vs = [v]" "r = cs"
  have r1: "compact False r1 = CHR '']'' # compact False cs"
    using compact_token [OF h(2)] by simp
  with V [OF h(1)] h(4) show ?thesis
    by (auto simp: parse_elems.simps(2) skip_ws_Cons)
next
  fix v r1 cs vs' assume h: "parse_value n s = Inr (v, r1)" "skip_ws r1 = CHR '','' # cs"
    "parse_elems n cs = Inr (vs', r)" "vs = v # vs'"
  have r1: "compact False r1 = CHR '','' # compact False cs"
    using compact_token [OF h(2)] by simp
  with V [OF h(1)] E [OF h(3)] show ?thesis
    by (auto simp: parse_elems.simps(2) [of n] skip_ws_Cons)
qed

lemma compact_members_step:
  assumes V: "\<And>s v r. parse_value n s = Inr (v, r) \<Longrightarrow> delim (compact False r) \<Longrightarrow> \<exists>v'. parse_value n (compact False s) = Inr (v', compact False r)"
    and M: "\<And>s ms r. parse_members n s = Inr (ms, r) \<Longrightarrow> \<exists>ms'. parse_members n (compact False s) = Inr (ms', compact False r)"
    and eq: "parse_members (Suc n) s = Inr (ms, r)"
  shows "\<exists>ms'. parse_members (Suc n) (compact False s) = Inr (ms', compact False r)"
  using eq
proof (rule parse_members_SucE)
  fix cs k r1 r2 v r3 d r4 m
  assume h: "skip_ws s = CHR 0x22 # cs" "lex_string cs = Inr (k, r1)" "skip_ws r1 = CHR '':'' # r2"
    "parse_value n r2 = Inr (v, r3)" "skip_ws r3 = d # r4"
    and e: "d = CHR ''}'' \<and> ms = [m] \<and> r = r4 \<or> d = CHR '','' \<and> (\<exists>ms'. parse_members n r4 = Inr (ms', r) \<and> ms = m # ms')"
  have s: "compact False s = CHR 0x22 # compact True cs"
    using compact_token [OF h(1)] by simp
  obtain k' where k: "lex_string (compact True cs) = Inr (k', compact False r1)"
    using lex_string_compact [OF h(2)] by blast
  have r1: "compact False r1 = CHR '':'' # compact False r2"
    using compact_token [OF h(3)] by simp
  have d: "d \<noteq> CHR 0x22" using e by auto
  have r3: "compact False r3 = d # compact False r4"
    using compact_token [OF h(5)] d by simp
  have "delim (compact False r3)"
    using e r3 by auto
  then obtain v' where v: "parse_value n (compact False r2) = Inr (v', compact False r3)"
    using V [OF h(4)] by blast
  have ws: "\<not> is_ws d" using e by auto
  from e show ?thesis
  proof (elim disjE conjE exE)
    assume "d = CHR ''}''" "r = r4"
    then show ?thesis
      using s k r1 v r3 by (simp add: parse_members.simps(2) skip_ws_Cons Let_def)
  next
    fix ms' assume d: "d = CHR '',''" "parse_members n r4 = Inr (ms', r)"
    from M [OF d(2)] show ?thesis
      using s k r1 v r3 d(1) by (auto simp: parse_members.simps(2) [of n] skip_ws_Cons Let_def)
  qed
qed

lemma parse_compact:
  "(\<forall>s v r. parse_value n s = Inr (v, r) \<longrightarrow> delim (compact False r) \<longrightarrow>
      (\<exists>v'. parse_value n (compact False s) = Inr (v', compact False r))) \<and>
   (\<forall>s vs r. parse_elems n s = Inr (vs, r) \<longrightarrow> (\<exists>vs'. parse_elems n (compact False s) = Inr (vs', compact False r))) \<and>
   (\<forall>s ms r. parse_members n s = Inr (ms, r) \<longrightarrow> (\<exists>ms'. parse_members n (compact False s) = Inr (ms', compact False r)))"
proof (induction n)
  case 0
  show ?case by (simp add: parse_value.simps(1) parse_elems.simps(1) parse_members.simps(1))
next
  case (Suc n)
  then show ?case
    using compact_value_step [of n] compact_elems_step [of n] compact_members_step [of n] by blast
qed

lemma parse_value_nonempty: "parse_value n s = Inr p \<Longrightarrow> skip_ws s \<noteq> []"
  by (cases n) (auto simp: parse_value.simps)

text \<open>The encoder writes every valid text, and what it writes is a text of a value.\<close>

theorem compact_text:
  assumes "json_valid bs \<noteq> None"
  obtains v where "text_of (compact False bs) v"
proof -
  obtain v r where p: "parse_value (2 * length bs + 2) bs = Inr (v, r)" and r: "skip_ws r = []"
    using assms by (auto simp: json_valid_def parse_def split: sum.splits prod.splits if_splits)
  let ?t = "compact False bs" and ?n = "2 * length bs + 2"
  have r0: "compact False r = []"
    by (rule compact_ws [OF r])
  have "\<exists>v'. parse_value ?n ?t = Inr (v', compact False r)"
    by (rule parse_compact [THEN conjunct1, rule_format, OF p]) (simp add: r0)
  then obtain v' where v': "parse_value ?n ?t = Inr (v', [])"
    unfolding r0 by blast
  let ?m = "2 * length ?t + 2"
  have "parse_value ?m ?t \<noteq> Inl OutOfFuel"
    using parse_never_out_of_fuel [of ?t] by (simp add: parse_def)
  then have "parse_value (max ?m ?n) ?t = parse_value ?m ?t"
    by (rule parse_value_fuel) (rule max.cobounded1)
  moreover have "parse_value (max ?m ?n) ?t = parse_value ?n ?t"
    by (rule parse_value_fuel) (simp_all only: v' max.cobounded2 sum.distinct not_False_eq_True)
  ultimately have "parse ?t = Inr (v', [])"
    unfolding parse_def v' by (simp only:)
  moreover obtain c cs where s: "skip_ws bs = c # cs"
    using parse_value_nonempty [OF p] by (cases "skip_ws bs") blast+
  moreover have "\<not> is_ws c"
    using s by (rule skip_ws_split)
  ultimately have "text_of ?t v'"
    using compact_token [OF s] by (intro valid_text_of) simp_all
  then show ?thesis by (rule that)
qed

end
