(* ===== verification/Example_Datastore.thy ===== *)
theory Example_Datastore
  imports Datastore Keys_Request Json_Text "HOL-Library.Char_ord" "HOL-Library.List_Lexorder"
begin

text \<open>
  The example datastore of \<^verbatim>\<open>cmd/datastore/main.go\<close>: the loop that reads new values
  from the standard input and sends them to redis, and the handler that answers
  \<^verbatim>\<open>get_many\<close> requests. The generated table \<^verbatim>\<open>exampleData\<close> is the state
  \<open>ex\<close>; the redis connection and the texts of errors of the standard library are
  parameters.

  The last section shows that this server keeps the contract \<open>serves\<close> that the client in
  \<open>Datastore\<close> relies on.
\<close>

type_synonym example_data = "string \<rightharpoonup> string"

section \<open>Updater\<close>

definition listenAddr :: string where
  "listenAddr = '':9010''"

definition redisAddr :: string where
  "redisAddr = ''localhost:6379''"

definition redisKey :: string where
  "redisKey = ''ModifiedFields''"

fun updater_args :: "string list \<Rightarrow> string list \<Rightarrow> example_data \<Rightarrow> string list \<times> example_data" where
  "updater_args [] args ex = (args, ex)"
| "updater_args (d # input) args ex =
     (case split_n CHR ''='' 2 d of
        [key, v] \<Rightarrow> updater_args input (args @ [key, v]) (ex(key \<mapsto> v))
      | _ \<Rightarrow> updater_args input args ex)"

text \<open>
  \<open>lines\<close> are the lines of the input, each short enough for \<^verbatim>\<open>bufio.Scanner\<close>; the
  process ends when redis returns an error.
\<close>

fun updater :: "(string list \<Rightarrow> 'w \<Rightarrow> goerror option \<times> 'w) \<Rightarrow> string list \<Rightarrow> example_data \<Rightarrow> 'w
    \<Rightarrow> goerror option \<times> example_data \<times> 'w" where
  "updater cmd [] ex w = (None, ex, w)"
| "updater cmd (line # lines) ex w =
     (let input = split_on CHR '' '' (trim_space line);
          (args, ex') = updater_args input [redisKey, ''*''] ex
      in if length args = 2 then updater cmd lines ex' w
         else (case cmd (''XADD'' # args) w of
                 (Some e, w') \<Rightarrow> (Some (EWrap ''Can not send command to redis: '' e), ex', w')
               | (None, w') \<Rightarrow> updater cmd lines ex' w'))"

section \<open>Encoding of the response\<close>

text \<open>A map is written with its keys in order; an error in a value is an error of the whole.\<close>

definition encode_entry :: "('v \<Rightarrow> string option) \<Rightarrow> string \<times> 'v \<Rightarrow> string option" where
  "encode_entry enc kv = map_option (\<lambda>t. marshal_string (fst kv) @ CHR '':'' # t) (enc (snd kv))"

definition encode_map :: "('v \<Rightarrow> string option) \<Rightarrow> (string, 'v) gomap \<Rightarrow> string option" where
  "encode_map enc m =
     map_option (\<lambda>ts. CHR ''{'' # join_with '','' ts @ ''}'') (those (map (encode_entry enc) (sort_key fst m)))"

definition encode_nested :: "nested \<Rightarrow> string option" where
  "encode_nested = encode_map (encode_map (encode_map encode_raw))"

section \<open>Handler\<close>

text \<open>Decoding into the struct with the field \<^verbatim>\<open>Keys []string\<close>, named \<^verbatim>\<open>requests\<close>.\<close>

fun requests_member :: "(string \<times> string \<times> json) list \<Rightarrow> type_error option \<Rightarrow> string list \<Rightarrow> type_error option \<times> string list" where
  "requests_member [] saved ks = (saved, ks)"
| "requests_member ((n, t, v) # ms) saved ks =
     (if name_matches ''requests'' n then
        (case decode_strings v of
           Inl e \<Rightarrow> requests_member ms (save_error ''requests'' e saved) ks
         | Inr ks' \<Rightarrow> requests_member ms saved ks')
      else requests_member ms saved ks)"

definition decode_requests :: "json \<Rightarrow> type_error + string list" where
  "decode_requests v =
     (case v of
        JNull \<Rightarrow> Inr []
      | JObj ms \<Rightarrow>
          (case requests_member ms None [] of
             (Some e, _) \<Rightarrow> Inl e
           | (None, ks) \<Rightarrow> Inr ks)
      | _ \<Rightarrow> Inl (type_err v TStruct))"

definition map_or_empty :: "(string, ('k, 'v) gomap) gomap \<Rightarrow> string \<Rightarrow> ('k, 'v) gomap" where
  "map_or_empty m k = (case map_of m k of None \<Rightarrow> [] | Some x \<Rightarrow> x)"

definition put_nested :: "string \<Rightarrow> string \<Rightarrow> string \<Rightarrow> raw \<Rightarrow> nested \<Rightarrow> nested" where
  "put_nested c i f v m =
     mput c (mput i (mput f v (map_or_empty (map_or_empty m c) i)) (map_or_empty m c)) m"

fun example_loop :: "example_data \<Rightarrow> string list \<Rightarrow> nested \<Rightarrow> goerror + nested" where
  "example_loop ex [] m = Inr m"
| "example_loop ex (key # keys) m =
     (case ex key of
        None \<Rightarrow> example_loop ex keys m
      | Some v \<Rightarrow>
          (case split_n CHR ''/'' 3 key of
             [c, i, f] \<Rightarrow> example_loop ex keys (put_nested c i f (Some v) m)
           | _ \<Rightarrow> Inl (EPanic ''index out of range'')))"

definition exampleHandler :: "(goerror \<Rightarrow> string) \<Rightarrow> example_data \<Rightarrow> string \<Rightarrow> goerror + response" where
  "exampleHandler std ex body =
     (case (case decoder_decode body of
              Inl e \<Rightarrow> Inl (decoder_error e)
            | Inr v \<Rightarrow> map_sum EType id (decode_requests v)) of
        Inl e \<Rightarrow>
          Inr \<lparr>StatusCode = 400, Status = ''400 Bad Request'',
               Body = Inr (''Invalid json input: '' @ Error_string std e @ [CHR 0x0A])\<rparr>
      | Inr keys \<Rightarrow>
          (case example_loop ex keys [] of
             Inl e \<Rightarrow> Inl e
           | Inr responceData \<Rightarrow>
               Inr \<lparr>StatusCode = 200, Status = ''200 OK'',
                    Body = Inr (case encode_nested responceData of None \<Rightarrow> [] | Some t \<Rightarrow> t @ [CHR 0x0A])\<rparr>))"

text \<open>The server as seen by an HTTP client: a panic in the handler closes the connection.\<close>

definition example_client :: "(goerror \<Rightarrow> string) \<Rightarrow> example_data http_client" where
  "example_client std =
     \<lparr>NewRequest = (\<lambda>u. None),
      Do = (\<lambda>u body ex. (map_sum (\<lambda>_. EMsg ''EOF'') id (exampleHandler std ex body), ex))\<rparr>"

section \<open>The response has the requested values\<close>

text \<open>
  A map, and the text of the JSON object that is its encoding. The same lemma works for the
  three levels of the response.
\<close>

lemma those_map: "(\<And>x. x \<in> set xs \<Longrightarrow> f x = Some (g x)) \<Longrightarrow> those (map f xs) = Some (map g xs)"
  by (induction xs) simp_all

lemma encode_map_members:
  assumes "\<And>k x. (k, x) \<in> set m \<Longrightarrow> enc x = Some (fst (val x))"
  shows "encode_map enc m = Some (obj_text (map (\<lambda>(k, x). (k, val x)) (sort_key fst m)))"
proof -
  have "those (map (encode_entry enc) (sort_key fst m)) =
      Some (map (\<lambda>(k, x). marshal_string k @ CHR '':'' # fst (val x)) (sort_key fst m))"
    by (rule those_map) (use assms in \<open>auto simp: encode_entry_def\<close>)
  then show ?thesis
    by (simp add: encode_map_def obj_text_def comp_def case_prod_unfold)
qed

text \<open>A value that the encoder can write, and what it writes.\<close>

definition valid_raw :: "raw \<Rightarrow> bool" where
  "valid_raw v \<longleftrightarrow> (\<exists>bs. v = Some bs \<and> json_valid bs \<noteq> None)"

definition sent_value :: "raw \<Rightarrow> string \<times> json" where
  "sent_value v =
     (let t = compact False (raw_bytes v) in (t, case json_valid t of Some j \<Rightarrow> j | None \<Rightarrow> JNull))"

lemma sent_value_text:
  assumes "valid_raw v"
  shows "text_of (fst (sent_value v)) (snd (sent_value v))" "encode_raw v = Some (fst (sent_value v))"
proof -
  obtain bs where bs: "v = Some bs" "json_valid bs \<noteq> None"
    using assms by (auto simp: valid_raw_def)
  obtain j where j: "text_of (compact False bs) j"
    by (rule compact_text [OF bs(2)])
  show "text_of (fst (sent_value v)) (snd (sent_value v))" "encode_raw v = Some (fst (sent_value v))"
    using bs j json_valid_text [OF j] by (simp_all add: sent_value_def Let_def raw_bytes_def encode_raw_def)
qed

definition sorted_fields :: "(string, raw) gomap \<Rightarrow> (string, string \<times> json) gomap" where
  "sorted_fields fs = map (\<lambda>(f, v). (f, sent_value v)) (sort_key fst fs)"

definition sorted_nested :: "nested \<Rightarrow> (string, (string, (string, string \<times> json) gomap) gomap) gomap" where
  "sorted_nested m =
     map (\<lambda>(c, ids). (c, map (\<lambda>(i, fs). (i, sorted_fields fs)) (sort_key fst ids))) (sort_key fst m)"

definition valid_nested :: "nested \<Rightarrow> bool" where
  "valid_nested m \<longleftrightarrow>
     (\<forall>(c, ids) \<in> set m. list_all is_ascii c \<and>
        (\<forall>(i, fs) \<in> set ids. list_all is_ascii i \<and> (\<forall>(f, v) \<in> set fs. list_all is_ascii f \<and> valid_raw v)))"

lemma encode_nested_members:
  assumes "valid_nested m"
  shows "encode_nested m = Some (obj_text (nested_members (sorted_nested m)))"
proof -
  let ?ids = "\<lambda>ids. map (\<lambda>(i, fs). (i, obj_value (sorted_fields fs))) (sort_key fst ids)"
  have fields: "encode_map encode_raw fs = Some (obj_text (sorted_fields fs))" if "\<forall>(f, v) \<in> set fs. valid_raw v" for fs
    unfolding sorted_fields_def by (rule encode_map_members) (use that sent_value_text(2) in blast)
  have ids: "encode_map (encode_map encode_raw) ids = Some (obj_text (?ids ids))"
    if "\<forall>(i, fs) \<in> set ids. \<forall>(f, v) \<in> set fs. valid_raw v" for ids
    by (rule encode_map_members) (use that fields in \<open>auto simp: obj_value_def\<close>)
  have "encode_nested m = Some (obj_text (map (\<lambda>(c, ids). (c, obj_value (?ids ids))) (sort_key fst m)))"
    unfolding encode_nested_def
    by (rule encode_map_members) (use assms ids in \<open>fastforce simp: valid_nested_def obj_value_def\<close>)
  then show ?thesis
    by (simp add: nested_members_def sorted_nested_def comp_def case_prod_unfold)
qed

lemma sorted_members_ok:
  assumes "valid_nested m"
  shows "list_all member_ok (nested_members (sorted_nested m))"
proof (rule nested_members_ok)
  have "list_all member_ok (sorted_fields fs)" if "\<forall>(f, v) \<in> set fs. list_all is_ascii f \<and> valid_raw v" for fs
    using that sent_value_text(1) by (auto simp: sorted_fields_def list_all_iff case_prod_unfold)
  with assms show "\<forall>(c, ids) \<in> set (sorted_nested m). list_all is_ascii c \<and>
      (\<forall>(i, fs) \<in> set ids. list_all is_ascii i \<and> list_all member_ok fs)"
    by (fastforce simp: sorted_nested_def valid_nested_def)
qed

subsection \<open>What the response is decoded to\<close>

lemma wf_map_sort [simp]: "wf_map (sort_key fst m) = wf_map m"
  by (rule wf_map_order) simp

lemma wf_map_map_snd [simp]: "wf_map (map (\<lambda>(k, v). (k, g v)) m) = wf_map m"
  by (simp add: wf_map_def comp_def case_prod_unfold)

lemma nested_raw_sorted:
  "nested_raw (sorted_nested m) =
     map (\<lambda>(c, ids). (c, map (\<lambda>(i, fs). (i, map (\<lambda>(f, v). (f, Some (fst (sent_value v)))) (sort_key fst fs)))
       (sort_key fst ids))) (sort_key fst m)"
  by (simp add: nested_raw_def sorted_nested_def sorted_fields_def comp_def case_prod_unfold)

lemma flat_nested_sorted:
  "(k, x) \<in> set (flat (nested_raw (sorted_nested m))) \<longleftrightarrow> (\<exists>v. (k, v) \<in> set (flat m) \<and> x = Some (fst (sent_value v)))"
proof -
  have "(k, x) \<in> set (flat (nested_raw (sorted_nested m))) \<longleftrightarrow>
      (\<exists>c ids i fs f v. k = c @ ''/'' @ i @ ''/'' @ f \<and> (c, ids) \<in> set m \<and> (i, fs) \<in> set ids \<and> (f, v) \<in> set fs \<and>
        x = Some (fst (sent_value v)))"
    unfolding in_flat nested_raw_sorted by fastforce
  then show ?thesis
    unfolding in_flat by blast
qed

lemma nested_ok_sorted: "nested_ok m \<Longrightarrow> nested_ok (nested_raw (sorted_nested m))"
  by (fastforce simp: nested_ok_def nested_raw_sorted)

subsection \<open>The loop over the keys\<close>

text \<open>The entries of a nested map.\<close>

definition entry :: "nested \<Rightarrow> string \<Rightarrow> string \<Rightarrow> string \<Rightarrow> raw \<Rightarrow> bool" where
  "entry m c i f v \<longleftrightarrow> (\<exists>ids fs. (c, ids) \<in> set m \<and> (i, fs) \<in> set ids \<and> (f, v) \<in> set fs)"

lemma set_mput_wf: "wf_map m \<Longrightarrow> (k', v') \<in> set (mput k v m) \<longleftrightarrow> (if k' = k then v' = v else (k', v') \<in> set m)"
  using wf_map_of_iff [of "mput k v m" k' v'] wf_map_of_iff [of m k' v'] by (auto simp: go_map)

lemma in_map_or_empty:
  assumes "wf_map m"
  shows "x \<in> set (map_or_empty m c) \<longleftrightarrow> (\<exists>ids. (c, ids) \<in> set m \<and> x \<in> set ids)"
proof (cases "map_of m c")
  case None
  then have "(c, ids) \<notin> set m" for ids
    using weak_map_of_SomeI [of c ids m] by auto
  with None show ?thesis by (simp add: map_or_empty_def)
next
  case (Some ids)
  then have "(c, ids') \<in> set m \<longleftrightarrow> ids' = ids" for ids'
    using wf_map_of_iff [OF assms, of c ids'] by auto
  with Some show ?thesis by (simp add: map_or_empty_def)
qed

lemma wf_map_or_empty:
  assumes "nested_ok m"
  shows "wf_map (map_or_empty m c)"
proof (cases "map_of m c")
  case (Some ids)
  then have "(c, ids) \<in> set m" by (rule map_of_SomeD)
  with Some assms show ?thesis by (auto simp: map_or_empty_def nested_ok_def)
qed (simp add: map_or_empty_def)

lemma wf_map_or_empty2: "nested_ok m \<Longrightarrow> wf_map (map_or_empty (map_or_empty m c) i)"
proof (cases "map_of (map_or_empty m c) i")
  case (Some fs)
  assume ok: "nested_ok m"
  have "(i, fs) \<in> set (map_or_empty m c)"
    using Some by (rule map_of_SomeD)
  then show ?thesis
    using ok Some in_map_or_empty [of m "(i, fs)" c] by (auto simp: nested_ok_def map_or_empty_def [of "map_or_empty m c"])
qed (simp add: map_or_empty_def)

lemma nested_okD:
  "nested_ok m \<Longrightarrow> wf_map m" "nested_ok m \<Longrightarrow> (c, idm) \<in> set m \<Longrightarrow> CHR ''/'' \<notin> set c"
  "nested_ok m \<Longrightarrow> (c, idm) \<in> set m \<Longrightarrow> wf_map idm"
  "nested_ok m \<Longrightarrow> (c, idm) \<in> set m \<Longrightarrow> (i, fs) \<in> set idm \<Longrightarrow> CHR ''/'' \<notin> set i \<and> wf_map fs"
  by (auto simp: nested_ok_def)

lemma put_nested_level:
  assumes "nested_ok m"
  shows "(c', ids') \<in> set (put_nested c i f v m) \<longleftrightarrow>
      (if c' = c then ids' = mput i (mput f v (map_or_empty (map_or_empty m c) i)) (map_or_empty m c)
       else (c', ids') \<in> set m)"
    and "(i', fs') \<in> set (mput i (mput f v (map_or_empty (map_or_empty m c) i)) (map_or_empty m c)) \<longleftrightarrow>
      (if i' = i then fs' = mput f v (map_or_empty (map_or_empty m c) i) else (i', fs') \<in> set (map_or_empty m c))"
    and "(f', v') \<in> set (mput f v (map_or_empty (map_or_empty m c) i)) \<longleftrightarrow>
      (if f' = f then v' = v else (f', v') \<in> set (map_or_empty (map_or_empty m c) i))"
  using set_mput_wf [OF nested_okD(1) [OF assms]] set_mput_wf [OF wf_map_or_empty [OF assms]]
    set_mput_wf [OF wf_map_or_empty2 [OF assms]]
  by (simp_all add: put_nested_def)

lemma entry_put_nested:
  assumes "nested_ok m"
  shows "entry (put_nested c i f v m) c' i' f' v' \<longleftrightarrow>
    (if (c', i', f') = (c, i, f) then v' = v else entry m c' i' f' v')"
proof -
  note level = put_nested_level [OF assms]
  note empty = in_map_or_empty [OF nested_okD(1) [OF assms]] in_map_or_empty [OF wf_map_or_empty [OF assms]]
  show ?thesis
    unfolding entry_def level(1) by (cases "c' = c"; cases "i' = i"; cases "f' = f") (auto simp: level(2,3) empty)
qed

lemma nested_ok_put:
  assumes "nested_ok m" "CHR ''/'' \<notin> set c" "CHR ''/'' \<notin> set i"
  shows "nested_ok (put_nested c i f v m)"
proof -
  note level = put_nested_level [OF assms(1)]
  have "wf_map (put_nested c i f v m)"
    using nested_okD(1) [OF assms(1)] by (simp add: put_nested_def)
  moreover have "CHR ''/'' \<notin> set c' \<and> wf_map ids'" if "(c', ids') \<in> set (put_nested c i f v m)" for c' ids'
    using that assms(2) nested_okD(2,3) [OF assms(1)] wf_map_or_empty [OF assms(1)] unfolding level(1)
    by (auto split: if_splits)
  moreover have "CHR ''/'' \<notin> set i' \<and> wf_map fs'"
    if "(c', ids') \<in> set (put_nested c i f v m)" "(i', fs') \<in> set ids'" for c' ids' i' fs'
  proof (cases "c' = c")
    case True
    then have "(i', fs') \<in> set (mput i (mput f v (map_or_empty (map_or_empty m c) i)) (map_or_empty m c))"
      using that level(1) by simp
    then show ?thesis
      using assms(3) wf_map_or_empty2 [OF assms(1)] nested_okD(4) [OF assms(1)]
        in_map_or_empty [OF nested_okD(1) [OF assms(1)]]
      unfolding level(2) by (auto split: if_splits)
  next
    case False
    then show ?thesis
      using that nested_okD(4) [OF assms(1)] unfolding level(1) by simp
  qed
  ultimately show ?thesis
    unfolding nested_ok_def by blast
qed

lemma valid_nestedD:
  "valid_nested m \<Longrightarrow> (c, idm) \<in> set m \<Longrightarrow> list_all is_ascii c"
  "valid_nested m \<Longrightarrow> (c, idm) \<in> set m \<Longrightarrow> (i, fs) \<in> set idm \<Longrightarrow> list_all is_ascii i"
  "valid_nested m \<Longrightarrow> (c, idm) \<in> set m \<Longrightarrow> (i, fs) \<in> set idm \<Longrightarrow> (f, v) \<in> set fs \<Longrightarrow> list_all is_ascii f \<and> valid_raw v"
  unfolding valid_nested_def by blast+

lemma valid_nested_put:
  assumes "nested_ok m" "valid_nested m" "list_all is_ascii c" "list_all is_ascii i" "list_all is_ascii f" "valid_raw v"
  shows "valid_nested (put_nested c i f v m)"
proof -
  note level = put_nested_level [OF assms(1)]
  note empty = in_map_or_empty [OF nested_okD(1) [OF assms(1)]] in_map_or_empty [OF wf_map_or_empty [OF assms(1)]]
  note can = valid_nestedD [OF assms(2)]
  have 1: "list_all is_ascii c'" if "(c', idm) \<in> set (put_nested c i f v m)" for c' idm
    using that assms(3) can(1) unfolding level(1) by (auto split: if_splits)
  have 2: "list_all is_ascii i'" if "(c', idm) \<in> set (put_nested c i f v m)" "(i', fs) \<in> set idm" for c' idm i' fs
    using that assms(4) can(2) unfolding level(1) by (cases "c' = c"; cases "i' = i") (auto simp: level(2) empty)
  have 3: "list_all is_ascii f' \<and> valid_raw v'"
    if "(c', idm) \<in> set (put_nested c i f v m)" "(i', fs) \<in> set idm" "(f', v') \<in> set fs" for c' idm i' fs f' v'
    using that assms(5,6) can(3) unfolding level(1)
    by (cases "c' = c"; cases "i' = i"; cases "f' = f") (auto simp: level(2,3) empty)
  from 1 2 3 show ?thesis
    unfolding valid_nested_def by blast
qed

lemma in_flat_entry: "(k, v) \<in> set (flat m) \<longleftrightarrow> (\<exists>c i f. entry m c i f v \<and> k = c @ ''/'' @ i @ ''/'' @ f)"
  unfolding in_flat entry_def by blast

lemma flat_put_nested:
  assumes "nested_ok m" "CHR ''/'' \<notin> set c" "CHR ''/'' \<notin> set i"
  shows "(k, x) \<in> set (flat (put_nested c i f v m)) \<longleftrightarrow>
    (if k = c @ ''/'' @ i @ ''/'' @ f then x = v else (k, x) \<in> set (flat m))"
proof -
  have parts: "c' = c \<and> i' = i \<and> f' = f"
    if "entry m c' i' f' x" "c' @ ''/'' @ i' @ ''/'' @ f' = c @ ''/'' @ i @ ''/'' @ f" for c' i' f'
  proof -
    have "CHR ''/'' \<notin> set c'" "CHR ''/'' \<notin> set i'"
      using that(1) nested_okD(2,4) [OF assms(1)] unfolding entry_def by blast+
    then show ?thesis
      using slash_parts [of c' c "i' @ ''/'' @ f'" "i @ ''/'' @ f"] slash_parts [of i' i f' f] assms(2,3) that(2) by simp
  qed
  note put = entry_put_nested [OF assms(1), of c i f v]
  let ?key = "c @ ''/'' @ i @ ''/'' @ f"
  show ?thesis
  proof
    assume "(k, x) \<in> set (flat (put_nested c i f v m))"
    then obtain c' i' f' where e: "entry (put_nested c i f v m) c' i' f' x" and k: "k = c' @ ''/'' @ i' @ ''/'' @ f'"
      unfolding in_flat_entry by blast
    show "if k = ?key then x = v else (k, x) \<in> set (flat m)"
    proof (cases "(c', i', f') = (c, i, f)")
      case True
      with e k put [of c' i' f' x] show ?thesis by simp
    next
      case False
      then have m: "entry m c' i' f' x" using e put [of c' i' f' x] by (simp only: if_False)
      have "k \<noteq> ?key" using parts [OF m] k False by auto
      with m k show ?thesis unfolding in_flat_entry by auto
    qed
  next
    assume r: "if k = ?key then x = v else (k, x) \<in> set (flat m)"
    show "(k, x) \<in> set (flat (put_nested c i f v m))"
    proof (cases "k = ?key")
      case True
      then have "entry (put_nested c i f v m) c i f x" using r put [of c i f x] by simp
      with True show ?thesis unfolding in_flat_entry by blast
    next
      case False
      with r obtain c' i' f' where e: "entry m c' i' f' x" "k = c' @ ''/'' @ i' @ ''/'' @ f'"
        unfolding in_flat_entry by auto
      then have "(c', i', f') \<noteq> (c, i, f)" using False by auto
      then have "entry (put_nested c i f v m) c' i' f' x" using e(1) put [of c' i' f' x] by (simp only: if_False)
      with e(2) show ?thesis unfolding in_flat_entry by blast
    qed
  qed
qed

lemma Suc_2_eq_3: "Suc 2 = 3"
  by simp

lemma split_key:
  assumes "2 \<le> count_char CHR ''/'' key"
  obtains c i f where "split_n CHR ''/'' 3 key = [c, i, f]" "key = c @ ''/'' @ i @ ''/'' @ f"
    "CHR ''/'' \<notin> set c" "CHR ''/'' \<notin> set i"
proof -
  have "length (split_n CHR ''/'' 3 key) = 3"
    using assms length_split_n [of "CHR ''/''" 2 key] unfolding Suc_2_eq_3 by simp
  then obtain c i f where split: "split_n CHR ''/'' 3 key = [c, i, f]"
    by (auto simp: numeral_3_eq_3 length_Suc_conv)
  moreover have "key = c @ ''/'' @ i @ ''/'' @ f"
    using join_split_n [of "CHR ''/''" 2 key] unfolding Suc_2_eq_3 split by simp
  moreover have "CHR ''/'' \<notin> set c" "CHR ''/'' \<notin> set i"
    using split_n_pieces [of _ "CHR ''/''" 2 key] unfolding Suc_2_eq_3 split by simp_all
  ultimately show ?thesis by (rule that)
qed

text \<open>
  Example data that the handler can send: every key has a collection, an id and a field, and
  every value is valid JSON. What is sent is the value as the encoder writes it.
\<close>

definition example_valid :: "example_data \<Rightarrow> bool" where
  "example_valid ex \<longleftrightarrow>
     (\<forall>k v. ex k = Some v \<longrightarrow> list_all is_ascii k \<and> 2 \<le> count_char CHR ''/'' k \<and> json_valid v \<noteq> None)"

definition sent :: "example_data \<Rightarrow> string \<Rightarrow> raw" where
  "sent ex k = map_option (compact False) (ex k)"

lemma example_loop_ok:
  assumes "example_valid ex" "nested_ok m" "valid_nested m"
    and "\<And>k x. (k, x) \<in> set (flat m) \<longleftrightarrow> k \<in> S \<and> x \<noteq> None \<and> x = ex k"
  shows "\<exists>m'. example_loop ex keys m = Inr m' \<and> nested_ok m' \<and> valid_nested m' \<and>
    (\<forall>k x. (k, x) \<in> set (flat m') \<longleftrightarrow> k \<in> S \<union> set keys \<and> x \<noteq> None \<and> x = ex k)"
  using assms(2-4)
proof (induction keys arbitrary: m S)
  case (Cons key keys)
  show ?case
  proof (cases "ex key")
    case None
    then have "(k, x) \<in> set (flat m) \<longleftrightarrow> k \<in> insert key S \<and> x \<noteq> None \<and> x = ex k" for k x
      using Cons.prems(3) [of k x] by auto
    from Cons.IH [OF Cons.prems(1,2) this] None show ?thesis by simp
  next
    case (Some v)
    have key: "list_all is_ascii key" "2 \<le> count_char CHR ''/'' key" "valid_raw (Some v)"
      using assms(1) Some by (auto simp: example_valid_def valid_raw_def)
    obtain c i f where k: "split_n CHR ''/'' 3 key = [c, i, f]" "key = c @ ''/'' @ i @ ''/'' @ f"
      "CHR ''/'' \<notin> set c" "CHR ''/'' \<notin> set i"
      by (rule split_key [OF key(2)])
    let ?m = "put_nested c i f (Some v) m"
    have ascii: "list_all is_ascii c" "list_all is_ascii i" "list_all is_ascii f"
      using key(1) unfolding k(2) by simp_all
    have "(k', x) \<in> set (flat ?m) \<longleftrightarrow> k' \<in> insert key S \<and> x \<noteq> None \<and> x = ex k'" for k' x
      using flat_put_nested [OF Cons.prems(1) k(3,4), of k' x f "Some v", folded k(2)] Cons.prems(3) [of k' x] Some
      by auto
    from Cons.IH [OF nested_ok_put [OF Cons.prems(1) k(3,4)] valid_nested_put [OF Cons.prems(1,2) ascii key(3)] this]
    show ?thesis
      using Some k(1) by simp
  qed
qed auto

lemma decode_requests_round_trip:
  assumes "\<forall>k \<in> set keys. list_all is_ascii k"
  shows "decoder_decode (keysToGetManyRequest keys) = Inr (JObj [member ''requests'' (JArr (map JStr keys))])"
    "decode_requests (JObj [member ''requests'' (JArr (map JStr keys))]) = Inr keys"
proof -
  let ?v = "JObj [member ''requests'' (JArr (map JStr keys))]"
  have "canonical ?v"
    using assms by (simp add: member_def list_all_iff is_ascii_def in_range_def)
  moreover have "keysToGetManyRequest keys = render ?v"
    by (simp add: keysToGetManyRequest_def member_def marshal_strings_def comp_def)
  ultimately show "decoder_decode (keysToGetManyRequest keys) = Inr ?v"
    by (simp only: decoder_decode_render)
  show "decode_requests ?v = Inr keys"
    using first_error_map_Inr [of keys "\<lambda>s. decode_string (JStr s)" id]
    by (simp add: decode_requests_def member_def decode_slice_def decode_string_def comp_def)
qed

lemma example_handler_answers:
  assumes "example_valid ex" "\<forall>k \<in> set keys. list_all is_ascii k"
  shows "\<exists>resp data. exampleHandler std ex (keysToGetManyRequest keys) = Inr resp \<and> StatusCode resp = 200 \<and>
    getManyResponceToKeyValue (Body resp) = Inr data \<and> wf_map data \<and>
    (\<forall>k x. (k, x) \<in> set data \<longleftrightarrow> k \<in> set keys \<and> x \<noteq> None \<and> x = sent ex k)"
proof -
  have "\<exists>m. example_loop ex keys [] = Inr m \<and> nested_ok m \<and> valid_nested m \<and>
      (\<forall>k x. (k, x) \<in> set (flat m) \<longleftrightarrow> k \<in> {} \<union> set keys \<and> x \<noteq> None \<and> x = ex k)"
    by (rule example_loop_ok [OF assms(1)]) (simp_all add: nested_ok_def valid_nested_def flat_def)
  then obtain m where m: "example_loop ex keys [] = Inr m" "nested_ok m" "valid_nested m"
    "\<forall>k x. (k, x) \<in> set (flat m) \<longleftrightarrow> k \<in> set keys \<and> x \<noteq> None \<and> x = ex k"
    by auto
  let ?ms = "nested_members (sorted_nested m)" and ?data = "key_values (nested_raw (sorted_nested m))"
  have "getManyResponceToKeyValue (Inr (obj_text ?ms @ [CHR 0x0A])) = Inr ?data"
    by (rule getMany_nested_members [OF nested_ok_sorted [OF m(2)] sorted_members_ok [OF m(3)]])
  moreover have "exampleHandler std ex (keysToGetManyRequest keys) =
      Inr \<lparr>StatusCode = 200, Status = ''200 OK'', Body = Inr (obj_text ?ms @ [CHR 0x0A])\<rparr>"
    using decode_requests_round_trip [OF assms(2)] m(1) encode_nested_members [OF m(3)]
    by (simp add: exampleHandler_def)
  moreover have "(k, x) \<in> set ?data \<longleftrightarrow> k \<in> set keys \<and> x \<noteq> None \<and> x = sent ex k" for k x
    unfolding set_key_values [OF nested_ok_sorted [OF m(2)]] flat_nested_sorted
    using m(4) by (auto simp: sent_def sent_value_def Let_def raw_bytes_def)
  ultimately show ?thesis
    by auto
qed

text \<open>The contract of the datastore client holds for the example server.\<close>

lemma example_serves_sent:
  assumes "example_valid ex"
  shows "serves (example_client std) u (list_all is_ascii) (\<lambda>w. w = ex) (sent ex)"
proof -
  have "\<exists>resp w' data. Do (example_client std) u (keysToGetManyRequest keys) w = (Inr resp, w') \<and> w' = ex \<and>
      StatusCode resp = 200 \<and> getManyResponceToKeyValue (Body resp) = Inr data \<and>
      (\<forall>k \<in> set keys. null_to_nil (mraw data k) = null_to_nil (sent ex k))"
    if w: "w = ex" and ks: "\<forall>k \<in> set keys. list_all is_ascii k" for keys w
  proof -
    obtain resp data where r: "exampleHandler std ex (keysToGetManyRequest keys) = Inr resp" "StatusCode resp = 200"
      "getManyResponceToKeyValue (Body resp) = Inr data" "wf_map data"
      "\<forall>k x. (k, x) \<in> set data \<longleftrightarrow> k \<in> set keys \<and> x \<noteq> None \<and> x = sent ex k"
      using example_handler_answers [OF assms ks] by blast
    have "mraw data k = sent ex k" if "k \<in> set keys" for k
    proof (cases "sent ex k")
      case None
      then have "map_of data k = None"
        using r(5) by (metis map_of_SomeD not_None_eq)
      with None show ?thesis by (simp add: mraw_def)
    next
      case (Some v)
      then have "map_of data k = Some (Some v)"
        using wf_map_of_iff [OF r(4), of k "Some v"] r(5) that by simp
      with Some show ?thesis by (simp add: mraw_def)
    qed
    then show ?thesis
      using r(1-3) w by (simp add: example_client_def)
  qed
  then show ?thesis
    unfolding serves_def by (simp add: example_client_def)
qed

text \<open>Values in canonical form are sent as they are.\<close>

definition canonical_raw :: "raw \<Rightarrow> bool" where
  "canonical_raw v \<longleftrightarrow> (\<exists>j. canonical j \<and> v = Some (render j))"

lemma canonical_rawI: "canonical j \<and> render j = s \<Longrightarrow> canonical_raw (Some s)"
  by (auto simp: canonical_raw_def)

definition example_ok :: "example_data \<Rightarrow> bool" where
  "example_ok ex \<longleftrightarrow>
     (\<forall>k v. ex k = Some v \<longrightarrow> list_all is_ascii k \<and> 2 \<le> count_char CHR ''/'' k \<and> canonical_raw (Some v))"

lemma example_ok_valid:
  assumes "example_ok ex"
  shows "example_valid ex" "sent ex = ex"
proof -
  have c: "json_valid v \<noteq> None \<and> compact False v = v" if "canonical_raw (Some v)" for v
    using that compact_render [of _ "[]"] by (auto simp: canonical_raw_def json_valid_render)
  show "example_valid ex"
    using assms c by (auto simp: example_ok_def example_valid_def)
  have "map_option (compact False) (ex k) = ex k" for k
    using assms c by (cases "ex k") (auto simp: example_ok_def)
  then show "sent ex = ex"
    by (simp add: fun_eq_iff sent_def)
qed

lemma example_serves: "example_ok ex \<Longrightarrow> serves (example_client std) u (list_all is_ascii) (\<lambda>w. w = ex) ex"
  using example_serves_sent [OF example_ok_valid(1), of ex std u] example_ok_valid(2) [of ex] by simp

section \<open>Properties\<close>

text \<open>
  C36. The client against the example server, over the bytes of request and response: when the
  values of the server are valid JSON, a \<^verbatim>\<open>Get\<close> of a new datastore returns for every
  key the value the server has, in the compact form in which the encoder writes it, and nil for
  a key that the server does not have or whose value is \<^verbatim>\<open>null\<close>.
\<close>

theorem Get_example:
  assumes "example_valid ex" "\<forall>k \<in> set keys. list_all is_ascii k"
  shows "\<exists>d'. Get (example_client std) keys (New u) ex = (Inr (map (\<lambda>k. null_to_nil (sent ex k)) keys), d', ex)"
proof -
  have "in_sync (sent ex) (cache_of (New u))"
    by (simp add: New_def)
  with Get_in_sync [where http = "example_client std" and accepts = "list_all is_ascii" and good = "\<lambda>w. w = ex"
      and v = "sent ex" and d = "New u" and w = ex and keys = keys] example_serves_sent [OF assms(1)] assms(2)
  show ?thesis by blast
qed

definition small_example :: example_data where
  "small_example = [''user/1/age'' \<mapsto> '' [5, 6]'']"

lemma small_example_valid: "example_valid small_example"
proof -
  have "json_valid '' [5, 6]'' \<noteq> None"
    by code_simp
  then show ?thesis
    by (simp add: example_valid_def small_example_def is_ascii_def in_range_def count_char_def)
qed

theorem Get_example_witness:
  "\<exists>d'. Get (example_client (\<lambda>_. [])) [''user/1/age'', ''user/2/age''] (New []) small_example =
     (Inr [Some ''[5,6]'', None], d', small_example)"
  using Get_example [OF small_example_valid, of "[''user/1/age'', ''user/2/age'']" "\<lambda>_. []" "[]"]
  by (simp add: is_ascii_def in_range_def small_example_def sent_def null_to_nil_def is_ws_def)

lemma updater_args_assignments:
  "\<forall>(k, v) \<in> set ps. CHR ''='' \<notin> set k \<Longrightarrow>
    updater_args (map assignment ps) args ex = (args @ concat (map (\<lambda>(k, v). [k, v]) ps), ex ++ map_of (rev ps))"
proof (induction ps arbitrary: args ex)
  case (Cons p ps)
  then show ?case
    by (cases p) (simp add: split_assignment)
qed simp

text \<open>
  What the example datastore sends to redis is what it stores: a line of assignments becomes
  one \<^verbatim>\<open>XADD\<close> with all its keys and values, and the data changes accordingly, where a
  later assignment to the same key wins.
\<close>

lemma updater_line:
  assumes "assignments_ok ps" "cmd (''XADD'' # redisKey # ''*'' # concat (map (\<lambda>(k, v). [k, v]) ps)) w = (None, w')"
  shows "updater cmd (assignments_line ps # lines) ex w = updater cmd lines (ex ++ map_of (rev ps)) w'"
proof -
  have "length (concat (map (\<lambda>(k, v). [k, v]) ps)) = 2 * length ps" for ps :: "(string \<times> string) list"
    by (induction ps) auto
  moreover have "ps \<noteq> []" "\<forall>(k, v) \<in> set ps. CHR ''='' \<notin> set k"
    using assms(1) by (auto simp: assignments_ok_def)
  ultimately show ?thesis
    using updater_args_assignments [of ps "[redisKey, ''*'']" ex] split_assignments(1) [OF assms(1)] assms(2) by simp
qed

text \<open>
  C37. The example server can be brought down to an error by its own input: after an assignment
  to a key with fewer than two slashes, every request for this key ends in a panic of the
  handler.
\<close>

theorem exampleHandler_panics:
  assumes "ex k = Some v" "count_char CHR ''/'' k < 2" "list_all is_ascii k"
  shows "exampleHandler std ex (keysToGetManyRequest [k]) = Inl (EPanic ''index out of range'')"
proof -
  have "length (split_n CHR ''/'' 3 k) < 3"
    using assms(2) length_split_n [of "CHR ''/''" 2 k] unfolding Suc_2_eq_3 by simp
  then have "example_loop ex [k] [] = Inl (EPanic ''index out of range'')"
    using assms(1) by (auto split: list.split)
  then show ?thesis
    using decode_requests_round_trip [of "[k]"] assms(3) by (simp add: exampleHandler_def)
qed

theorem exampleHandler_panics_witness:
  "exampleHandler (\<lambda>_. []) (snd (updater_args [''user=5''] [] Map.empty)) (keysToGetManyRequest [''user'']) =
     Inl (EPanic ''index out of range'')"
proof -
  have "snd (updater_args [''user=5''] [] Map.empty) = [''user'' \<mapsto> ''5'']"
    by (simp add: numeral_2_eq_2)
  then show ?thesis
    using exampleHandler_panics [of "[''user'' \<mapsto> ''5'']" "''user''"]
    by (simp add: count_char_def is_ascii_def in_range_def)
qed

end
