(* ===== verification/Service.thy ===== *)
theory Service
  imports Command Example_Datastore
begin

text \<open>
  The running service, as \<^verbatim>\<open>main\<close> puts it together: what a client of the handlers sees of
  the data in the database, over a sequence of changes of these data.

  The permission service of \<^verbatim>\<open>main\<close> allows everything, so what a user sees of a value is
  the value as the checkers leave it.
\<close>

section \<open>What a user sees\<close>

abbreviation main_look :: "(string \<Rightarrow> raw) \<Rightarrow> string \<Rightarrow> raw" where
  "main_look \<equiv> restricted_look main_perm main_restricter 1 (\<lambda>_. True)"

abbreviation main_readable :: "(string \<Rightarrow> bool) \<Rightarrow> (string \<Rightarrow> raw) \<Rightarrow> string \<Rightarrow> bool" where
  "main_readable accepts \<equiv> readable main_perm main_restricter 1 accepts (\<lambda>_. True)"

abbreviation main_rd :: "'w http_client \<Rightarrow> ('s, 'w) world provider" where
  "main_rd http \<equiv> RestrictedData http main_perm main_restricter"

text \<open>The datastore serves the snapshot \<open>v\<close>, and the cache is in step with it.\<close>

definition at_snapshot :: "'w http_client \<Rightarrow> (string \<Rightarrow> bool) \<Rightarrow> (string \<Rightarrow> raw) \<Rightarrow> ('w \<Rightarrow> bool) \<Rightarrow> ('s, 'w) world \<Rightarrow> bool" where
  "at_snapshot http accepts v good dw \<longleftrightarrow>
     serves http (url (fst dw)) accepts good v \<and> good (snd dw) \<and> in_sync v (cache_of (fst dw))"

lemma main_permission: "permission_check (CheckFQFields main_perm uid) (\<lambda>_. True)"
proof -
  have "mock_allows Map.empty True = (\<lambda>_. True)"
    by (simp add: mock_allows_def fun_eq_iff)
  with mock.permission_check_axioms [of Map.empty True uid] show ?thesis
    by (simp add: main_perm_def MockPermission_def)
qed

lemma main_good: "service_good http main_perm 1 accepts (\<lambda>_. True) v good = at_snapshot http accepts v good"
  by (simp add: fun_eq_iff service_good_def at_snapshot_def main_permission)

lemmas main_Next_first_exact = restricted.Next_first_exact [where perm = main_perm and r = main_restricter and uid = 1
    and allow = "\<lambda>_. True", unfolded main_good]

lemmas main_Next_pass_correct = restricted.Next_pass_correct [where perm = main_perm and r = main_restricter and uid = 1
    and allow = "\<lambda>_. True", unfolded main_good]

lemmas main_Update_complete = restricted.Builder_Update_complete [where perm = main_perm and r = main_restricter and uid = 1
    and allow = "\<lambda>_. True", unfolded main_good]

lemma main_CheckFQ [simp]:
  "CheckFQIDs main_perm uid ks = Inr (fold (\<lambda>k. mput k True) ks [])"
  "CheckFQFields main_perm uid ks = Inr (fold (\<lambda>k. mput k True) ks [])"
  by (simp_all add: main_perm_def MockPermission_def MockPermission_CheckFQIDs_def)

text \<open>A checker of \<^verbatim>\<open>main\<close> fails exactly when the value is not the list that it expects.\<close>

lemma main_Check_ok:
  "isl (Check main_perm c uid k (Some t)) \<longleftrightarrow>
    (if \<exists>m. c = relationList m then isl (unmarshal decode_ints t) else isl (unmarshal decode_strings t))"
  by (cases c) (auto simp: relationList_Check_def genericRelationList_Check_def structuredField_Check_def Let_def
      raw_bytes_def split: sum.split)

lemma restrict_value_isl:
  assumes "fqfieldToModelField k = Inr mf"
  shows "isl (restrict_value main_perm main_restricter uid True k (Some t)) \<longleftrightarrow>
    (\<exists>c. find_checker main_restricter mf = Some c \<and> isl (Check main_perm c uid k (Some t)))"
  using assms by (auto simp: restrict_value_def split: option.split sum.split)

lemma restrict_value_error:
  assumes "restrict_value main_perm main_restricter uid allowed k v = Inl e" "2 \<le> count_char CHR ''/'' k"
  obtains p q u where "e = EWrap p (EWrap q (unmarshal_goerror u))"
proof -
  obtain mf where mf: "fqfieldToModelField k = Inr mf"
    using assms(2) length_split_on [of "CHR ''/''" k] by (simp add: fqfieldToModelField_def Let_def)
  from assms(1) mf obtain c e' where c: "Check main_perm c uid k v = Inl e'" "e = EWrap (''checker for key '' @ k @ '': '') e'"
    by (auto simp: restrict_value_def split: if_splits option.splits sum.splits)
  have "\<exists>q u. e' = EWrap q (unmarshal_goerror u)"
    using c(1) by (cases c) (auto simp: relationList_Check_def genericRelationList_Check_def structuredField_Check_def Let_def
        split: sum.splits)
  with c(2) that show ?thesis by blast
qed

text \<open>One value that cannot be read is enough to get none of the values.\<close>

lemma main_rd_fails:
  assumes "at_snapshot http accepts v good dw" "\<forall>k \<in> set ks. accepts k \<and> 2 \<le> count_char CHR ''/'' k"
    and "k \<in> set ks" "\<not> main_readable accepts v k"
  obtains p q u dw' where
    "main_rd http 1 ks dw = (Inl (EWrap ''restrict data: '' (EWrap p (EWrap q (unmarshal_goerror u)))), dw')"
proof -
  obtain d w where dw: "dw = (d, w)" by (cases dw)
  have good: "serves http (url d) accepts good v" "good w" "in_sync v (cache_of d)"
    using assms(1) by (simp_all add: at_snapshot_def dw)
  have acc: "\<forall>k \<in> set ks. accepts k" using assms(2) by blast
  obtain c w' where get: "Get http ks d w = (Inr (map (\<lambda>k. null_to_nil (v k)) ks), d\<lparr>cache_of := c\<rparr>, w')"
    using Get_in_sync [OF good acc] by blast
  let ?m = "mput_all (zip ks (map (\<lambda>k. null_to_nil (v k)) ks)) []"
  have m: "set ?m = (\<lambda>k. (k, null_to_nil (v k))) ` set ks"
    by (rule mput_all_zip)
  obtain al where al: "CheckFQFields main_perm 1 (mkeys ?m) = Inr al" "\<forall>k \<in> set (mkeys ?m). mbool al k"
    using permission_check.check_answers [OF main_permission, of 1 "mkeys ?m"] by auto
  have keys: "set (mkeys ?m) = set ks"
    using m by (simp add: image_image)
  have k: "(k, null_to_nil (v k)) \<in> set ?m" "isl (restrict_value main_perm main_restricter 1 (mbool al k) k (null_to_nil (v k)))"
    using m assms(2-4) al(2) keys by (auto simp: readable_def)
  from k obtain k' v' e where e: "(k', v') \<in> set ?m" "restrict_value main_perm main_restricter 1 (mbool al k') k' v' = Inl e"
    "restrict_loop main_perm main_restricter 1 al ?m = Inl e"
    by (rule restrict_loop_fails)
  have "2 \<le> count_char CHR ''/'' k'"
    using e(1) m assms(2) by auto
  from restrict_value_error [OF e(2) this] obtain p q u where "e = EWrap p (EWrap q (unmarshal_goerror u))"
    by blast
  with get al(1) e(3) show ?thesis
    by (intro that [of p q u]) (simp add: RestrictedData_def Restrict_def dw del: main_CheckFQ)
qed

section \<open>A request and its keys\<close>

definition asked :: "(string \<Rightarrow> raw) \<Rightarrow> body list \<Rightarrow> string set" where
  "asked v bs = {k. \<exists>d. reach (main_look v) (set (bodies_targets bs)) k d}"

definition request_ok :: "(string \<Rightarrow> bool) \<Rightarrow> (string \<Rightarrow> raw) \<Rightarrow> body list \<Rightarrow> bool" where
  "request_ok accepts v bs \<longleftrightarrow>
     no_conflict (main_look v) (set (bodies_targets bs)) \<and> well_typed (main_look v) (set (bodies_targets bs)) \<and>
     (\<forall>k \<in> asked v bs. main_readable accepts v k)"

lemma main_Update:
  assumes "at_snapshot http accepts v good dw" "builder_uid b = 1" "request_ok accepts v (builder_bodies b)"
  obtains b' dw' where "Builder_Update (main_rd http) ord b dw = ((None, b'), dw')" "at_snapshot http accepts v good dw'"
    "builder_uid b' = 1" "builder_bodies b' = builder_bodies b" "set (Builder_Keys b') = asked v (builder_bodies b)"
proof -
  have "\<exists>b' dw'. Builder_Update (main_rd http) ord b dw = ((None, b'), dw') \<and> at_snapshot http accepts v good dw' \<and>
    b' = b\<lparr>builder_keys := Builder_Keys b'\<rparr> \<and>
    set (Builder_Keys b') = {k. \<exists>d. reach (main_look v) (set (bodies_targets (builder_bodies b))) k d}"
    by (rule main_Update_complete) (use assms in \<open>auto simp: request_ok_def asked_def\<close>)
  then obtain b' dw' where u: "Builder_Update (main_rd http) ord b dw = ((None, b'), dw')" "at_snapshot http accepts v good dw'"
    "b' = b\<lparr>builder_keys := Builder_Keys b'\<rparr>" "set (Builder_Keys b') = asked v (builder_bodies b)"
    unfolding asked_def by blast
  have "builder_uid b' = 1" "builder_bodies b' = builder_bodies b"
    using arg_cong [OF u(3), of builder_uid] arg_cong [OF u(3), of builder_bodies] assms(2) by simp_all
  with u that show ?thesis by blast
qed

text \<open>The keys builder of a request to the complex route.\<close>

lemma main_complex:
  assumes "at_snapshot http accepts v good dw" "request_ok accepts v bs"
    and "bs \<noteq> []" "list_all (\<lambda>b. wf_body b \<and> ascii_body b) bs" "ReqBody r = render (JArr (map body_json bs))"
  obtains b dw' where "Handler_complex (main_rd http) ord r 1 dw = (Inr b, dw')" "at_snapshot http accepts v good dw'"
    "builder_uid b = 1" "builder_bodies b = bs" "set (Builder_Keys b) = asked v bs"
proof -
  let ?b = "\<lparr>builder_uid = 1, builder_bodies = bs, builder_keys = []\<rparr>"
  have ok: "request_ok accepts v (builder_bodies ?b)" "builder_uid ?b = 1"
    using assms(2) by simp_all
  obtain b dw' where u: "Builder_Update (main_rd http) ord ?b dw = ((None, b), dw')" "at_snapshot http accepts v good dw'"
    "builder_uid b = 1" "builder_bodies b = bs" "set (Builder_Keys b) = asked v bs"
    by (rule main_Update [OF assms(1) ok(2,1)]) (simp only: builder.simps)
  have "Handler_complex (main_rd http) ord r 1 dw = (Inr b, dw')"
    unfolding Handler_complex_def assms(5) ManyFromJSON_def ManyFromJSON_decode_round_trip [OF assms(3,4)]
    by (simp add: newBuilder_def u(1))
  with u that show ?thesis by blast
qed

section \<open>A client that is in step\<close>

definition client_current :: "(string \<Rightarrow> raw) \<Rightarrow> body list \<Rightarrow> view \<Rightarrow> bool" where
  "client_current v bs view \<longleftrightarrow> (\<forall>k \<in> asked v bs. same (view k) (main_look v k))"

text \<open>
  A connection with the bodies \<open>bs\<close> of a request, on which \<^verbatim>\<open>Next\<close> was called before:
  the keys are those of the snapshot \<open>v\<close>, and the client has their values.
\<close>

definition in_step :: "'w http_client \<Rightarrow> (string \<Rightarrow> bool) \<Rightarrow> (string \<Rightarrow> 64 word) \<Rightarrow> string set \<Rightarrow> body list
    \<Rightarrow> (string \<Rightarrow> raw) \<Rightarrow> ('w \<Rightarrow> bool) \<Rightarrow> view \<Rightarrow> builder connection \<Rightarrow> ('s, 'w) world \<Rightarrow> bool" where
  "in_step http accepts hash V bs v good view c dw \<longleftrightarrow>
     at_snapshot http accepts v good dw \<and> conn_uid c = 1 \<and>
     builder_uid (conn_kb c) = 1 \<and> builder_bodies (conn_kb c) = bs \<and> set (Builder_Keys (conn_kb c)) = asked v bs \<and>
     (\<exists>h. conn_filter c = Some h \<and> remembers hash V h view) \<and> client_current v bs view"

text \<open>
  The snapshots \<open>vs 0\<close>, \<open>vs 1\<close> and so on of the database. The request makes sense on each of
  them, and the hash function has no collision on the values that occur.
\<close>

definition snapshots_ok :: "(string \<Rightarrow> bool) \<Rightarrow> (string \<Rightarrow> 64 word) \<Rightarrow> string set \<Rightarrow> body list \<Rightarrow> (nat \<Rightarrow> string \<Rightarrow> raw) \<Rightarrow> bool" where
  "snapshots_ok accepts hash V bs vs \<longleftrightarrow>
     hash_ok hash V \<and>
     (\<forall>i. look_in V (main_look (vs i)) \<and> request_ok accepts (vs i) bs \<and>
        (\<forall>k \<in> asked (vs i) bs. main_readable accepts (vs (Suc i)) k))"

text \<open>
  The topic: \<^verbatim>\<open>Receive\<close> waits for the next snapshot, with which datastore and cache are in
  step, and returns at least the keys whose values have changed.
\<close>

definition announces :: "'w http_client \<Rightarrow> (string \<Rightarrow> bool) \<Rightarrow> (nat \<Rightarrow> string \<Rightarrow> raw) \<Rightarrow> (nat \<Rightarrow> 'w \<Rightarrow> bool)
    \<Rightarrow> ('s, 'w) world topic \<Rightarrow> bool" where
  "announces http accepts vs goods tp \<longleftrightarrow>
     (\<forall>i dw t. at_snapshot http accepts (vs i) (goods i) dw \<longrightarrow>
        (\<exists>t' changed dw'. Receive tp t dw = ((t', changed, None), dw') \<and>
           at_snapshot http accepts (vs (Suc i)) (goods (Suc i)) dw' \<and>
           (\<forall>k. vs (Suc i) k \<noteq> vs i k \<longrightarrow> k \<in> set changed)))"

lemma main_look_local: "v k = v' k \<Longrightarrow> main_look v k = main_look v' k"
  by (simp add: restricted_look_def)

lemma Builder_ops_simps [simp]:
  "kb_Update (Builder_ops rd ord) = Builder_Update rd ord" "kb_Keys (Builder_ops rd ord) = Builder_Keys"
  by (simp_all add: Builder_ops_def)

lemma in_step_first:
  assumes "at_snapshot http accepts v good dw" "request_ok accepts v bs" "hash_ok hash V" "look_in V (main_look v)"
    and "builder_uid b = 1" "builder_bodies b = bs" "set (Builder_Keys b) = asked v bs"
  obtains data c dw' where
    "Next_first (main_rd http) tp (Builder_ops (main_rd http) ord) hash (Connect 1 b t) dw = (Inr data, c, dw')"
    "in_step http accepts hash V bs v good (apply_data data (\<lambda>_. None)) c dw'" "wf_map data"
    "\<And>k x. (k, x) \<in> set data \<longleftrightarrow> k \<in> asked v bs \<and> x = main_look v k \<and> \<not> raw_empty x"
proof -
  let ?kbo = "Builder_ops (main_rd http) ord" and ?c = "Connect 1 b t"
  have keys: "set (kb_Keys ?kbo (conn_kb ?c)) = asked v bs" and uid: "conn_uid ?c = 1"
    using assms(7) by (simp_all add: Connect_def)
  then have valid: "\<forall>k \<in> set (kb_Keys ?kbo (conn_kb ?c)). main_readable accepts v k"
    using assms(2) by (simp add: request_ok_def)
  obtain data h t' dw' where d:
    "Next_first (main_rd http) tp ?kbo hash ?c dw = (Inr data, ?c\<lparr>conn_filter := Some h, conn_tid := t'\<rparr>, dw')"
    "at_snapshot http accepts v good dw'" "remembers hash V h (apply_data data (\<lambda>_. None))" "wf_map data"
    and data: "\<And>k x. (k, x) \<in> set data \<longleftrightarrow> k \<in> asked v bs \<and> x = main_look v k \<and> \<not> raw_empty x"
    and sees: "\<And>k. k \<in> asked v bs \<Longrightarrow> same (apply_data data (\<lambda>_. None) k) (main_look v k)"
    by (rule main_Next_first_exact [OF assms(1) uid assms(3,4) valid, unfolded keys]) blast
  have "in_step http accepts hash V bs v good (apply_data data (\<lambda>_. None)) (?c\<lparr>conn_filter := Some h, conn_tid := t'\<rparr>) dw'"
    using d(2,3) sees assms(5-7) by (simp add: in_step_def client_current_def Connect_def)
  with d(1,4) data that show ?thesis by blast
qed

text \<open>One pass of \<^verbatim>\<open>Next\<close> brings the client to the next snapshot.\<close>

lemma in_step_pass:
  assumes "announces http accepts vs goods tp" "snapshots_ok accepts hash V bs vs"
    and "in_step http accepts hash V bs (vs i) (goods i) view c dw" "conn_filter c = Some h"
  obtains r data c' dw' where
    "Next_pass (main_rd http) tp (Builder_ops (main_rd http) ord) hash h c dw = (r, c', dw')"
    "r = None \<and> data = [] \<or> r = Some (Inr data)"
    "in_step http accepts hash V bs (vs (Suc i)) (goods (Suc i)) (apply_data data view) c' dw'" "wf_map data"
    "\<forall>(k, x) \<in> set data. \<not> same x (view k)"
proof -
  let ?kbo = "Builder_ops (main_rd http) ord" and ?v = "vs (Suc i)"
  have step: "at_snapshot http accepts (vs i) (goods i) dw" "conn_uid c = 1" "builder_uid (conn_kb c) = 1"
    "builder_bodies (conn_kb c) = bs" "set (Builder_Keys (conn_kb c)) = asked (vs i) bs" "remembers hash V h view"
    "client_current (vs i) bs view"
    using assms(3,4) by (auto simp: in_step_def)
  have ok: "hash_ok hash V" "look_in V (main_look ?v)" "request_ok accepts ?v bs"
    "\<forall>k \<in> asked (vs i) bs. main_readable accepts ?v k"
    using assms(2) by (simp_all add: snapshots_ok_def)
  obtain t' changed dw1 where rcv: "Receive tp (conn_tid c) dw = ((t', changed, None), dw1)"
    "at_snapshot http accepts ?v (goods (Suc i)) dw1" "\<forall>k. ?v k \<noteq> vs i k \<longrightarrow> k \<in> set changed"
    using assms(1) [unfolded announces_def, rule_format, OF step(1), of "conn_tid c"] by blast
  have req: "request_ok accepts ?v (builder_bodies (conn_kb c))"
    using ok(3) step(4) by simp
  obtain b dw2 where u: "Builder_Update (main_rd http) ord (conn_kb c) dw1 = ((None, b), dw2)"
    "at_snapshot http accepts ?v (goods (Suc i)) dw2" "builder_uid b = 1" "builder_bodies b = bs" "set (Builder_Keys b) = asked ?v bs"
    by (rule main_Update [OF rcv(2) step(3) req]) (simp only: step(4))
  have kbu: "kb_Update ?kbo (conn_kb c) dw1 = ((None, b), dw2)"
    using u(1) by simp
  have valid: "\<forall>k \<in> set (kb_Keys ?kbo (conn_kb c)) \<union> set (kb_Keys ?kbo b). main_readable accepts ?v k"
    using ok(3,4) step(5) u(5) by (auto simp: request_ok_def)
  have old: "\<forall>k \<in> set (kb_Keys ?kbo (conn_kb c)). same (view k) (main_look (vs i) k)"
    using step(5,7) by (simp add: client_current_def)
  have chg: "\<forall>k. main_look ?v k \<noteq> main_look (vs i) k \<longrightarrow> k \<in> set changed"
    using rcv(3) main_look_local [of ?v _ "vs i"] by blast
  show ?thesis
  proof (rule main_Next_pass_correct [OF rcv(1) kbu u(2) valid step(2) ok(1,2) step(6) assms(4) old chg])
    fix r data h' dw'
    let ?c = "c\<lparr>conn_tid := t', conn_kb := b, conn_filter := Some h'\<rparr>"
    assume p: "Next_pass (main_rd http) tp ?kbo hash h c dw = (r, ?c, dw')" "r = None \<and> data = [] \<or> r = Some (Inr data)"
      "at_snapshot http accepts ?v (goods (Suc i)) dw'" "wf_map data" "remembers hash V h' (apply_data data view)"
      and sees: "\<And>k. k \<in> set (kb_Keys ?kbo (conn_kb c)) \<union> set (kb_Keys ?kbo b) \<Longrightarrow> same (apply_data data view k) (main_look ?v k)"
      and new: "\<And>k x. (k, x) \<in> set data \<Longrightarrow> x = main_look ?v k \<and> \<not> same x (view k)"
    have "client_current ?v bs (apply_data data view)"
      unfolding client_current_def using sees u(5) by simp
    then have "in_step http accepts hash V bs ?v (goods (Suc i)) (apply_data data view) ?c dw'"
      using p(3,5) step(2) u(3-5) by (simp add: in_step_def)
    moreover have "\<forall>(k, x) \<in> set data. \<not> same x (view k)"
      using new by fast
    ultimately show ?thesis
      by (rule that [OF p(1,2) _ p(4)])
  qed
qed

text \<open>A call of \<^verbatim>\<open>Next\<close> with any number of passes.\<close>

lemma in_step_Next:
  assumes "announces http accepts vs goods tp" "snapshots_ok accepts hash V bs vs"
    and "in_step http accepts hash V bs (vs i) (goods i) view c dw"
    and "Next m (main_rd http) tp (Builder_ops (main_rd http) ord) hash c dw = Some (r, c', dw')"
  shows "\<exists>data j. r = Inr data \<and> i < j \<and> in_step http accepts hash V bs (vs j) (goods j) (apply_data data view) c' dw' \<and>
    wf_map data \<and> (\<forall>(k, x) \<in> set data. \<not> same x (view k))"
  using assms(3,4)
proof (induction m arbitrary: i c dw)
  case (Suc m)
  let ?kbo = "Builder_ops (main_rd http) ord"
  obtain h where h: "conn_filter c = Some h"
    using Suc.prems(1) by (auto simp: in_step_def)
  obtain r1 data c1 dw1 where p: "Next_pass (main_rd http) tp ?kbo hash h c dw = (r1, c1, dw1)"
    "r1 = None \<and> data = [] \<or> r1 = Some (Inr data)"
    "in_step http accepts hash V bs (vs (Suc i)) (goods (Suc i)) (apply_data data view) c1 dw1" "wf_map data"
    "\<forall>(k, x) \<in> set data. \<not> same x (view k)"
    by (rule in_step_pass [OF assms(1,2) Suc.prems(1) h]) blast
  show ?case
  proof (cases r1)
    case None
    then have "in_step http accepts hash V bs (vs (Suc i)) (goods (Suc i)) view c1 dw1"
      using p(2,3) by simp
    moreover have "Next m (main_rd http) tp ?kbo hash c1 dw1 = Some (r, c', dw')"
      using Suc.prems(2) h p(1) None by simp
    ultimately obtain data' j where "r = Inr data'" "Suc i < j"
      "in_step http accepts hash V bs (vs j) (goods j) (apply_data data' view) c' dw'"
      "wf_map data'" "\<forall>(k, x) \<in> set data'. \<not> same x (view k)"
      using Suc.IH by blast
    then show ?thesis using Suc_lessD by blast
  next
    case (Some x)
    then have "r = Inr data" "c' = c1" "dw' = dw1"
      using Suc.prems(2) h p(1,2) by auto
    with p(3-5) show ?thesis by blast
  qed
qed simp

text \<open>Frames that a client with \<open>view\<close> gets, each with nothing but news.\<close>

fun fresh :: "data list \<Rightarrow> view \<Rightarrow> bool" where
  "fresh [] view \<longleftrightarrow> True"
| "fresh (data # ds) view \<longleftrightarrow>
     wf_map data \<and> (\<forall>(k, x) \<in> set data. \<not> same x (view k)) \<and> fresh ds (apply_data data view)"

lemma in_step_results:
  assumes "announces http accepts vs goods tp" "snapshots_ok accepts hash V bs vs"
    and "in_step http accepts hash V bs (vs i) (goods i) view c dw"
  shows "\<exists>ds j. next_results n (Next m (main_rd http) tp (Builder_ops (main_rd http) ord) hash) c dw = (ds, None) \<and>
    i + length ds \<le> j \<and> client_current (vs j) bs (fold apply_data ds view) \<and> fresh ds view"
  using assms(3)
proof (induction n arbitrary: i view c dw)
  case 0
  then show ?case by (auto simp: in_step_def)
next
  case (Suc n)
  let ?next = "Next m (main_rd http) tp (Builder_ops (main_rd http) ord) hash"
  show ?case
  proof (cases "?next c dw")
    case None
    with Suc.prems show ?thesis by (auto simp: in_step_def)
  next
    case (Some res)
    obtain r c' dw' where res: "res = (r, c', dw')" by (cases res)
    obtain data j where d: "r = Inr data" "i < j" "in_step http accepts hash V bs (vs j) (goods j) (apply_data data view) c' dw'"
      "wf_map data" "\<forall>(k, x) \<in> set data. \<not> same x (view k)"
      using in_step_Next [OF assms(1,2) Suc.prems Some [unfolded res]] by blast
    obtain ds j' where "next_results n ?next c' dw' = (ds, None)" "j + length ds \<le> j'"
      "client_current (vs j') bs (fold apply_data ds (apply_data data view))" "fresh ds (apply_data data view)"
      using Suc.IH [OF d(3)] by blast
    then have "next_results (Suc n) ?next c dw = (data # ds, None) \<and> i + length (data # ds) \<le> j' \<and>
        client_current (vs j') bs (fold apply_data (data # ds) view) \<and> fresh (data # ds) view"
      using Some res d(1,2,4,5) by simp
    then show ?thesis by blast
  qed
qed

section \<open>Requests to the handlers\<close>

definition http2_request :: "string \<Rightarrow> request \<Rightarrow> bool" where
  "http2_request path r \<longleftrightarrow> 2 \<le> ProtoMajor r \<and> Method r \<in> {''GET'', ''POST''} \<and> Path r = path"

lemma serve_complex:
  assumes "http2_request ''/system/autoupdate'' r"
  shows "Handler_ServeHTTP n m std (main_handler http tp hash ord) r wr dw =
    errHandleFunc_ServeHTTP std
      (autoupdate_handler buildAuth (LastID tp) (Handler_complex (main_rd http) ord)
        (Next m (main_rd http) tp (Builder_ops (main_rd http) ord) hash) n r wr dw)"
  using assms
  by (auto simp: http2_request_def Handler_ServeHTTP_def New_Handler_def validRequest_def ProtoAtLeast_def complex_route_def
      main_handler_def)

lemma serve_simple:
  assumes "http2_request ''/system/autoupdate/keys'' r"
  shows "Handler_ServeHTTP n m std (main_handler http tp hash ord) r wr dw =
    errHandleFunc_ServeHTTP std
      (autoupdate_handler buildAuth (LastID tp) Handler_simple (Next m (main_rd http) tp Simple_ops hash) n r wr dw)"
  using assms
  by (auto simp: http2_request_def Handler_ServeHTTP_def New_Handler_def validRequest_def ProtoAtLeast_def simple_route_def
      main_handler_def)

text \<open>A handler whose calls of \<^verbatim>\<open>Next\<close> return the data \<open>ds\<close> and no error.\<close>

lemma handler_frames:
  assumes "kbg r 1 dw = (Inr kb, dw1)" "next_results n next (Connect 1 kb (lid dw)) dw1 = (ds, None)" "ds \<noteq> []"
  shows "\<exists>wr dw'. errHandleFunc_ServeHTTP std (autoupdate_handler buildAuth lid kbg next n r new_writer dw) = (wr, dw') \<and>
    wr_status wr = Some 200 \<and> wr_body wr = concat (map frame_text ds) \<and> wr_flushed wr = length (wr_body wr)"
proof -
  let ?wr = "Header_Set ''Content-Type'' ''application/octet-stream'' new_writer"
  have wr: "wr_status ?wr = None" "wr_body ?wr = []"
    by (simp_all add: Header_Set_def new_writer_def)
  obtain wr' dw' where "autoupdate_loop n next (Connect 1 kb (lid dw)) dw1 ?wr = (None, wr', dw')"
    "wr_body wr' = concat (map frame_text ds)" "wr_flushed wr' = length (wr_body wr')" "wr_status wr' = Some 200"
    using autoupdate_loop_results [OF assms(2), of ?wr] assms(3) wr by auto
  then show ?thesis
    using assms(1)
    by (simp add: autoupdate_handler_def buildAuth_def fakeAuth_Authenticate_def errHandleFunc_ServeHTTP_def Let_def)
qed

text \<open>A handler whose first call of \<^verbatim>\<open>Next\<close> fails with an error that is not shown.\<close>

lemma handler_fails:
  assumes "kbg r 1 dw = (Inr kb, dw1)" "nx (Connect 1 kb (lid dw)) dw1 = Some (Inl e, c', dw')"
    and "errors_As is_EPanic e = None" "errors_As (\<lambda>e. e = EClosing) e = None" "errors_As (\<lambda>e. e = ECanceled) e = None"
    and "errors_As (\<lambda>e. Error_Type e \<noteq> None) e = None" "errors_As is_ENoStatus e = None"
  shows "\<exists>wr dw'. errHandleFunc_ServeHTTP std (autoupdate_handler buildAuth lid kbg nx (Suc n) r new_writer dw) = (wr, dw') \<and>
    wr_status wr = Some 500 \<and> wr_body wr = error_body ''InternalError'' ''Ups, something went wrong!'' @ newline"
  using assms
  by (simp add: autoupdate_handler_def buildAuth_def fakeAuth_Authenticate_def errHandleFunc_ServeHTTP_def Let_def
      handle_error_def Header_Set_def new_writer_def)

section \<open>An example\<close>

text \<open>
  The service in front of the example server, with one user whose age changes between 5 and 6 all
  the time. Every call of \<^verbatim>\<open>Receive\<close> brings the next change.
\<close>

definition aged :: "string \<Rightarrow> example_data" where
  "aged a = [''user/1/age'' \<mapsto> a]"

definition ages :: "nat \<Rightarrow> string \<Rightarrow> raw" where
  "ages i = aged (if even i then ''5'' else ''6'')"

definition birthday :: "(unit, example_data) world topic" where
  "birthday = \<lparr>LastID = (\<lambda>_. 1),
     Receive = (\<lambda>t (d, w). let a = (if w ''user/1/age'' = Some ''5'' then ''6'' else ''5'')
       in ((t, [''user/1/age''], None), (d\<lparr>cache_of := SetIfExist [(''user/1/age'', Some a)] (cache_of d)\<rparr>, aged a)))\<rparr>"

definition age_request :: body where
  "age_request = \<lparr>ids = [1], collection = ''user'', body_fields = [(''age'', None)]\<rparr>"

definition age_hash :: "string \<Rightarrow> 64 word" where
  "age_hash s = (if s = ''5'' then 1 else 2)"

abbreviation age_client :: "example_data http_client" where
  "age_client \<equiv> example_client (\<lambda>_. [])"

lemma aged_ok: "a \<in> {''5'', ''6''} \<Longrightarrow> example_ok (aged a)"
proof -
  assume a: "a \<in> {''5'', ''6''}"
  have "canonical_raw (Some ''5'')" "canonical_raw (Some ''6'')"
    by (rule canonical_rawI [of "JNum ''5''"], code_simp) (rule canonical_rawI [of "JNum ''6''"], code_simp)
  with a show ?thesis
    by (auto simp: example_ok_def aged_def is_ascii_def in_range_def count_char_def)
qed

lemma ages_ok: "example_ok (ages i)"
  by (simp add: ages_def aged_ok)

lemma age_unchecked: "find_checker main_restricter ''user/age'' = None"
  unfolding main_restricter_def by (rule find_checker_no_list) code_simp

lemma age_restrict:
  assumes "a \<noteq> ''null''"
  shows "restrict_value main_perm main_restricter 1 True k (null_to_nil (aged a k)) = Inr (aged a k)"
proof (cases "k = ''user/1/age''")
  case True
  have "fqfieldToModelField ''user/1/age'' = Inr ''user/age''"
    by code_simp
  with True assms age_unchecked show ?thesis
    by (simp add: aged_def null_to_nil_def restrict_value_def)
next
  case False
  then show ?thesis
    by (simp add: aged_def null_to_nil_def restrict_value_def)
qed

lemma age_look: "main_look (ages i) = ages i"
  by (simp add: fun_eq_iff restricted_look_def ages_def age_restrict)

lemma age_readable: "main_readable accepts (ages i) k = accepts k"
  by (simp add: readable_def ages_def age_restrict)

lemma age_targets: "bodies_targets [age_request] = [(''user/1/age'', None)]"
  by code_simp

lemma reach_plain: "(\<And>k d. (k, d) \<in> P \<Longrightarrow> d = None) \<Longrightarrow> reach look P k d \<longleftrightarrow> (k, d) \<in> P"
proof
  assume none: "\<And>k d. (k, d) \<in> P \<Longrightarrow> d = None" and "reach look P k d"
  from this(2) show "(k, d) \<in> P"
    by (induction rule: reach.induct) (use none in blast)+
qed (rule reach.base)

lemma age_reach: "reach look (set (bodies_targets [age_request])) k d \<longleftrightarrow> k = ''user/1/age'' \<and> d = None"
  using reach_plain [of "{(''user/1/age'', None)}" look k d] by (simp add: age_targets)

lemma age_asked: "asked v [age_request] = {''user/1/age''}"
  by (simp add: asked_def age_reach)

lemma age_request_ok: "request_ok (list_all is_ascii) (ages i) [age_request]"
  by (simp add: request_ok_def no_conflict_def well_typed_def age_reach age_asked age_readable is_ascii_def in_range_def)

lemma age_hash_ok: "hash_ok age_hash {''5'', ''6''}" "look_in {''5'', ''6''} (main_look (ages i))"
  by (simp_all add: hash_ok_def age_hash_def inj_on_def look_in_def age_look)
    (simp add: ages_def aged_def raw_empty_def raw_bytes_def)

lemma age_snapshots: "snapshots_ok (list_all is_ascii) age_hash {''5'', ''6''} [age_request] ages"
  by (simp add: snapshots_ok_def age_hash_ok age_request_ok age_asked age_readable is_ascii_def in_range_def)

lemma age_body: "list_all (\<lambda>b. wf_body b \<and> ascii_body b) [age_request]"
  by (simp add: age_request_def wf_body_def ascii_body_def int64_range_def is_ascii_def in_range_def)

lemma age_start: "at_snapshot age_client (list_all is_ascii) (ages i) (\<lambda>w. w = ages i) (New u, ages i)"
  using example_serves [OF ages_ok] by (simp add: at_snapshot_def New_def)

lemma age_announces: "announces age_client (list_all is_ascii) ages (\<lambda>i w. w = ages i) birthday"
  unfolding announces_def
proof (intro allI impI)
  fix i t and dw :: "(unit, example_data) world"
  assume at: "at_snapshot age_client (list_all is_ascii) (ages i) (\<lambda>w. w = ages i) dw"
  obtain d where dw: "dw = (d, ages i)" "in_sync (ages i) (cache_of d)"
    using at by (cases dw) (simp add: at_snapshot_def)
  let ?a = "if even (Suc i) then ''5'' else ''6''"
  let ?d = "d\<lparr>cache_of := SetIfExist [(''user/1/age'', Some ?a)] (cache_of d)\<rparr>"
  have "Receive birthday t dw = ((t, [''user/1/age''], None), (?d, ages (Suc i)))"
    by (simp add: birthday_def dw(1) Let_def del: SetIfExist_Cons) (simp add: ages_def aged_def del: SetIfExist_Cons)
  moreover have "in_sync (ages (Suc i)) (cache_of ?d)"
    using in_sync_SetIfExist [OF dw(2), of "[(''user/1/age'', Some ?a)]" "ages (Suc i)"]
    by (simp add: ages_def aged_def wf_map_def del: SetIfExist_Cons)
  then have "at_snapshot age_client (list_all is_ascii) (ages (Suc i)) (\<lambda>w. w = ages (Suc i)) (?d, ages (Suc i))"
    using example_serves [OF ages_ok] by (simp add: at_snapshot_def del: SetIfExist_Cons)
  moreover have "\<forall>k. ages (Suc i) k \<noteq> ages i k \<longrightarrow> k \<in> set [''user/1/age'']"
    by (simp add: ages_def aged_def)
  ultimately show "\<exists>t' changed dw'. Receive birthday t dw = ((t', changed, None), dw') \<and>
      at_snapshot age_client (list_all is_ascii) (ages (Suc i)) (\<lambda>w. w = ages (Suc i)) dw' \<and>
      (\<forall>k. ages (Suc i) k \<noteq> ages i k \<longrightarrow> k \<in> set changed)"
    by blast
qed

end
