(* ===== verification/Example_Table.thy ===== *)
theory Example_Table
  imports Prelude
begin

text \<open>
  The generated file \<^verbatim>\<open>cmd/datastore/example-data.json.go\<close>: the initial content
  of \<^verbatim>\<open>exampleData\<close>, the data that the example datastore serves. The entries are in
  the order of the file. Consecutive keys with the same collection and the same id are written as
  one object, and there is one definition for every collection.
\<close>

type_synonym table = "(string \<times> string \<times> (string \<times> string) list) list"

definition exampleData_agenda_item_1 :: table where
  \<open>exampleData_agenda_item_1 =
    [(''agenda_item'', ''1'',
      [(''child_ids'', ''[]''), (''closed'', ''false''), (''comment'', ''null''),
       (''content_object_id'', ''"motion/1"''), (''current_projector_ids'', ''[]''), (''duration'', ''null''),
       (''id'', ''1''), (''is_hidden'', ''false''), (''is_internal'', ''false''), (''item_number'', ''""''),
       (''level'', ''0''), (''meeting_id'', ''1''), (''parent_id'', ''null''), (''projection_ids'', ''[]''),
       (''tag_ids'', ''[]''), (''type'', ''1''), (''weight'', ''10000'')]),
     (''agenda_item'', ''10'',
      [(''child_ids'', ''[]''), (''closed'', ''false''), (''comment'', ''null''),
       (''content_object_id'', ''"topic/8"''), (''current_projector_ids'', ''[]''), (''duration'', ''null''),
       (''id'', ''10''), (''is_hidden'', ''true''), (''is_internal'', ''false''), (''item_number'', ''""''),
       (''level'', ''0''), (''meeting_id'', ''1''), (''parent_id'', ''null''), (''projection_ids'', ''[]''),
       (''tag_ids'', ''[]''), (''type'', ''3''), (''weight'', ''1007'')]),
     (''agenda_item'', ''11'',
      [(''child_ids'', ''[]''), (''closed'', ''false''), (''comment'', ''null''),
       (''content_object_id'', ''"assignment/1"''), (''current_projector_ids'', ''[]''), (''duration'', ''null''),
       (''id'', ''11''), (''is_hidden'', ''false''), (''is_internal'', ''true''), (''item_number'', ''""''),
       (''level'', ''0''), (''meeting_id'', ''1''), (''parent_id'', ''null''), (''projection_ids'', ''[]''),
       (''tag_ids'', ''[]''), (''type'', ''2''), (''weight'', ''10000'')]),
     (''agenda_item'', ''12'',
      [(''child_ids'', ''[]''), (''closed'', ''false''), (''comment'', ''null''),
       (''content_object_id'', ''"motion/3"''), (''current_projector_ids'', ''[]''), (''duration'', ''null''),
       (''id'', ''12''), (''is_hidden'', ''false''), (''is_internal'', ''true''), (''item_number'', ''""''),
       (''level'', ''0''), (''meeting_id'', ''1''), (''parent_id'', ''null''), (''projection_ids'', ''[]''),
       (''tag_ids'', ''[]''), (''type'', ''2''), (''weight'', ''10000'')]),
     (''agenda_item'', ''13'',
      [(''child_ids'', ''[]''), (''closed'', ''false''), (''comment'', ''null''),
       (''content_object_id'', ''"motion/4"''), (''current_projector_ids'', ''[]''), (''duration'', ''null''),
       (''id'', ''13''), (''is_hidden'', ''false''), (''is_internal'', ''true''), (''item_number'', ''""''),
       (''level'', ''0''), (''meeting_id'', ''1''), (''parent_id'', ''null''), (''projection_ids'', ''[]''),
       (''tag_ids'', ''[]''), (''type'', ''2''), (''weight'', ''10000'')]),
     (''agenda_item'', ''14'',
      [(''child_ids'', ''[]''), (''closed'', ''false''), (''comment'', ''null''),
       (''content_object_id'', ''"assignment/2"''), (''current_projector_ids'', ''[]''), (''duration'', ''null''),
       (''id'', ''14''), (''is_hidden'', ''false''), (''is_internal'', ''true''), (''item_number'', ''""''),
       (''level'', ''1''), (''meeting_id'', ''1''), (''parent_id'', ''3''), (''projection_ids'', ''[]''),
       (''tag_ids'', ''[]''), (''type'', ''2''), (''weight'', ''1001'')]),
     (''agenda_item'', ''15'',
      [(''child_ids'', ''[]''), (''closed'', ''false''), (''comment'', ''null''),
       (''content_object_id'', ''"motion_block/1"''), (''current_projector_ids'', ''[]''), (''duration'', ''null''),
       (''id'', ''15''), (''is_hidden'', ''false''), (''is_internal'', ''true''), (''item_number'', ''""''),
       (''level'', ''0''), (''meeting_id'', ''1''), (''parent_id'', ''null''), (''projection_ids'', ''[]''),
       (''tag_ids'', ''[]''), (''type'', ''2''), (''weight'', ''10000'')]),
     (''agenda_item'', ''2'',
      [(''child_ids'', ''[]''), (''closed'', ''false''), (''comment'', ''null''),
       (''content_object_id'', ''"motion/2"''), (''current_projector_ids'', ''[]''), (''duration'', ''null''),
       (''id'', ''2''), (''is_hidden'', ''false''), (''is_internal'', ''true''), (''item_number'', ''""''),
       (''level'', ''0''), (''meeting_id'', ''1''), (''parent_id'', ''null''), (''projection_ids'', ''[]''),
       (''tag_ids'', ''[]''), (''type'', ''2''), (''weight'', ''10000'')])]\<close>

definition exampleData_agenda_item_2 :: table where
  \<open>exampleData_agenda_item_2 =
    [(''agenda_item'', ''3'',
      [(''child_ids'', ''[14]''), (''closed'', ''false''), (''comment'', ''null''),
       (''content_object_id'', ''"topic/1"''), (''current_projector_ids'', ''[]''), (''duration'', ''null''),
       (''id'', ''3''), (''is_hidden'', ''false''), (''is_internal'', ''false''), (''item_number'', ''""''),
       (''level'', ''0''), (''meeting_id'', ''1''), (''parent_id'', ''null''), (''projection_ids'', ''[]''),
       (''tag_ids'', ''[]''), (''type'', ''1''), (''weight'', ''1000'')]),
     (''agenda_item'', ''4'',
      [(''child_ids'', ''[]''), (''closed'', ''false''), (''comment'', ''null''),
       (''content_object_id'', ''"topic/2"''), (''current_projector_ids'', ''[]''), (''duration'', ''null''),
       (''id'', ''4''), (''is_hidden'', ''false''), (''is_internal'', ''false''), (''item_number'', ''""''),
       (''level'', ''0''), (''meeting_id'', ''1''), (''parent_id'', ''null''), (''projection_ids'', ''[]''),
       (''tag_ids'', ''[2]''), (''type'', ''1''), (''weight'', ''1001'')]),
     (''agenda_item'', ''5'',
      [(''child_ids'', ''[]''), (''closed'', ''false''), (''comment'', ''null''),
       (''content_object_id'', ''"topic/3"''), (''current_projector_ids'', ''[]''), (''duration'', ''null''),
       (''id'', ''5''), (''is_hidden'', ''false''), (''is_internal'', ''true''), (''item_number'', ''""''),
       (''level'', ''0''), (''meeting_id'', ''1''), (''parent_id'', ''null''), (''projection_ids'', ''[]''),
       (''tag_ids'', ''[]''), (''type'', ''2''), (''weight'', ''1002'')]),
     (''agenda_item'', ''6'',
      [(''child_ids'', ''[]''), (''closed'', ''false''), (''comment'', ''null''),
       (''content_object_id'', ''"topic/4"''), (''current_projector_ids'', ''[]''), (''duration'', ''null''),
       (''id'', ''6''), (''is_hidden'', ''false''), (''is_internal'', ''true''), (''item_number'', ''""''),
       (''level'', ''0''), (''meeting_id'', ''1''), (''parent_id'', ''null''), (''projection_ids'', ''[]''),
       (''tag_ids'', ''[]''), (''type'', ''2''), (''weight'', ''1003'')]),
     (''agenda_item'', ''7'',
      [(''child_ids'', ''[]''), (''closed'', ''false''), (''comment'', ''null''),
       (''content_object_id'', ''"topic/5"''), (''current_projector_ids'', ''[]''), (''duration'', ''null''),
       (''id'', ''7''), (''is_hidden'', ''false''), (''is_internal'', ''false''), (''item_number'', ''""''),
       (''level'', ''0''), (''meeting_id'', ''1''), (''parent_id'', ''null''), (''projection_ids'', ''[]''),
       (''tag_ids'', ''[]''), (''type'', ''1''), (''weight'', ''1004'')]),
     (''agenda_item'', ''8'',
      [(''child_ids'', ''[]''), (''closed'', ''false''), (''comment'', ''null''),
       (''content_object_id'', ''"topic/6"''), (''current_projector_ids'', ''[]''), (''duration'', ''null''),
       (''id'', ''8''), (''is_hidden'', ''false''), (''is_internal'', ''false''), (''item_number'', ''""''),
       (''level'', ''0''), (''meeting_id'', ''1''), (''parent_id'', ''null''), (''projection_ids'', ''[]''),
       (''tag_ids'', ''[]''), (''type'', ''1''), (''weight'', ''1005'')]),
     (''agenda_item'', ''9'',
      [(''child_ids'', ''[]''), (''closed'', ''false''), (''comment'', ''null''),
       (''content_object_id'', ''"topic/7"''), (''current_projector_ids'', ''[]''), (''duration'', ''null''),
       (''id'', ''9''), (''is_hidden'', ''false''), (''is_internal'', ''false''), (''item_number'', ''""''),
       (''level'', ''0''), (''meeting_id'', ''1''), (''parent_id'', ''null''), (''projection_ids'', ''[]''),
       (''tag_ids'', ''[]''), (''type'', ''1''), (''weight'', ''1006'')])]\<close>

definition exampleData_assignment :: table where
  \<open>exampleData_assignment =
    [(''assignment'', ''1'',
      [(''agenda_item_id'', ''11''), (''attachment_ids'', ''[]''), (''candidate_ids'', ''[1, 2, 3]''),
       (''current_projector_ids'', ''[1]''), (''default_poll_description'', ''""''), (''description'', ''""''),
       (''id'', ''1''), (''list_of_speakers_id'', ''11''), (''meeting_id'', ''1''),
       (''number_poll_candidates'', ''false''), (''open_posts'', ''1''), (''phase'', ''1''),
       (''poll_ids'', ''[1, 2]''), (''projection_ids'', ''[4]''), (''tag_ids'', ''[]''), (''title'', ''"Wahl"'')]),
     (''assignment'', ''2'',
      [(''agenda_item_id'', ''14''), (''attachment_ids'', ''[]''), (''candidate_ids'', ''[4, 5]''),
       (''current_projector_ids'', ''[]''), (''default_poll_description'', ''""''),
       (''description'', ''"<p>B-Ware</p>"''), (''id'', ''2''), (''list_of_speakers_id'', ''14''),
       (''meeting_id'', ''1''), (''number_poll_candidates'', ''true''), (''open_posts'', ''1''), (''phase'', ''0''),
       (''poll_ids'', ''[3]''), (''projection_ids'', ''[]''), (''tag_ids'', ''[2]''), (''title'', ''"2. Wahl"'')])]\<close>

definition exampleData_assignment_candidate :: table where
  \<open>exampleData_assignment_candidate =
    [(''assignment_candidate'', ''1'',
      [(''assignment_id'', ''1''), (''id'', ''1''), (''user_id'', ''1''), (''weight'', ''1'')]),
     (''assignment_candidate'', ''2'',
      [(''assignment_id'', ''1''), (''id'', ''2''), (''user_id'', ''3''), (''weight'', ''2'')]),
     (''assignment_candidate'', ''3'',
      [(''assignment_id'', ''1''), (''id'', ''3''), (''user_id'', ''2''), (''weight'', ''3'')]),
     (''assignment_candidate'', ''4'',
      [(''assignment_id'', ''2''), (''id'', ''4''), (''user_id'', ''3''), (''weight'', ''1'')]),
     (''assignment_candidate'', ''5'',
      [(''assignment_id'', ''2''), (''id'', ''5''), (''user_id'', ''2''), (''weight'', ''2'')])]\<close>

definition exampleData_assignment_option :: table where
  \<open>exampleData_assignment_option =
    [(''assignment_option'', ''1'',
      [(''abstain'', ''"0.000000"''), (''id'', ''1''), (''no'', ''"0.000000"''), (''poll_id'', ''1''),
       (''user_id'', ''1''), (''vote_ids'', ''[]''), (''weight'', ''1''), (''yes'', ''"0.000000"'')]),
     (''assignment_option'', ''2'',
      [(''abstain'', ''"0.000000"''), (''id'', ''2''), (''no'', ''"0.000000"''), (''poll_id'', ''2''),
       (''user_id'', ''1''), (''vote_ids'', ''[1]''), (''weight'', ''1''), (''yes'', ''"3.000000"'')]),
     (''assignment_option'', ''3'',
      [(''abstain'', ''"0.000000"''), (''id'', ''3''), (''no'', ''"0.000000"''), (''poll_id'', ''2''),
       (''user_id'', ''3''), (''vote_ids'', ''[3]''), (''weight'', ''2''), (''yes'', ''"7.000000"'')]),
     (''assignment_option'', ''4'',
      [(''abstain'', ''"0.000000"''), (''id'', ''4''), (''no'', ''"0.000000"''), (''poll_id'', ''2''),
       (''user_id'', ''2''), (''vote_ids'', ''[2]''), (''weight'', ''3''), (''yes'', ''"2.000000"'')]),
     (''assignment_option'', ''5'',
      [(''abstain'', ''"0.000000"''), (''id'', ''5''), (''no'', ''"0.000000"''), (''poll_id'', ''3''),
       (''user_id'', ''3''), (''vote_ids'', ''[]''), (''weight'', ''1''), (''yes'', ''"0.000000"'')]),
     (''assignment_option'', ''6'',
      [(''abstain'', ''"0.000000"''), (''id'', ''6''), (''no'', ''"0.000000"''), (''poll_id'', ''3''),
       (''user_id'', ''2''), (''vote_ids'', ''[4]''), (''weight'', ''2''), (''yes'', ''"1.000000"'')])]\<close>

definition exampleData_assignment_poll :: table where
  \<open>exampleData_assignment_poll =
    [(''assignment_poll'', ''1'',
      [(''allow_multiple_votes_per_candidate'', ''false''), (''amount_global_abstain'', ''null''),
       (''amount_global_no'', ''null''), (''assignment_id'', ''1''), (''current_projector_ids'', ''[]''),
       (''description'', ''""''), (''entitled_group_ids'', ''[]''), (''global_abstain'', ''true''),
       (''global_no'', ''true''), (''id'', ''1''), (''majority_method'', ''"simple"''), (''meeting_id'', ''1''),
       (''onehundred_percent_base'', ''"YNA"''), (''option_ids'', ''[1]''), (''pollmethod'', ''"YNA"''),
       (''projection_ids'', ''[]''), (''state'', ''1''), (''title'', ''"1"''), (''type'', ''"analog"''),
       (''user_has_voted'', ''false''), (''voted_ids'', ''[]''), (''votes_amount'', ''1''), (''votescast'', ''null''),
       (''votesinvalid'', ''null''), (''votesvalid'', ''null'')]),
     (''assignment_poll'', ''2'',
      [(''allow_multiple_votes_per_candidate'', ''false''), (''amount_global_abstain'', ''"1.000000"''),
       (''amount_global_no'', ''"2.000000"''), (''assignment_id'', ''1''), (''current_projector_ids'', ''[]''),
       (''description'', ''""''), (''entitled_group_ids'', ''[]''), (''global_abstain'', ''true''),
       (''global_no'', ''true''), (''id'', ''2''), (''majority_method'', ''"simple"''), (''meeting_id'', ''1''),
       (''onehundred_percent_base'', ''"votes"''), (''option_ids'', ''[2, 3, 4]''), (''pollmethod'', ''"votes"''),
       (''projection_ids'', ''[]''), (''state'', ''3''), (''title'', ''"2"''), (''type'', ''"analog"''),
       (''user_has_voted'', ''false''), (''voted_ids'', ''[]''), (''votes_amount'', ''1''),
       (''votescast'', ''"16.000000"''), (''votesinvalid'', ''"2.000000"''), (''votesvalid'', ''"9.000000"'')]),
     (''assignment_poll'', ''3'',
      [(''allow_multiple_votes_per_candidate'', ''false''), (''amount_global_abstain'', ''null''),
       (''amount_global_no'', ''"0.000000"''), (''assignment_id'', ''2''), (''current_projector_ids'', ''[]''),
       (''description'', ''""''), (''entitled_group_ids'', ''[2]''), (''global_abstain'', ''false''),
       (''global_no'', ''true''), (''id'', ''3''), (''majority_method'', ''"simple"''), (''meeting_id'', ''1''),
       (''onehundred_percent_base'', ''"valid"''), (''option_ids'', ''[5, 6]''), (''pollmethod'', ''"votes"''),
       (''projection_ids'', ''[]''), (''state'', ''3''), (''title'', ''"Wahlgang"''), (''type'', ''"named"''),
       (''user_has_voted'', ''true''), (''voted_ids'', ''[1]''), (''votes_amount'', ''1''),
       (''votescast'', ''"1.000000"''), (''votesinvalid'', ''"0.000000"''), (''votesvalid'', ''"1.000000"'')])]\<close>

definition exampleData_assignment_vote :: table where
  \<open>exampleData_assignment_vote =
    [(''assignment_vote'', ''1'',
      [(''id'', ''1''), (''option_id'', ''2''), (''user_id'', ''null''), (''value'', ''"Y"''),
       (''weight'', ''"3.000000"'')]),
     (''assignment_vote'', ''2'',
      [(''id'', ''2''), (''option_id'', ''4''), (''user_id'', ''null''), (''value'', ''"Y"''),
       (''weight'', ''"2.000000"'')]),
     (''assignment_vote'', ''3'',
      [(''id'', ''3''), (''option_id'', ''3''), (''user_id'', ''null''), (''value'', ''"Y"''),
       (''weight'', ''"7.000000"'')]),
     (''assignment_vote'', ''4'',
      [(''id'', ''4''), (''option_id'', ''6''), (''user_id'', ''1''), (''value'', ''"Y"''),
       (''weight'', ''"1.000000"'')])]\<close>

definition exampleData_committee :: table where
  \<open>exampleData_committee =
    [(''committee'', ''1'',
      [(''default_meeting_id'', ''1''), (''description'', ''"Add description here"''),
       (''forward_to_committee_ids'', ''[]''), (''id'', ''1''), (''manager_ids'', ''[]''), (''meeting_ids'', ''[1]''),
       (''member_ids'', ''[]''), (''name'', ''"Default committee"''), (''organisation_id'', ''1''),
       (''receive_forwardings_from_committee_ids'', ''[]'')])]\<close>

definition exampleData_group :: table where
  \<open>exampleData_group =
    [(''group'', ''1'',
      [(''assignment_poll_ids'', ''[]''), (''default_group_for_meeting_id'', ''1''), (''id'', ''1''),
       (''mediafile_access_group_ids'', ''[]''), (''meeting_id'', ''1''), (''motion_poll_ids'', ''[]''),
       (''name'', ''"Default"''),
       (''permissions'', ''[\<newline>            "agenda.can_see",\<newline>            "agenda.can_see_internal_items",\<newline>            "assignments.can_see",\<newline>            "core.can_see_frontpage",\<newline>            "core.can_see_projector",\<newline>            "mediafiles.can_see",\<newline>            "motions.can_see",\<newline>            "users.can_see_name"\<newline>        ]''),
       (''read_comment_section_ids'', ''[]''), (''superadmin_group_for_meeting_id'', ''null''),
       (''used_as_assignment_poll_default_id'', ''null''), (''used_as_motion_poll_default_id'', ''null''),
       (''user_ids'', ''[]''), (''write_comment_section_ids'', ''[]'')]),
     (''group'', ''2'',
      [(''assignment_poll_ids'', ''[3]''), (''default_group_for_meeting_id'', ''null''), (''id'', ''2''),
       (''mediafile_access_group_ids'', ''[1]''), (''mediafile_inherited_access_group_ids'', ''[1, 3]''),
       (''meeting_id'', ''1''), (''motion_poll_ids'', ''[]''), (''name'', ''"Admin"''), (''permissions'', ''[]''),
       (''read_comment_section_ids'', ''[]''), (''superadmin_group_for_meeting_id'', ''1''),
       (''used_as_assignment_poll_default_id'', ''null''), (''used_as_motion_poll_default_id'', ''1''),
       (''user_ids'', ''[1]''), (''write_comment_section_ids'', ''[]'')]),
     (''group'', ''3'',
      [(''assignment_poll_ids'', ''[]''), (''default_group_for_meeting_id'', ''null''), (''id'', ''3''),
       (''mediafile_access_group_ids'', ''[1]''), (''mediafile_inherited_access_group_ids'', ''[1, 3]''),
       (''meeting_id'', ''1''), (''motion_poll_ids'', ''[]''), (''name'', ''"Staff"''),
       (''permissions'', ''[\<newline>            "agenda.can_manage",\<newline>            "agenda.can_see",\<newline>            "agenda.can_see_internal_items",\<newline>            "agenda.can_be_speaker",\<newline>            "assignments.can_manage",\<newline>            "assignments.can_nominate_other",\<newline>            "assignments.can_nominate_self",\<newline>            "assignments.can_see",\<newline>            "core.can_manage_projector",\<newline>            "core.can_see_frontpage",\<newline>            "core.can_see_projector",\<newline>            "core.can_manage_tags",\<newline>            "mediafiles.can_manage",\<newline>            "mediafiles.can_see",\<newline>            "motions.can_create",\<newline>            "motions.can_manage",\<newline>            "motions.can_see",\<newline>            "users.can_manage",\<newline>            "users.can_see_extra_data",\<newline>            "users.can_see_name"\<newline>        ]''),
       (''read_comment_section_ids'', ''[1]''), (''superadmin_group_for_meeting_id'', ''null''),
       (''used_as_assignment_poll_default_id'', ''1''), (''used_as_motion_poll_default_id'', ''1''),
       (''user_ids'', ''[]''), (''write_comment_section_ids'', ''[1]'')]),
     (''group'', ''5'',
      [(''assignment_poll_ids'', ''[]''), (''default_group_for_meeting_id'', ''null''), (''id'', ''5''),
       (''mediafile_access_group_ids'', ''[]''), (''meeting_id'', ''1''), (''motion_poll_ids'', ''[]''),
       (''name'', ''"Committees"''),
       (''permissions'', ''[\<newline>            "agenda.can_see",\<newline>            "agenda.can_see_internal_items",\<newline>            "assignments.can_see",\<newline>            "core.can_see_frontpage",\<newline>            "core.can_see_projector",\<newline>            "mediafiles.can_see",\<newline>            "motions.can_create",\<newline>            "motions.can_see",\<newline>            "motions.can_support",\<newline>            "users.can_see_name"\<newline>        ]''),
       (''read_comment_section_ids'', ''[]''), (''superadmin_group_for_meeting_id'', ''null''),
       (''used_as_assignment_poll_default_id'', ''1''), (''used_as_motion_poll_default_id'', ''null''),
       (''user_ids'', ''[]''), (''write_comment_section_ids'', ''[]'')]),
     (''group'', ''6'',
      [(''assignment_poll_ids'', ''[]''), (''default_group_for_meeting_id'', ''null''), (''id'', ''6''),
       (''mediafile_access_group_ids'', ''[]''), (''meeting_id'', ''1''), (''motion_poll_ids'', ''[]''),
       (''name'', ''"Delegates"''),
       (''permissions'', ''[\<newline>            "agenda.can_see",\<newline>            "agenda.can_see_internal_items",\<newline>            "agenda.can_be_speaker",\<newline>            "assignments.can_nominate_other",\<newline>            "assignments.can_nominate_self",\<newline>            "assignments.can_see",\<newline>            "core.can_see_frontpage",\<newline>            "core.can_see_projector",\<newline>            "mediafiles.can_see",\<newline>            "motions.can_create",\<newline>            "motions.can_manage",\<newline>            "motions.can_see",\<newline>            "motions.can_support",\<newline>            "users.can_see_name"\<newline>        ]''),
       (''read_comment_section_ids'', ''[1]''), (''superadmin_group_for_meeting_id'', ''null''),
       (''used_as_assignment_poll_default_id'', ''null''), (''used_as_motion_poll_default_id'', ''null''),
       (''user_ids'', ''[2]''), (''write_comment_section_ids'', ''[1]'')])]\<close>

definition exampleData_list_of_speakers :: table where
  \<open>exampleData_list_of_speakers =
    [(''list_of_speakers'', ''1'',
      [(''closed'', ''false''), (''content_object_id'', ''"motion/1"''), (''current_projector_ids'', ''[]''),
       (''id'', ''1''), (''meeting_id'', ''1''), (''projection_ids'', ''[]''), (''speaker_ids'', ''[11, 12, 13]'')]),
     (''list_of_speakers'', ''10'',
      [(''closed'', ''false''), (''content_object_id'', ''"topic/8"''), (''current_projector_ids'', ''[]''),
       (''id'', ''10''), (''meeting_id'', ''1''), (''projection_ids'', ''[]''), (''speaker_ids'', ''[]'')]),
     (''list_of_speakers'', ''11'',
      [(''closed'', ''false''), (''content_object_id'', ''"assignment/1"''), (''current_projector_ids'', ''[]''),
       (''id'', ''11''), (''meeting_id'', ''1''), (''projection_ids'', ''[]''), (''speaker_ids'', ''[6, 7, 8]'')]),
     (''list_of_speakers'', ''12'',
      [(''closed'', ''false''), (''content_object_id'', ''"motion/3"''), (''current_projector_ids'', ''[]''),
       (''id'', ''12''), (''meeting_id'', ''1''), (''projection_ids'', ''[]''), (''speaker_ids'', ''[]'')]),
     (''list_of_speakers'', ''13'',
      [(''closed'', ''false''), (''content_object_id'', ''"motion/4"''), (''current_projector_ids'', ''[]''),
       (''id'', ''13''), (''meeting_id'', ''1''), (''projection_ids'', ''[]''), (''speaker_ids'', ''[]'')]),
     (''list_of_speakers'', ''14'',
      [(''closed'', ''false''), (''content_object_id'', ''"assignment/2"''), (''current_projector_ids'', ''[]''),
       (''id'', ''14''), (''meeting_id'', ''1''), (''projection_ids'', ''[]''), (''speaker_ids'', ''[9, 10]'')]),
     (''list_of_speakers'', ''15'',
      [(''closed'', ''false''), (''content_object_id'', ''"motion_block/1"''), (''current_projector_ids'', ''[]''),
       (''id'', ''15''), (''meeting_id'', ''1''), (''projection_ids'', ''[]''), (''speaker_ids'', ''[]'')]),
     (''list_of_speakers'', ''2'',
      [(''closed'', ''false''), (''content_object_id'', ''"motion/2"''), (''current_projector_ids'', ''[]''),
       (''id'', ''2''), (''meeting_id'', ''1''), (''projection_ids'', ''[]''), (''speaker_ids'', ''[]'')]),
     (''list_of_speakers'', ''3'',
      [(''closed'', ''false''), (''content_object_id'', ''"topic/1"''), (''current_projector_ids'', ''[]''),
       (''id'', ''3''), (''meeting_id'', ''1''), (''projection_ids'', ''[]''), (''speaker_ids'', ''[1, 2]'')]),
     (''list_of_speakers'', ''4'',
      [(''closed'', ''false''), (''content_object_id'', ''"topic/2"''), (''current_projector_ids'', ''[]''),
       (''id'', ''4''), (''meeting_id'', ''1''), (''projection_ids'', ''[]''), (''speaker_ids'', ''[]'')]),
     (''list_of_speakers'', ''5'',
      [(''closed'', ''false''), (''content_object_id'', ''"topic/3"''), (''current_projector_ids'', ''[]''),
       (''id'', ''5''), (''meeting_id'', ''1''), (''projection_ids'', ''[]''), (''speaker_ids'', ''[]'')]),
     (''list_of_speakers'', ''6'',
      [(''closed'', ''false''), (''content_object_id'', ''"topic/4"''), (''current_projector_ids'', ''[]''),
       (''id'', ''6''), (''meeting_id'', ''1''), (''projection_ids'', ''[]''), (''speaker_ids'', ''[]'')]),
     (''list_of_speakers'', ''7'',
      [(''closed'', ''false''), (''content_object_id'', ''"topic/5"''), (''current_projector_ids'', ''[]''),
       (''id'', ''7''), (''meeting_id'', ''1''), (''projection_ids'', ''[]''), (''speaker_ids'', ''[3, 4]'')]),
     (''list_of_speakers'', ''8'',
      [(''closed'', ''false''), (''content_object_id'', ''"topic/6"''), (''current_projector_ids'', ''[]''),
       (''id'', ''8''), (''meeting_id'', ''1''), (''projection_ids'', ''[]''), (''speaker_ids'', ''[5]'')]),
     (''list_of_speakers'', ''9'',
      [(''closed'', ''false''), (''content_object_id'', ''"topic/7"''), (''current_projector_ids'', ''[]''),
       (''id'', ''9''), (''meeting_id'', ''1''), (''projection_ids'', ''[]''), (''speaker_ids'', ''[]'')])]\<close>

definition exampleData_mediafile :: table where
  \<open>exampleData_mediafile =
    [(''mediafile'', ''1'',
      [(''access_group_ids'', ''[2, 3]''), (''attachment_ids'', ''[]''), (''child_ids'', ''[3]''),
       (''create_timestamp'', ''1584513763''), (''current_projector_ids'', ''[]''), (''filename'', ''null''),
       (''filesize'', ''null''), (''has_inherited_access_groups'', ''true''), (''id'', ''1''),
       (''inherited_access_group_ids'', ''[2, 3]''), (''is_directory'', ''true''), (''list_of_speakers_id'', ''16''),
       (''meeting_id'', ''1''), (''mimetype'', ''null''), (''parent_id'', ''null''), (''path'', ''"logos/"''),
       (''pdf_information'', ''{}''), (''projection_ids'', ''[]''), (''title'', ''"logos"''),
       (''used_as_font_$_in_meeting'', ''[]''), (''used_as_logo_$_in_meeting'', ''[]'')]),
     (''mediafile'', ''2'',
      [(''access_group_ids'', ''[]''), (''attachment_ids'', ''["motion/4"]''), (''child_ids'', ''[]''),
       (''create_timestamp'', ''1584513771''), (''current_projector_ids'', ''[]''), (''filename'', ''"A.txt"''),
       (''filesize'', ''3''), (''has_inherited_access_groups'', ''false''), (''id'', ''2''),
       (''inherited_access_group_ids'', ''[]''), (''is_directory'', ''false''), (''list_of_speakers_id'', ''17''),
       (''meeting_id'', ''1''), (''mimetype'', ''"text/plain"''), (''parent_id'', ''null''), (''path'', ''"A.txt"''),
       (''pdf_information'', ''{}''), (''projection_ids'', ''[]''), (''title'', ''"A.txt"''),
       (''used_as_font_$_in_meeting'', ''[]''), (''used_as_logo_$_in_meeting'', ''[]'')]),
     (''mediafile'', ''3'',
      [(''access_group_ids'', ''[]''), (''attachment_ids'', ''[]''), (''child_ids'', ''[]''),
       (''create_timestamp'', ''1584513791''), (''current_projector_ids'', ''[]''), (''filename'', ''"in.jpg"''),
       (''filesize'', ''1462''), (''has_inherited_access_groups'', ''true''), (''id'', ''3''),
       (''inherited_access_group_ids'', ''[2, 3]''), (''is_directory'', ''false''), (''list_of_speakers_id'', ''18''),
       (''meeting_id'', ''1''), (''mimetype'', ''"image/png"''), (''parent_id'', ''1''),
       (''path'', ''"logos/in.jpg"''), (''pdf_information'', ''{}''), (''projection_ids'', ''[]''),
       (''title'', ''"in.jpg"''), (''used_as_font_$_in_meeting'', ''[]''),
       (''used_as_logo_$_in_meeting'', ''["web_header"]''), (''used_as_logo_web_header_in_meeting'', ''1'')])]\<close>

definition exampleData_meeting :: table where
  \<open>exampleData_meeting =
    [(''meeting'', ''1'',
      [(''agenda_enable_numbering'', ''true''), (''agenda_item_creation'', ''"default_yes"''),
       (''agenda_item_ids'', ''[1, 2, 3, 4, 5, 6, 7, 8, 9, 10, 11, 12, 13, 14, 15]''),
       (''agenda_new_items_default_visibility'', ''"2"''), (''agenda_number_prefix'', ''""''),
       (''agenda_numeral_system'', ''"arabic"''), (''agenda_show_internal_items_on_projector'', ''false''),
       (''agenda_show_subtitles'', ''false''), (''assignment_ids'', ''[1, 2]''),
       (''assignment_poll_add_candidates_to_list_of_speakers'', ''true''),
       (''assignment_poll_default_100_percent_base'', ''"valid"''),
       (''assignment_poll_default_group_ids'', ''[3, 5]''),
       (''assignment_poll_default_majority_method'', ''"simple"''), (''assignment_poll_default_method'', ''"votes"''),
       (''assignment_poll_default_type'', ''"nominal"''), (''assignment_poll_ids'', ''[1, 2, 3]''),
       (''assignment_poll_sort_poll_result_by_votes'', ''true''), (''assignments_export_preamble'', ''""''),
       (''assignments_export_title'', ''"Elections"''), (''committee_id'', ''1''),
       (''conference_auto_connect'', ''false''), (''conference_los_restriction'', ''false''),
       (''conference_show'', ''false''), (''conference_stream_url'', ''""''), (''custom_translations'', ''[]''),
       (''default_group_id'', ''1''), (''default_meeting_for_committee_id'', ''1''),
       (''description'', ''"Presentation and assembly system"''), (''enable_anonymous'', ''false''),
       (''end_time'', ''0''), (''export_csv_encoding'', ''"utf-8"''), (''export_csv_separator'', ''","''),
       (''export_pdf_fontsize'', ''"10"''), (''export_pdf_pagenumber_alignment'', ''"center"''),
       (''export_pdf_pagesize'', ''"A4"''), (''font_$'', ''[]''), (''group_ids'', ''[1, 2, 3, 5, 6]''),
       (''guest_ids'', ''[3]''), (''id'', ''1''), (''is_template'', ''false''),
       (''list_of_speakers_amount_last_on_projector'', ''1''),
       (''list_of_speakers_amount_next_on_projector'', ''-1''), (''list_of_speakers_couple_countdown'', ''false''),
       (''list_of_speakers_ids'', ''[1, 2, 3, 4, 5, 6, 7, 8, 9, 10, 11, 12, 13, 14, 15]''),
       (''list_of_speakers_present_users_only'', ''false''),
       (''list_of_speakers_show_amount_of_speakers_on_slide'', ''true''),
       (''list_of_speakers_show_first_contribution'', ''false''), (''location'', ''""''),
       (''logo_$'', ''["web_header"]''), (''logo_web_header'', ''3''), (''mediafile_ids'', ''[1, 2, 3]''),
       (''motion_block_ids'', ''[1]''), (''motion_category_ids'', ''[1, 2]''),
       (''motion_comment_section_ids'', ''[1]''), (''motion_ids'', ''[1, 2, 3, 4]''),
       (''motion_poll_ballot_paper_number'', ''8''), (''motion_poll_ballot_paper_selection'', ''"CUSTOM_NUMBER"''),
       (''motion_poll_default_100_percent_base'', ''"YNA"''), (''motion_poll_default_group_ids'', ''[2, 3]''),
       (''motion_poll_default_majority_method'', ''"simple"''), (''motion_poll_default_type'', ''"analog"''),
       (''motion_poll_ids'', ''[1, 2]''), (''motion_statute_paragraph_ids'', ''[]''),
       (''motion_workflow_ids'', ''[1, 2]''), (''motions_amendments_enabled'', ''true''),
       (''motions_amendments_in_main_list'', ''true''), (''motions_amendments_multiple_paragraphs'', ''true''),
       (''motions_amendments_of_amendments'', ''false''), (''motions_amendments_prefix'', ''"-"''),
       (''motions_amendments_text_mode'', ''"freestyle"''), (''motions_default_line_numbering'', ''"none"''),
       (''motions_default_sorting'', ''"number"''), (''motions_default_workflow_id'', ''1''),
       (''motions_enable_reason_on_projector'', ''true''), (''motions_enable_recommendation_on_projector'', ''true''),
       (''motions_enable_sidebox_on_projector'', ''false''), (''motions_enable_text_on_projector'', ''true''),
       (''motions_export_follow_recommendation'', ''false''), (''motions_export_preamble'', ''""''),
       (''motions_export_submitter_recommendation'', ''false''), (''motions_export_title'', ''"Motions"''),
       (''motions_line_length'', ''90''), (''motions_number_min_digits'', ''1''),
       (''motions_number_type'', ''"per_category"''), (''motions_number_with_blank'', ''false''),
       (''motions_preamble'', ''"The assembly may decide:"''), (''motions_reason_required'', ''false''),
       (''motions_recommendation_text_mode'', ''"normal"''), (''motions_recommendations_by'', ''""''),
       (''motions_show_referring_motions'', ''true''), (''motions_show_sequential_numbers'', ''true''),
       (''motions_statute_amendments_workflow_id'', ''2''), (''motions_statute_recommendations_by'', ''""''),
       (''motions_statutes_enabled'', ''true''), (''motions_supporters_autoremove'', ''false''),
       (''motions_supporters_min_amount'', ''1''), (''name'', ''"OpenSlides - Die Veranstaltung (Teil II)"''),
       (''present_user_ids'', ''[1]''), (''projectiondefault_ids'', ''[1, 2, 3, 4, 5, 6, 7, 8, 9, 10, 11, 12, 13]''),
       (''projector_countdown_ids'', ''[1]''), (''projector_countdown_warning_time'', ''0''),
       (''projector_default_countdown_time'', ''60''), (''projector_ids'', ''[1, 2]''),
       (''projector_message_ids'', ''[1]''), (''reference_projector_id'', ''2''), (''start_time'', ''0''),
       (''superadmin_group_id'', ''2''), (''tag_ids'', ''[1, 2, 3]''), (''temorary_user_ids'', ''[]''),
       (''topic_ids'', ''[1, 2, 3, 4, 5, 6, 7, 8]''), (''url_name'', ''"os3_test"''), (''user_ids'', ''[1, 2, 3]''),
       (''users_allow_self_set_present'', ''true''),
       (''users_email_body'', ''"Dear {name},'' @ [CHR 0x5C] @ ''n'' @ [CHR 0x5C] @ ''nthis is your OpenSlides login for the event {event_name}:'' @ [CHR 0x5C] @ ''n'' @ [CHR 0x5C] @ ''n    {url}'' @ [CHR 0x5C] @ ''n    username: {username}'' @ [CHR 0x5C] @ ''n    password: {password}'' @ [CHR 0x5C] @ ''n'' @ [CHR 0x5C] @ ''nThis email was generated automatically."''),
       (''users_email_replyto'', ''""''), (''users_email_sender'', ''"noreply@yourdomain.com"''),
       (''users_email_subject'', ''"Your login for {event_name}"''), (''users_enable_presence_view'', ''true''),
       (''users_enable_vote_weight'', ''true''), (''users_pdf_url'', ''"http://example.com:8000"''),
       (''users_pdf_welcometext'', ''"[Place for your welcome and help text.]"''),
       (''users_pdf_welcometitle'', ''"Welcome to OpenSlides"''), (''users_pdf_wlan_encryption'', ''""''),
       (''users_pdf_wlan_password'', ''""''), (''users_pdf_wlan_ssid'', ''""''),
       (''users_sort_by'', ''"first_name"''), (''welcome_text'', ''"[Space for your welcome text.]"''),
       (''welcome_title'', ''"Welcome to OpenSlides"'')])]\<close>

definition exampleData_motion_1 :: table where
  \<open>exampleData_motion_1 =
    [(''motion'', ''1'',
      [(''agenda_item_id'', ''1''), (''amendment_ids'', ''[2]''), (''amendment_paragraph_$'', ''[]''),
       (''attachment_ids'', ''[]''), (''block_id'', ''null''), (''category_id'', ''2''),
       (''category_weight'', ''10000''), (''change_recommendation_ids'', ''[]''), (''comment_ids'', ''[1]''),
       (''created'', ''1584512346''), (''current_projector_ids'', ''[]''), (''derived_motion_ids'', ''[]''),
       (''forwarding_tree_motion_ids'', ''[]''), (''id'', ''1''), (''last_modified'', ''1584512346''),
       (''lead_motion_id'', ''null''), (''list_of_speakers_id'', ''1''), (''meeting_id'', ''1''),
       (''modified_final_version'', ''"<p>Lorem ipsum dolor sit amet, consectetuer adipiscing elit. Aenean commodo ligula eget dolor. Aenean massa. Cum sociis, pellentesque eu, pretium quis, sem. Nulla consequat massa quis enim. Donec pede justo, fringilla vel, aliquet nec, vulputate eget, arcu. In enim justo, rhoncus ut, imperdiet a, venenatis vitae, justo. Nullam dictum felis eu pede mollis pretium. Integer tincidunt. Cras dapibus. Vivamus elementum semper nisi.Aenean vulputate eleifend tellus. Aenean leo ligula, porttitor eu, consequat vitae, eleifend ac, enim. Aliquam lorem ante, dapibus in, viverra quis, feugiat a, tellus. Phasellus viverra nulla ut metus varius laoreet. Quisque rutrum. Aenean imperdiet. Etiam ultricies nisi vel augue. Curabitur ullamcorper ultricies nisi. Nam eget dui. Etiam rhoncus. Maecenas tempus, tellus eget condimentum rhoncus, sem quam semper libero, sit amet adipiscing sem neque sed ipsum. Nam quam nunc, blandit vel, luctus pulvinar, hendrerit id, lorem.Maecenas nec odio et ante tincidunt tempus. Donec vitae sapien ut libero venenatis faucibus. Nullam quis ante. Etiam sit amet orci eget eros faucibus tincidunt. Duis leo. Sed fringilla mauris sit amet nibh. Donec sodales sagittis magna. Sed consequat, leo eget bibendum sodales, augue velit cursus nunc, quis gravida magna mi a libero. Fusce vulputate eleifend sapien. Vestibulum purus quam, scelerisque ut, mollis sed, nonummy id, metus. Nullam accumsan lorem in dui. Cras ultricies mi eu turpis hendrerit fringilla. Vestibulum ante ipsum primis in faucibus orci luctus et ultrices posuere cubilia Curae; In ac dui quis mi consectetuer lacinia. Nam pretium turpis et arcu. Duis arcu tortor, suscipit eget, imperdiet nec, imperdiet iaculis, ipsum. Sed aliquam ultrices mauris. Integer ante arcu, accumsan a, consectetuer eget, posuere ut, mauris. Praesent adipiscing. Phasellus ullamcorper ipsum rutrum nunc. Nunc nonummy metus. Vestibulum volutpat pretium libero. Cras id dui. Aenean ut</p>"''),
       (''number'', ''"A1"''), (''origin_id'', ''null''), (''personal_note_ids'', ''[]''), (''poll_ids'', ''[1, 2]''),
       (''projection_ids'', ''[]''), (''reason'', ''""''), (''recommendation_extension'', ''null''),
       (''recommendation_extension_reference_ids'', ''[]''), (''recommendation_id'', ''null''),
       (''referenced_in_motion_recommendation_extension_ids'', ''[]''), (''sequential_number'', ''1''),
       (''sort_child_ids'', ''[]''), (''sort_parent_id'', ''null''), (''sort_weight'', ''10000''),
       (''state_extension'', ''null''), (''state_id'', ''1''), (''statute_paragraph_id'', ''null''),
       (''submitter_ids'', ''[1]''), (''supporter_ids'', ''[]''), (''tag_ids'', ''[]''),
       (''text'', ''"<ul>'' @ [CHR 0x5C] @ ''n<li>Lorem ipsum dolor sit amet, consectetuer adipiscing elit. Aenean commodo ligula eget dolor. Aenean massa. Cum sociis natoque</li>'' @ [CHR 0x5C] @ ''n<li>penatibus et magnis dis parturient montes, nascetur ridiculus mus. Donec quam felis, ultricies nec, pellentesque eu, pretium quis, sem. Nulla consequat ma</li>'' @ [CHR 0x5C] @ ''n<li>ssa quis enim. Donec pede justo, fringilla vel, aliquet nec, vulputate eget, arcu. In enim justo, rhoncus ut, imperdiet a, vene<br>'' @ [CHR 0x5C] @ ''n<br>'' @ [CHR 0x5C] @ ''nnatis vitae, justo. Null<br>'' @ [CHR 0x5C] @ ''nam dictum felis eu pede mollis pretium. Integer tincidunt. Cras dapibus. Vivamus elementum semper nisi.Aenean vulputate eleifend tellus. Aenean leo ligula, porttitor eu, consequat vitae, eleifend ac, enim. Aliquam lorem ante, dapibu</li>'' @ [CHR 0x5C] @ ''n<li>s in, viverra quis, feugiat a, tellus. Phasellus viverra nulla ut metus varius laoreet. Quisque rutrum. Aenean imperdiet. Etiam ultricies nisi vel augue. Curabitur ullamcorper ultricies nisi. Nam eget dui. Etiam rhoncus. Maecenas tempus, tellus eget condimentum rhoncus, sem quam semper libero, sit amet adipiscing sem neque sed ipsum. Nam quam nunc, blandit vel, luctus pulvinar, hendrerit id, lorem.Maecenas nec odio et ante tincidunt tempus. Donec vitae sapien ut libero venenatis faucibus. Nullam quis ante. Etiam sit amet orci eget eros faucibus tincidunt. Duis leo. Sed fringilla mauris sit amet nibh. Donec sodales sagittis magna. Sed consequat, leo eget bibendum sodales, augue velit cursus nunc, quis gravida magna mi a libero. Fusce vulputate eleifend sapien. Vestibulum purus quam, scelerisque ut, mollis sed, nonummy id, metus. Nullam accumsan lorem in dui. Cras ultricies mi eu turpis hendrerit fringilla. Vestibulum ante ipsum primis in faucibus orci luctus et ultrices posuere cubilia Curae; In ac dui quis mi consectetuer lacinia. Nam pretium turpis et arcu. Duis arcu tortor, suscipit eget, imperdiet nec, imperdiet iaculis, ipsum. Sed aliquam ultrices mauris. Integer ante arcu, accumsan a, consectetuer eget, posuere ut, mauris. Praesent adipiscing. Phasellus ullamcorper ipsum rutrum nunc. Nunc nonummy metus. Vestibulum volutpat pretium libero. Cras id dui. Aenean ut</li>'' @ [CHR 0x5C] @ ''n</ul>"''),
       (''title'', ''"test"'')]),
     (''motion'', ''2'',
      [(''agenda_item_id'', ''2''), (''amendment_ids'', ''[]''), (''amendment_paragraph_$'', ''[]''),
       (''attachment_ids'', ''[]''), (''block_id'', ''null''), (''category_id'', ''1''),
       (''category_weight'', ''10000''), (''change_recommendation_ids'', ''[]''), (''comment_ids'', ''[]''),
       (''created'', ''1584512346''), (''current_projector_ids'', ''[]''), (''derived_motion_ids'', ''[]''),
       (''forwarding_tree_motion_ids'', ''[]''), (''id'', ''2''), (''last_modified'', ''1584512346''),
       (''lead_motion_id'', ''1''), (''list_of_speakers_id'', ''2''), (''meeting_id'', ''1''),
       (''modified_final_version'', ''""''), (''number'', ''"1 - 1"''), (''origin_id'', ''null''),
       (''personal_note_ids'', ''[]''), (''poll_ids'', ''[]''), (''projection_ids'', ''[]''), (''reason'', ''""''),
       (''recommendation_extension'', ''null''), (''recommendation_extension_reference_ids'', ''[]''),
       (''recommendation_id'', ''null''), (''referenced_in_motion_recommendation_extension_ids'', ''[]''),
       (''sequential_number'', ''2''), (''sort_child_ids'', ''[]''), (''sort_parent_id'', ''null''),
       (''sort_weight'', ''10000''), (''state_extension'', ''"<p>regeer</p>"''), (''state_id'', ''1''),
       (''statute_paragraph_id'', ''null''), (''submitter_ids'', ''[2]''), (''supporter_ids'', ''[]''),
       (''tag_ids'', ''[1, 3]''), (''text'', ''"<p>l&ouml;mk</p>"''),
       (''title'', ''"'' @ [CHR 0xC3] @ [CHR 0x84] @ ''nderungsantrag zu 1"'')]),
     (''motion'', ''3'',
      [(''agenda_item_id'', ''12''), (''amendment_ids'', ''[]''), (''amendment_paragraph_$'', ''[]''),
       (''attachment_ids'', ''[]''), (''block_id'', ''1''), (''category_id'', ''2''), (''category_weight'', ''100''),
       (''change_recommendation_ids'', ''[5]''), (''comment_ids'', ''[]''), (''created'', ''1584512346''),
       (''current_projector_ids'', ''[]''), (''derived_motion_ids'', ''[]''),
       (''forwarding_tree_motion_ids'', ''[]''), (''id'', ''3''), (''last_modified'', ''1584512346''),
       (''lead_motion_id'', ''null''), (''list_of_speakers_id'', ''12''), (''meeting_id'', ''1''),
       (''modified_final_version'', ''""''), (''number'', ''"2"''), (''origin_id'', ''null''),
       (''personal_note_ids'', ''[]''), (''poll_ids'', ''[]''), (''projection_ids'', ''[]''), (''reason'', ''""''),
       (''recommendation_extension'', ''null''), (''recommendation_extension_reference_ids'', ''[]''),
       (''recommendation_id'', ''null''), (''referenced_in_motion_recommendation_extension_ids'', ''[]''),
       (''sequential_number'', ''3''), (''sort_child_ids'', ''[]''), (''sort_parent_id'', ''null''),
       (''sort_weight'', ''10000''), (''state_extension'', ''null''), (''state_id'', ''1''),
       (''statute_paragraph_id'', ''null''), (''submitter_ids'', ''[3]''), (''supporter_ids'', ''[3]''),
       (''tag_ids'', ''[3]''), (''text'', ''"<p>sf</p>"''), (''title'', ''"ohne"'')])]\<close>

definition exampleData_motion_2 :: table where
  \<open>exampleData_motion_2 =
    [(''motion'', ''4'',
      [(''agenda_item_id'', ''13''), (''amendment_ids'', ''[]''), (''amendment_paragraph_$'', ''[]''),
       (''attachment_ids'', ''[2]''), (''block_id'', ''1''), (''category_id'', ''null''),
       (''category_weight'', ''10000''), (''change_recommendation_ids'', ''[4]''), (''comments'', ''[]''),
       (''created'', ''1584512346''), (''current_projector_ids'', ''[]''), (''derived_motion_ids'', ''[]''),
       (''forwarding_tree_motion_ids'', ''[]''), (''id'', ''4''), (''last_modified'', ''1584512346''),
       (''lead_motion_id'', ''null''), (''list_of_speakers_id'', ''13''), (''meeting_id'', ''1''),
       (''modified_final_version'', ''""''), (''number'', ''"3"''), (''origin_id'', ''null''),
       (''personal_note_ids'', ''[]''), (''poll_ids'', ''[]''), (''projection_ids'', ''[2]''), (''reason'', ''""''),
       (''recommendation_extension'', ''null''), (''recommendation_extension_reference_ids'', ''[]''),
       (''recommendation_id'', ''null''), (''referenced_in_motion_recommendation_extension_ids'', ''[]''),
       (''sequential_number'', ''4''), (''sort_child_ids'', ''[]''), (''sort_parent_id'', ''null''),
       (''sort_weight'', ''10000''), (''state_extension'', ''null''), (''state_id'', ''6''),
       (''statute_paragraph_id'', ''null''), (''submitter_ids'', ''[4]''), (''supporter_ids'', ''[]''),
       (''tag_ids'', ''[]''),
       (''text'', ''"<p>sdf sdfpdfkw wef</p>'' @ [CHR 0x5C] @ ''n'' @ [CHR 0x5C] @ ''n<p>wepkf&nbsp;</p>'' @ [CHR 0x5C] @ ''n'' @ [CHR 0x5C] @ ''n<p>we&uuml;pfk&nbsp;</p>'' @ [CHR 0x5C] @ ''n'' @ [CHR 0x5C] @ ''n<p>we&uuml;pfdfg</p>"''),
       (''title'', ''"komplex"'')])]\<close>

definition exampleData_motion_block :: table where
  \<open>exampleData_motion_block =
    [(''motion_block'', ''1'',
      [(''agenda_item_id'', ''15''), (''current_projector_ids'', ''[]''), (''id'', ''1''), (''internal'', ''false''),
       (''list_of_speakers_id'', ''15''), (''meeting_id'', ''1''), (''motion_ids'', ''[3, 4]''),
       (''projection_ids'', ''[1]''), (''title'', ''"BLOCK A"'')])]\<close>

definition exampleData_motion_category :: table where
  \<open>exampleData_motion_category =
    [(''motion_category'', ''1'',
      [(''child_ids'', ''[2]''), (''id'', ''1''), (''level'', ''0''), (''meeting_id'', ''1''),
       (''motion_ids'', ''[2]''), (''name'', ''"Cad"''), (''parent_id'', ''null''), (''prefix'', ''"C"''),
       (''weight'', ''2'')]),
     (''motion_category'', ''2'',
      [(''child_ids'', ''[]''), (''id'', ''2''), (''level'', ''1''), (''meeting_id'', ''1''),
       (''motion_ids'', ''[1, 3]''), (''name'', ''"Bildung"''), (''parent_id'', ''1''), (''prefix'', ''"B"''),
       (''weight'', ''4'')])]\<close>

definition exampleData_motion_change_recommendation :: table where
  \<open>exampleData_motion_change_recommendation =
    [(''motion_change_recommendation'', ''4'',
      [(''creation_time'', ''1584512345''), (''id'', ''4''), (''internal'', ''false''), (''line_from'', ''1''),
       (''line_to'', ''2''), (''motion_id'', ''4''), (''other_description'', ''""''), (''rejected'', ''false''),
       (''text'', ''"<p>sdf sdfpef</p>"''), (''type'', ''2'')]),
     (''motion_change_recommendation'', ''5'',
      [(''creation_time'', ''1584512667''), (''id'', ''5''), (''internal'', ''false''), (''line_from'', ''1''),
       (''line_to'', ''2''), (''motion_id'', ''3''), (''other_description'', ''""''), (''rejected'', ''false''),
       (''text'', ''"<p>skp</p>"''), (''type'', ''0'')])]\<close>

definition exampleData_motion_comment :: table where
  \<open>exampleData_motion_comment =
    [(''motion_comment'', ''1'',
      [(''comment'', ''"<p>sgsdklf jhs&ouml;lkf sd&ouml;lkdsf jglkfd</p>"''), (''id'', ''1''), (''motion_id'', ''1''),
       (''section_id'', ''1'')])]\<close>

definition exampleData_motion_comment_section :: table where
  \<open>exampleData_motion_comment_section =
    [(''motion_comment_section'', ''1'',
      [(''comment_ids'', ''[1]''), (''id'', ''1''), (''meeting_id'', ''1''), (''name'', ''"Neu"''),
       (''read_group_ids'', ''[3, 6]''), (''weight'', ''10000''), (''write_group_ids'', ''[3, 6]'')])]\<close>

definition exampleData_motion_option :: table where
  \<open>exampleData_motion_option =
    [(''motion_option'', ''1'',
      [(''abstain'', ''"1.000000"''), (''id'', ''1''), (''no'', ''"4.000000"''), (''poll_id'', ''1''),
       (''vote_ids'', ''[1, 2, 3]''), (''yes'', ''"2.000000"'')]),
     (''motion_option'', ''2'',
      [(''abstain'', ''"0.000000"''), (''id'', ''2''), (''no'', ''"0.000000"''), (''poll_id'', ''2''),
       (''vote_ids'', ''[]''), (''yes'', ''"0.000000"'')])]\<close>

definition exampleData_motion_poll :: table where
  \<open>exampleData_motion_poll =
    [(''motion_poll'', ''1'',
      [(''current_projector_ids'', ''[]''), (''entitled_group_ids'', ''[]''), (''id'', ''1''),
       (''majority_method'', ''"simple"''), (''meeting_id'', ''1''), (''motion_id'', ''1''),
       (''onehundred_percent_base'', ''"YNA"''), (''option_ids'', ''[1]''), (''pollmethod'', ''"YNA"''),
       (''projection_ids'', ''[]''), (''state'', ''3''), (''title'', ''"1"''), (''type'', ''"analog"''),
       (''user_has_voted'', ''false''), (''voted_ids'', ''[]''), (''votescast'', ''"2.000000"''),
       (''votesinvalid'', ''"9.000000"''), (''votesvalid'', ''"2.000000"'')]),
     (''motion_poll'', ''2'',
      [(''current_projector_ids'', ''[]''), (''entitled_group_ids'', ''[]''), (''id'', ''2''),
       (''majority_method'', ''"simple"''), (''meeting_id'', ''1''), (''motion_id'', ''1''),
       (''onehundred_percent_base'', ''"YNA"''), (''option_ids'', ''[2]''), (''pollmethod'', ''"YNA"''),
       (''projection_ids'', ''[]''), (''state'', ''1''), (''title'', ''"2"''), (''type'', ''"analog"''),
       (''user_has_voted'', ''false''), (''voted_ids'', ''[]''), (''votescast'', ''null''),
       (''votesinvalid'', ''null''), (''votesvalid'', ''null'')])]\<close>

definition exampleData_motion_state_1 :: table where
  \<open>exampleData_motion_state_1 =
    [(''motion_state'', ''1'',
      [(''allow_create_poll'', ''true''), (''allow_submitter_edit'', ''true''), (''allow_support'', ''true''),
       (''css_class'', ''"lightblue"''), (''first_state_of_workflow_id'', ''1''), (''id'', ''1''),
       (''merge_amendment_into_final'', ''0''), (''motion_ids'', ''[1, 2, 3]''),
       (''motion_recommendation_ids'', ''[]''), (''name'', ''"submitted"''), (''next_state_ids'', ''[2, 3, 4]''),
       (''previous_state_ids'', ''[]''), (''recommendation_label'', ''null''), (''restriction'', ''[]''),
       (''set_number'', ''true''), (''show_recommendation_extension_field'', ''false''),
       (''show_state_extension_field'', ''false''), (''workflow_id'', ''1'')]),
     (''motion_state'', ''10'',
      [(''allow_create_poll'', ''false''), (''allow_submitter_edit'', ''false''), (''allow_support'', ''false''),
       (''css_class'', ''"grey"''), (''first_state_of_workflow_id'', ''null''), (''id'', ''10''),
       (''merge_amendment_into_final'', ''0''), (''motion_ids'', ''[]''), (''motion_recommendation_ids'', ''[]''),
       (''name'', ''"adjourned"''), (''next_state_ids'', ''[]''), (''previous_state_ids'', ''[6]''),
       (''recommendation_label'', ''"Adjournment"''), (''restriction'', ''[]''), (''set_number'', ''true''),
       (''show_recommendation_extension_field'', ''false''), (''show_state_extension_field'', ''false''),
       (''workflow_id'', ''2'')]),
     (''motion_state'', ''11'',
      [(''allow_create_poll'', ''false''), (''allow_submitter_edit'', ''false''), (''allow_support'', ''false''),
       (''css_class'', ''"grey"''), (''first_state_of_workflow_id'', ''null''), (''id'', ''11''),
       (''merge_amendment_into_final'', ''0''), (''motion_ids'', ''[]''), (''motion_recommendation_ids'', ''[]''),
       (''name'', ''"not concerned"''), (''next_state_ids'', ''[]''), (''previous_state_ids'', ''[6]''),
       (''recommendation_label'', ''"No concernment"''), (''restriction'', ''[]''), (''set_number'', ''true''),
       (''show_recommendation_extension_field'', ''false''), (''show_state_extension_field'', ''false''),
       (''workflow_id'', ''2'')]),
     (''motion_state'', ''12'',
      [(''allow_create_poll'', ''false''), (''allow_submitter_edit'', ''false''), (''allow_support'', ''false''),
       (''css_class'', ''"grey"''), (''first_state_of_workflow_id'', ''null''), (''id'', ''12''),
       (''merge_amendment_into_final'', ''0''), (''motion_ids'', ''[]''), (''motion_recommendation_ids'', ''[]''),
       (''name'', ''"refered to committee"''), (''next_state_ids'', ''[]''), (''previous_state_ids'', ''[6]''),
       (''recommendation_label'', ''"Referral to committee"''), (''restriction'', ''[]''), (''set_number'', ''true''),
       (''show_recommendation_extension_field'', ''false''), (''show_state_extension_field'', ''false''),
       (''workflow_id'', ''2'')]),
     (''motion_state'', ''13'',
      [(''allow_create_poll'', ''false''), (''allow_submitter_edit'', ''false''), (''allow_support'', ''false''),
       (''css_class'', ''"grey"''), (''first_state_of_workflow_id'', ''null''), (''id'', ''13''),
       (''merge_amendment_into_final'', ''0''), (''motion_ids'', ''[]''), (''motion_recommendation_ids'', ''[]''),
       (''name'', ''"needs review"''), (''next_state_ids'', ''[]''), (''previous_state_ids'', ''[6]''),
       (''recommendation_label'', ''null''), (''restriction'', ''[]''), (''set_number'', ''true''),
       (''show_recommendation_extension_field'', ''false''), (''show_state_extension_field'', ''false''),
       (''workflow_id'', ''2'')]),
     (''motion_state'', ''14'',
      [(''allow_create_poll'', ''false''), (''allow_submitter_edit'', ''false''), (''allow_support'', ''false''),
       (''css_class'', ''"grey"''), (''first_state_of_workflow_id'', ''null''), (''id'', ''14''),
       (''merge_amendment_into_final'', ''0''), (''motion_ids'', ''[]''), (''motion_recommendation_ids'', ''[]''),
       (''name'', ''"rejected (not authorized)"''), (''next_state_ids'', ''[]''), (''previous_state_ids'', ''[5]''),
       (''recommendation_label'', ''"Rejection (not authorized)"''), (''restriction'', ''[]''),
       (''set_number'', ''true''), (''show_recommendation_extension_field'', ''false''),
       (''show_state_extension_field'', ''false''), (''workflow_id'', ''2'')]),
     (''motion_state'', ''2'',
      [(''allow_create_poll'', ''false''), (''allow_submitter_edit'', ''false''), (''allow_support'', ''false''),
       (''css_class'', ''"green"''), (''first_state_of_workflow_id'', ''null''), (''id'', ''2''),
       (''merge_amendment_into_final'', ''0''), (''motion_ids'', ''[]''), (''motion_recommendation_ids'', ''[]''),
       (''name'', ''"accepted"''), (''next_state_ids'', ''[]''), (''previous_state_ids'', ''[1]''),
       (''recommendation_label'', ''"Acceptance"''), (''restriction'', ''[]''), (''set_number'', ''true''),
       (''show_recommendation_extension_field'', ''false''), (''show_state_extension_field'', ''false''),
       (''workflow_id'', ''1'')])]\<close>

definition exampleData_motion_state_2 :: table where
  \<open>exampleData_motion_state_2 =
    [(''motion_state'', ''3'',
      [(''allow_create_poll'', ''false''), (''allow_submitter_edit'', ''false''), (''allow_support'', ''false''),
       (''css_class'', ''"red"''), (''first_state_of_workflow_id'', ''null''), (''id'', ''3''),
       (''merge_amendment_into_final'', ''0''), (''motion_ids'', ''[]''), (''motion_recommendation_ids'', ''[]''),
       (''name'', ''"rejected"''), (''next_state_ids'', ''[]''), (''previous_state_ids'', ''[1]''),
       (''recommendation_label'', ''"Rejection"''), (''restriction'', ''[]''), (''set_number'', ''true''),
       (''show_recommendation_extension_field'', ''false''), (''show_state_extension_field'', ''false''),
       (''workflow_id'', ''1'')]),
     (''motion_state'', ''4'',
      [(''allow_create_poll'', ''false''), (''allow_submitter_edit'', ''false''), (''allow_support'', ''false''),
       (''css_class'', ''"grey"''), (''first_state_of_workflow_id'', ''null''), (''id'', ''4''),
       (''merge_amendment_into_final'', ''0''), (''motion_ids'', ''[]''), (''motion_recommendation_ids'', ''[]''),
       (''name'', ''"not decided"''), (''next_state_ids'', ''[]''), (''previous_state_ids'', ''[1]''),
       (''recommendation_label'', ''"No decision"''), (''restriction'', ''[]''), (''set_number'', ''true''),
       (''show_recommendation_extension_field'', ''false''), (''show_state_extension_field'', ''false''),
       (''workflow_id'', ''1'')]),
     (''motion_state'', ''5'',
      [(''allow_create_poll'', ''false''), (''allow_submitter_edit'', ''true''), (''allow_support'', ''true''),
       (''css_class'', ''"lightblue"''), (''first_state_of_workflow_id'', ''2''), (''id'', ''5''),
       (''merge_amendment_into_final'', ''0''), (''motion_ids'', ''[]''), (''motion_recommendation_ids'', ''[]''),
       (''name'', ''"published"''), (''next_state_ids'', ''[6, 9, 14]''), (''previous_state_ids'', ''[]''),
       (''recommendation_label'', ''null''), (''restriction'', ''[]''), (''set_number'', ''false''),
       (''show_recommendation_extension_field'', ''false''), (''show_state_extension_field'', ''false''),
       (''workflow_id'', ''2'')]),
     (''motion_state'', ''6'',
      [(''allow_create_poll'', ''true''), (''allow_submitter_edit'', ''true''), (''allow_support'', ''false''),
       (''css_class'', ''"lightblue"''), (''first_state_of_workflow_id'', ''null''), (''id'', ''6''),
       (''merge_amendment_into_final'', ''0''), (''motion_ids'', ''[4]''), (''motion_recommendation_ids'', ''[]''),
       (''name'', ''"permitted"''), (''next_state_ids'', ''[7, 8, 9, 10, 11, 12, 13]''),
       (''previous_state_ids'', ''[5]''), (''recommendation_label'', ''"Permission"''), (''restriction'', ''[]''),
       (''set_number'', ''true''), (''show_recommendation_extension_field'', ''false''),
       (''show_state_extension_field'', ''false''), (''workflow_id'', ''2'')]),
     (''motion_state'', ''7'',
      [(''allow_create_poll'', ''false''), (''allow_submitter_edit'', ''false''), (''allow_support'', ''false''),
       (''css_class'', ''"green"''), (''first_state_of_workflow_id'', ''null''), (''id'', ''7''),
       (''merge_amendment_into_final'', ''0''), (''motion_ids'', ''[]''), (''motion_recommendation_ids'', ''[]''),
       (''name'', ''"accepted"''), (''next_state_ids'', ''[]''), (''previous_state_ids'', ''[6]''),
       (''recommendation_label'', ''"Acceptance"''), (''restriction'', ''[]''), (''set_number'', ''true''),
       (''show_recommendation_extension_field'', ''false''), (''show_state_extension_field'', ''false''),
       (''workflow_id'', ''2'')]),
     (''motion_state'', ''8'',
      [(''allow_create_poll'', ''false''), (''allow_submitter_edit'', ''false''), (''allow_support'', ''false''),
       (''css_class'', ''"red"''), (''first_state_of_workflow_id'', ''null''), (''id'', ''8''),
       (''merge_amendment_into_final'', ''0''), (''motion_ids'', ''[]''), (''motion_recommendation_ids'', ''[]''),
       (''name'', ''"rejected"''), (''next_state_ids'', ''[]''), (''previous_state_ids'', ''[6]''),
       (''recommendation_label'', ''"Rejection"''), (''restriction'', ''[]''), (''set_number'', ''true''),
       (''show_recommendation_extension_field'', ''false''), (''show_state_extension_field'', ''false''),
       (''workflow_id'', ''2'')]),
     (''motion_state'', ''9'',
      [(''allow_create_poll'', ''false''), (''allow_submitter_edit'', ''false''), (''allow_support'', ''false''),
       (''css_class'', ''"grey"''), (''first_state_of_workflow_id'', ''null''), (''id'', ''9''),
       (''merge_amendment_into_final'', ''0''), (''motion_ids'', ''[]''), (''motion_recommendation_ids'', ''[]''),
       (''name'', ''"withdrawed"''), (''next_state_ids'', ''[]''), (''previous_state_ids'', ''[5, 6]''),
       (''recommendation_label'', ''null''), (''restriction'', ''[]''), (''set_number'', ''true''),
       (''show_recommendation_extension_field'', ''false''), (''show_state_extension_field'', ''false''),
       (''workflow_id'', ''2'')])]\<close>

definition exampleData_motion_submitter :: table where
  \<open>exampleData_motion_submitter =
    [(''motion_submitter'', ''1'',
      [(''id'', ''1''), (''motion_id'', ''1''), (''user_id'', ''1''), (''weight'', ''1'')]),
     (''motion_submitter'', ''2'',
      [(''id'', ''2''), (''motion_id'', ''2''), (''user_id'', ''1''), (''weight'', ''1'')]),
     (''motion_submitter'', ''3'',
      [(''id'', ''3''), (''motion_id'', ''3''), (''user_id'', ''1''), (''weight'', ''1'')]),
     (''motion_submitter'', ''4'',
      [(''id'', ''4''), (''motion_id'', ''4''), (''user_id'', ''1''), (''weight'', ''1'')])]\<close>

definition exampleData_motion_vote :: table where
  \<open>exampleData_motion_vote =
    [(''motion_vote'', ''1'',
      [(''id'', ''1''), (''option_id'', ''1''), (''user_id'', ''null''), (''value'', ''"Y"''),
       (''weight'', ''"2.000000"'')]),
     (''motion_vote'', ''2'',
      [(''id'', ''2''), (''option_id'', ''1''), (''user_id'', ''null''), (''value'', ''"N"''),
       (''weight'', ''"4.000000"'')]),
     (''motion_vote'', ''3'',
      [(''id'', ''3''), (''option_id'', ''1''), (''user_id'', ''null''), (''value'', ''"A"''),
       (''weight'', ''"1.000000"'')])]\<close>

definition exampleData_motion_workflow :: table where
  \<open>exampleData_motion_workflow =
    [(''motion_workflow'', ''1'',
      [(''default_statute_amendments_meeting_id'', ''null''), (''default_workflow_meeting_id'', ''1''),
       (''first_state_id'', ''1''), (''id'', ''1''), (''meeting_id'', ''1''), (''name'', ''"Simple Workflow"''),
       (''state_ids'', ''[1, 2, 3, 4]'')]),
     (''motion_workflow'', ''2'',
      [(''default_statute_amendments_meeting_id'', ''1''), (''default_workflow_meeting_id'', ''null''),
       (''first_state_id'', ''5''), (''id'', ''2''), (''meeting_id'', ''1''), (''name'', ''"Complex Workflow"''),
       (''state_ids'', ''[5, 6, 7, 8, 9, 10, 11, 12, 13, 14]'')])]\<close>

definition exampleData_organisation :: table where
  \<open>exampleData_organisation =
    [(''organisation'', ''1'',
      [(''committee_ids'', ''[1]''), (''custom_translations'', ''[]''), (''id'', ''1''),
       (''legal_notice'', ''"<a href='' @ [CHR 0x5C] @ ''"http://www.openslides.org'' @ [CHR 0x5C] @ ''">OpenSlides</a> is a free web based presentation and assembly system for visualizing and controlling agenda, motions and elections of an assembly."''),
       (''login_info_text'', ''"Guten Morgen!"''), (''openslides_theme'', ''"openslides-theme"''),
       (''privacy_policy'', ''""''), (''resource_ids'', ''[]''), (''role_ids'', ''[1]''),
       (''superadmin_role_id'', ''1'')])]\<close>

definition exampleData_personal_note :: table where
  \<open>exampleData_personal_note =
    [(''personal_note'', ''1'',
      [(''content_object_id'', ''"motion/2"''), (''id'', ''1''), (''note'', ''"<p>Some content..</p>"''),
       (''star'', ''false''), (''user_id'', ''1'')])]\<close>

definition exampleData_projection :: table where
  \<open>exampleData_projection =
    [(''projection'', ''1'',
      [(''current_projector_id'', ''null''), (''element_id'', ''"motion_block/1"''),
       (''history_projector_id'', ''null''), (''id'', ''1''), (''options'', ''{}''), (''preview_projector_id'', ''1'')]),
     (''projection'', ''2'',
      [(''current_projector_id'', ''null''), (''element_id'', ''"motion/4"''),
       (''history_projector_history_id'', ''null''), (''id'', ''2''),
       (''options'', ''{\<newline>            "mode": "diff"\<newline>        }''), (''preview_projector_id'', ''1'')]),
     (''projection'', ''4'',
      [(''current_projector_id'', ''1''), (''element_id'', ''"assignment/1"''), (''history_projector_id'', ''null''),
       (''id'', ''4''), (''options'', ''{}''), (''preview_projector_id'', ''null'')]),
     (''projection'', ''6'',
      [(''current_projector_id'', ''1''), (''element_id'', ''"clock/1"''), (''history_projector_id'', ''null''),
       (''id'', ''6''), (''options'', ''{\<newline>            "stable": true\<newline>        }''),
       (''preview_projector_id'', ''null'')])]\<close>

definition exampleData_projectiondefault :: table where
  \<open>exampleData_projectiondefault =
    [(''projectiondefault'', ''1'',
      [(''display_name'', ''"Agenda"''), (''id'', ''1''), (''meeting_id'', ''1''), (''name'', ''"agenda_all_items"''),
       (''projector_id'', ''1'')]),
     (''projectiondefault'', ''10'',
      [(''display_name'', ''"Messages"''), (''id'', ''10''), (''meeting_id'', ''1''), (''name'', ''"messages"''),
       (''projector_id'', ''1'')]),
     (''projectiondefault'', ''11'',
      [(''display_name'', ''"Countdowns"''), (''id'', ''11''), (''meeting_id'', ''1''), (''name'', ''"countdowns"''),
       (''projector_id'', ''1'')]),
     (''projectiondefault'', ''12'',
      [(''display_name'', ''"Assignment poll"''), (''id'', ''12''), (''meeting_id'', ''1''),
       (''name'', ''"assignment_poll"''), (''projector_id'', ''1'')]),
     (''projectiondefault'', ''13'',
      [(''display_name'', ''"Motion Poll"''), (''id'', ''13''), (''meeting_id'', ''1''),
       (''name'', ''"motion_poll"''), (''projector_id'', ''1'')]),
     (''projectiondefault'', ''2'',
      [(''display_name'', ''"Topics"''), (''id'', ''2''), (''meeting_id'', ''1''), (''name'', ''"topics"''),
       (''projector_id'', ''2'')]),
     (''projectiondefault'', ''3'',
      [(''display_name'', ''"List of speakers"''), (''id'', ''3''), (''meeting_id'', ''1''),
       (''name'', ''"agenda_list_of_speakers"''), (''projector_id'', ''2'')]),
     (''projectiondefault'', ''4'',
      [(''display_name'', ''"Current list of speakers"''), (''id'', ''4''), (''meeting_id'', ''1''),
       (''name'', ''"agenda_current_list_of_speakers"''), (''projector_id'', ''1'')]),
     (''projectiondefault'', ''5'',
      [(''display_name'', ''"Motions"''), (''id'', ''5''), (''meeting_id'', ''1''), (''name'', ''"motions"''),
       (''projector_id'', ''1'')]),
     (''projectiondefault'', ''6'',
      [(''display_name'', ''"Motion blocks"''), (''id'', ''6''), (''meeting_id'', ''1''),
       (''name'', ''"motionBlocks"''), (''projector_id'', ''1'')]),
     (''projectiondefault'', ''7'',
      [(''display_name'', ''"Elections"''), (''id'', ''7''), (''meeting_id'', ''1''), (''name'', ''"assignments"''),
       (''projector_id'', ''1'')]),
     (''projectiondefault'', ''8'',
      [(''display_name'', ''"Participants"''), (''id'', ''8''), (''meeting_id'', ''1''), (''name'', ''"users"''),
       (''projector_id'', ''1'')]),
     (''projectiondefault'', ''9'',
      [(''display_name'', ''"Files"''), (''id'', ''9''), (''meeting_id'', ''1''), (''name'', ''"mediafiles"''),
       (''projector_id'', ''1'')])]\<close>

definition exampleData_projector :: table where
  \<open>exampleData_projector =
    [(''projector'', ''1'',
      [(''aspect_ratio_denominator'', ''3''), (''aspect_ratio_numerator'', ''4''),
       (''background_color'', ''"#ffffff"''), (''chyron_background_color'', ''"#317796"''),
       (''chyron_font_color'', ''"#ffffff"''), (''color'', ''"#000000"''),
       (''current_element_ids'', ''["assignment/1"]''), (''current_projection_ids'', ''[4]''),
       (''header_background_color'', ''"#317796"''), (''header_font_color'', ''"#f5f5f5"''),
       (''header_h1_color'', ''"#317796"''), (''history_projection_ids'', ''[]''), (''id'', ''1''),
       (''meeting_id'', ''1''), (''name'', ''"Default projector"''), (''preview_projection_ids'', ''[1, 2]''),
       (''projectiondefault_ids'', ''[1, 4, 5, 6, 7, 8, 9, 10, 11, 12, 13]''), (''scale'', ''0''),
       (''scroll'', ''0''), (''show_header_footer'', ''true''), (''show_logo'', ''true''), (''show_title'', ''true''),
       (''used_as_reference_projector_meeting_id'', ''null''), (''width'', ''1220'')]),
     (''projector'', ''2'',
      [(''aspect_ratio_denominator'', ''9''), (''aspect_ratio_numerator'', ''16''),
       (''background_color'', ''"#888888"''), (''chyron_background_color'', ''"#317796"''),
       (''chyron_font_color'', ''"#ffffff"''), (''color'', ''"#000000"''), (''current_element_ids'', ''["clock/1"]''),
       (''current_projection_ids'', ''[6]''), (''header_background_color'', ''"#317796"''),
       (''header_font_color'', ''"#f5f5f5"''), (''header_h1_color'', ''"#317796"''),
       (''history_projection_ids'', ''[]''), (''id'', ''2''), (''meeting_id'', ''1''),
       (''name'', ''"Nebenprojektor"''), (''preview_projection_ids'', ''[]''),
       (''projectiondefault_ids'', ''[2, 3]''), (''scale'', ''0''), (''scroll'', ''0''),
       (''show_header_footer'', ''true''), (''show_logo'', ''true''), (''show_title'', ''true''),
       (''used_as_reference_projector_meeting_id'', ''1''), (''width'', ''1024'')])]\<close>

definition exampleData_projector_countdown :: table where
  \<open>exampleData_projector_countdown =
    [(''projector_countdown'', ''1'',
      [(''countdown_time'', ''60.0''), (''current_projector_ids'', ''[]''), (''default_time'', ''60''),
       (''description'', ''""''), (''id'', ''1''), (''meeting_id'', ''1''), (''projection_ids'', ''[]''),
       (''running'', ''false''), (''title'', ''"Countdown 1"'')])]\<close>

definition exampleData_projector_message :: table where
  \<open>exampleData_projector_message =
    [(''projector_message'', ''1'',
      [(''current_projector_ids'', ''[]''), (''id'', ''1''), (''meeting_id'', ''1''), (''message'', ''"<p>Hi!</p>"''),
       (''projection_ids'', ''[]'')])]\<close>

definition exampleData_role :: table where
  \<open>exampleData_role =
    [(''role'', ''1'',
      [(''id'', ''1''), (''name'', ''"Superadmin role"''), (''organisation_id'', ''1''), (''permissions'', ''[]''),
       (''superadmin_role_for_organisation_id'', ''1''), (''user_ids'', ''[1]'')])]\<close>

definition exampleData_speaker :: table where
  \<open>exampleData_speaker =
    [(''speaker'', ''1'',
      [(''begin_time'', ''null''), (''end_time'', ''null''), (''id'', ''1''), (''list_of_speakers_id'', ''3''),
       (''marked'', ''false''), (''user_id'', ''1''), (''weight'', ''1'')]),
     (''speaker'', ''10'',
      [(''begin_time'', ''null''), (''end_time'', ''null''), (''id'', ''10''), (''list_of_speakers_id'', ''14''),
       (''marked'', ''false''), (''user_id'', ''2''), (''weight'', ''2'')]),
     (''speaker'', ''11'',
      [(''begin_time'', ''1584512636''), (''end_time'', ''1584512638''), (''id'', ''11''),
       (''list_of_speakers_id'', ''1''), (''marked'', ''false''), (''user_id'', ''2''), (''weight'', ''null'')]),
     (''speaker'', ''12'',
      [(''begin_time'', ''null''), (''end_time'', ''null''), (''id'', ''12''), (''list_of_speakers_id'', ''1''),
       (''marked'', ''false''), (''user_id'', ''1''), (''weight'', ''2'')]),
     (''speaker'', ''13'',
      [(''begin_time'', ''null''), (''end_time'', ''null''), (''id'', ''13''), (''list_of_speakers_id'', ''1''),
       (''marked'', ''false''), (''user_id'', ''2''), (''weight'', ''3'')]),
     (''speaker'', ''2'',
      [(''begin_time'', ''null''), (''end_time'', ''null''), (''id'', ''2''), (''list_of_speakers_id'', ''3''),
       (''marked'', ''false''), (''user_id'', ''2''), (''weight'', ''0'')]),
     (''speaker'', ''3'',
      [(''begin_time'', ''null''), (''end_time'', ''null''), (''id'', ''3''), (''list_of_speakers_id'', ''7''),
       (''marked'', ''false''), (''user_id'', ''2''), (''weight'', ''1'')]),
     (''speaker'', ''4'',
      [(''begin_time'', ''null''), (''end_time'', ''null''), (''id'', ''4''), (''list_of_speakers_id'', ''7''),
       (''marked'', ''false''), (''user_id'', ''3''), (''weight'', ''2'')]),
     (''speaker'', ''5'',
      [(''begin_time'', ''null''), (''end_time'', ''null''), (''id'', ''5''), (''list_of_speakers_id'', ''8''),
       (''marked'', ''false''), (''user_id'', ''1''), (''weight'', ''1'')]),
     (''speaker'', ''6'',
      [(''begin_time'', ''null''), (''end_time'', ''null''), (''id'', ''6''), (''list_of_speakers_id'', ''11''),
       (''marked'', ''false''), (''user_id'', ''1''), (''weight'', ''1'')]),
     (''speaker'', ''7'',
      [(''begin_time'', ''null''), (''end_time'', ''null''), (''id'', ''7''), (''list_of_speakers_id'', ''11''),
       (''marked'', ''false''), (''user_id'', ''2''), (''weight'', ''2'')]),
     (''speaker'', ''8'',
      [(''begin_time'', ''null''), (''end_time'', ''null''), (''id'', ''8''), (''list_of_speakers_id'', ''11''),
       (''marked'', ''false''), (''user_id'', ''3''), (''weight'', ''3'')]),
     (''speaker'', ''9'',
      [(''begin_time'', ''null''), (''end_time'', ''null''), (''id'', ''9''), (''list_of_speakers_id'', ''14''),
       (''marked'', ''false''), (''user_id'', ''3''), (''weight'', ''1'')])]\<close>

definition exampleData_tag :: table where
  \<open>exampleData_tag =
    [(''tag'', ''1'',
      [(''id'', ''1''), (''meeting_id'', ''1''), (''name'', ''"Tag1"''), (''tagged_ids'', ''["motion/2"]'')]),
     (''tag'', ''2'',
      [(''id'', ''2''), (''meeting_id'', ''1''), (''name'', ''"Tag2"''),
       (''tagged_ids'', ''["assignment/2", "agenda_item/4"]'')]),
     (''tag'', ''3'',
      [(''id'', ''3''), (''meeting_id'', ''1''), (''name'', ''"Tag3"''),
       (''tagged_ids'', ''["motion/2", "motion/3"]'')])]\<close>

definition exampleData_topic :: table where
  \<open>exampleData_topic =
    [(''topic'', ''1'',
      [(''agenda_item_id'', ''3''), (''attachment_ids'', ''[]''), (''id'', ''1''), (''list_of_speakers_id'', ''3''),
       (''meeting_id'', ''1''), (''tag_ids'', ''[]''), (''text'', ''""''), (''title'', ''"A"'')]),
     (''topic'', ''2'',
      [(''agenda_item_id'', ''4''), (''attachment_ids'', ''[]''), (''id'', ''2''), (''list_of_speakers_id'', ''4''),
       (''meeting_id'', ''1''), (''tag_ids'', ''[]''), (''text'', ''""''), (''title'', ''"B"'')]),
     (''topic'', ''3'',
      [(''agenda_item_id'', ''5''), (''attachment_ids'', ''[]''), (''id'', ''3''), (''list_of_speakers_id'', ''5''),
       (''meeting_id'', ''1''), (''tag_ids'', ''[]''), (''text'', ''""''), (''title'', ''"C"'')]),
     (''topic'', ''4'',
      [(''agenda_item_id'', ''6''), (''attachment_ids'', ''[]''), (''id'', ''4''), (''list_of_speakers_id'', ''6''),
       (''meeting_id'', ''1''), (''tag_ids'', ''[]''), (''text'', ''""''), (''title'', ''"D"'')]),
     (''topic'', ''5'',
      [(''agenda_item_id'', ''7''), (''attachment_ids'', ''[]''), (''id'', ''5''), (''list_of_speakers_id'', ''7''),
       (''meeting_id'', ''1''), (''tag_ids'', ''[]''), (''text'', ''""''), (''title'', ''"E"'')]),
     (''topic'', ''6'',
      [(''agenda_item_id'', ''8''), (''attachment_ids'', ''[]''), (''id'', ''6''), (''list_of_speakers_id'', ''8''),
       (''meeting_id'', ''1''), (''tag_ids'', ''[]''), (''text'', ''""''), (''title'', ''"F"'')]),
     (''topic'', ''7'',
      [(''agenda_item_id'', ''9''), (''attachment_ids'', ''[]''), (''id'', ''7''), (''list_of_speakers_id'', ''9''),
       (''meeting_id'', ''1''), (''tag_ids'', ''[]''), (''text'', ''""''), (''title'', ''"G"'')]),
     (''topic'', ''8'',
      [(''agenda_item_id'', ''10''), (''attachment_ids'', ''[]''), (''id'', ''8''), (''list_of_speakers_id'', ''10''),
       (''meeting_id'', ''1''), (''tag_ids'', ''[]''), (''text'', ''""''), (''title'', ''"H"'')])]\<close>

definition exampleData_user :: table where
  \<open>exampleData_user =
    [(''user'', ''1'',
      [(''about_me'', ''""''), (''assignment_candidate_$_ids'', ''["1"]''), (''assignment_candidate_1_ids'', ''[1]''),
       (''assignment_option_$_ids'', ''["1"]''), (''assignment_option_1_ids'', ''[1, 2]''),
       (''assignment_poll_voted_$_ids'', ''["1"]''), (''assignment_poll_voted_1_ids'', ''[3]''),
       (''assignment_vote_$_ids'', ''["1"]''), (''assignment_vote_1_ids'', ''[4]''), (''comment'', ''""''),
       (''committee_as_manager_ids'', ''[]''), (''committee_as_member_ids'', ''[]''),
       (''current_projector_ids'', ''[]''), (''default_password'', ''"admin"''), (''email'', ''""''),
       (''first_name'', ''""''), (''gender'', ''""''), (''group_$_ids'', ''["1"]''), (''group_1_ids'', ''[2]''),
       (''guest_meeting_ids'', ''[]''), (''id'', ''1''), (''is_active'', ''true''), (''is_committee'', ''false''),
       (''is_present_in_meeting_ids'', ''[1]''), (''last_email_send'', ''null''),
       (''last_name'', ''"Administrator"''), (''meeting_id'', ''null''), (''motion_poll_voted_$_ids'', ''[]''),
       (''motion_vote_$_ids'', ''[]''), (''number'', ''""''),
       (''password'', ''"1422e767c5e08bb7196844025a0f98e1x61Ey612Kl2gpFL56FT9weDnpSo4AV8j8+qx2AuTHdRyY036xxzTTrw10Wq3+4qQyB+XURPWx1ONxp3Y3pB37A=="''),
       (''personal_note_$_ids'', ''["1"]''), (''personal_note_1_ids'', ''[1]''), (''projection_ids'', ''[]''),
       (''role_id'', ''1''), (''speaker_$_ids'', ''["1"]''), (''speaker_1_ids'', ''[1, 5, 6, 12]''),
       (''structure_level'', ''""''), (''submitted_motion_$_ids'', ''["1"]''),
       (''submitted_motion_1_ids'', ''[1, 2, 3, 4]''), (''supported_motion_$_ids'', ''[]''), (''title'', ''""''),
       (''username'', ''"admin"''), (''vote_weight'', ''"1.000000"'')]),
     (''user'', ''2'',
      [(''about_me'', ''""''), (''assignment_candidate_$_ids'', ''["1"]''),
       (''assignment_candidate_1_ids'', ''[3, 5]''), (''assignment_option_$_ids'', ''["1"]''),
       (''assignment_option_1_ids'', ''[6]''), (''assignment_poll_voted_$_ids'', ''[]''),
       (''assignment_vote_$_ids'', ''[]''), (''comment'', ''""''), (''committee_as_manager_ids'', ''[]''),
       (''committee_as_member_ids'', ''[]''), (''current_projector_ids'', ''[]''), (''default_password'', ''"a"''),
       (''email'', ''""''), (''first_name'', ''"a"''), (''gender'', ''""''), (''group_$_ids'', ''["1"]''),
       (''group_1_ids'', ''[6]''), (''guest_meeting_ids'', ''[]''), (''id'', ''2''), (''is_active'', ''true''),
       (''is_committee'', ''false''), (''is_present_in_meeting_ids'', ''[]''), (''last_email_send'', ''null''),
       (''last_name'', ''""''), (''meeting_id'', ''null''), (''motion_poll_voted_$_ids'', ''[]''),
       (''motion_vote_$_ids'', ''[]''), (''number'', ''""''),
       (''password'', ''"7f0d953dadfddb2005da4c04037abf61H0D8ktokFpR1CXnubPWC8tXX0o4YM13gWrxU0FYOD1MChgxlK/CNVgJSql50IQVG82n7u86MEs/HlXsmUv6adQ=="''),
       (''personal_note_$_ids'', ''[]''), (''projection_ids'', ''[]''), (''role_id'', ''null''),
       (''speaker_$_ids'', ''["1"]''), (''speaker_1_ids'', ''[2, 3, 7, 10, 11, 13]''), (''structure_level'', ''""''),
       (''submitted_motion_$_ids'', ''[]''), (''supported_motion_$_ids'', ''[]''), (''title'', ''""''),
       (''username'', ''"a"''), (''vote_weight'', ''"1.000000"'')]),
     (''user'', ''3'',
      [(''about_me'', ''""''), (''assignment_candidate_$_ids'', ''["1"]''),
       (''assignment_candidate_1_ids'', ''[2, 4]''), (''assignment_option_$_ids'', ''["1"]''),
       (''assignment_option_1_ids'', ''[3, 4, 5]''), (''assignment_poll_voted_$_ids'', ''[]''),
       (''assignment_vote_$_ids'', ''[]''), (''comment'', ''""''), (''committee_as_manager_ids'', ''[]''),
       (''committee_as_member_ids'', ''[]''), (''current_projector_ids'', ''[]''),
       (''default_password'', ''"jKwSLGCk"''), (''email'', ''""''), (''first_name'', ''"b"''), (''gender'', ''""''),
       (''group_$_ids'', ''[]''), (''guest_meeting_ids'', ''[1]''), (''id'', ''3''), (''is_active'', ''true''),
       (''is_committee'', ''false''), (''is_present_in_meeting_ids'', ''[]''), (''last_email_send'', ''null''),
       (''last_name'', ''""''), (''meeting_id'', ''null''), (''motion_poll_voted_$_ids'', ''[]''),
       (''motion_vote_$_ids'', ''[]''), (''number'', ''""''),
       (''password'', ''"a7ba62036711bbd11163661547947f23Umd2iCLuYk1I/OFexcp5y9YCy39MIVelFlVpkfIu+Me173sY0f9BxZNw77CFhlHUSpNsEbexRMSP4E3zxqPo2g=="''),
       (''personal_note_$_ids'', ''[]''), (''projection_ids'', ''[]''), (''role_id'', ''null''),
       (''speaker_$_ids'', ''["1"]''), (''speaker_1_ids'', ''[4, 8, 9]''), (''structure_level'', ''""''),
       (''submitted_motion_$_ids'', ''[]''), (''supported_motion_$_ids'', ''[3]''), (''title'', ''""''),
       (''username'', ''"b"''), (''vote_weight'', ''"1.000000"'')])]\<close>

text \<open>The entries of a table: a key is the collection, the id and the field.\<close>

definition rows :: "table \<Rightarrow> (string \<times> string) list" where
  "rows t = concat (map (\<lambda>(c, i, fs). map (\<lambda>(f, v). (c @ ''/'' @ i @ ''/'' @ f, v)) fs) t)"

definition exampleTable :: table where
  "exampleTable =
     concat
       [exampleData_agenda_item_1, exampleData_agenda_item_2, exampleData_assignment,
        exampleData_assignment_candidate, exampleData_assignment_option,
        exampleData_assignment_poll, exampleData_assignment_vote, exampleData_committee,
        exampleData_group, exampleData_list_of_speakers, exampleData_mediafile, exampleData_meeting,
        exampleData_motion_1, exampleData_motion_2, exampleData_motion_block,
        exampleData_motion_category, exampleData_motion_change_recommendation,
        exampleData_motion_comment, exampleData_motion_comment_section, exampleData_motion_option,
        exampleData_motion_poll, exampleData_motion_state_1, exampleData_motion_state_2,
        exampleData_motion_submitter, exampleData_motion_vote, exampleData_motion_workflow,
        exampleData_organisation, exampleData_personal_note, exampleData_projection,
        exampleData_projectiondefault, exampleData_projector, exampleData_projector_countdown,
        exampleData_projector_message, exampleData_role, exampleData_speaker, exampleData_tag,
        exampleData_topic, exampleData_user]"

definition exampleData :: "string \<rightharpoonup> string" where
  "exampleData = map_of (rows exampleTable)"

end
