(* ===== verification/Example_Data.thy ===== *)
theory Example_Data
  imports Service Example_Table
begin

text \<open>
  The example data that ship with the example datastore: every value is valid JSON, and which of
  the values the service can show. The table is evaluated object by object; the facts about single
  values that this needs are in the collection \<open>example_data\<close>.
\<close>

named_theorems example_data

section \<open>Values\<close>

definition valid_json :: "string \<Rightarrow> bool" where
  "valid_json v \<longleftrightarrow> json_valid v \<noteq> None"

text \<open>The rest of a string literal that ends the text.\<close>

definition string_end :: "string \<Rightarrow> bool" where
  "string_end s \<longleftrightarrow> (\<exists>b. lex_string s = Inr (b, []))"

lemma string_end_simps [example_data]:
  "string_end [CHR 0x22]"
  "is_escape e \<Longrightarrow> string_end (CHR 0x5C # e # s) = string_end s"
  "c \<noteq> CHR 0x22 \<Longrightarrow> c \<noteq> CHR 0x5C \<Longrightarrow> digit5 c \<or> digit6 c \<or> digit7 c \<Longrightarrow> string_end (c # s) = string_end s"
  unfolding string_end_def by (auto simp: control_char)

lemma valid_string [example_data]:
  assumes "string_end s"
  shows "valid_json (CHR 0x22 # s)"
proof -
  obtain b where "lex_string s = Inr (b, [])"
    using assms by (auto simp: string_end_def)
  then have "parse (CHR 0x22 # s) = Inr (JStr (unquote b), [])"
    by (simp add: parse_def parse_value.simps skip_ws_Cons parse_literal_def numeral_eq_Suc)
  then show ?thesis
    by (simp add: valid_json_def json_valid_def skip_ws_def)
qed

lemma valid_values [example_data]:
  \<open>valid_json ''false'' \<and> valid_json ''null'' \<and> valid_json ''1'' \<and> valid_json ''0'' \<and>
     valid_json ''10000'' \<and> valid_json ''10'' \<and> valid_json ''true'' \<and> valid_json ''3'' \<and>
     valid_json ''1007'' \<and> valid_json ''11'' \<and> valid_json ''2'' \<and> valid_json ''12'' \<and>
     valid_json ''13'' \<and> valid_json ''14'' \<and> valid_json ''1001'' \<and> valid_json ''15'' \<and>
     valid_json ''1000'' \<and> valid_json ''4'' \<and> valid_json ''5'' \<and> valid_json ''1002'' \<and>
     valid_json ''6'' \<and> valid_json ''1003'' \<and> valid_json ''7'' \<and> valid_json ''1004'' \<and>
     valid_json ''8'' \<and> valid_json ''1005'' \<and> valid_json ''9'' \<and> valid_json ''1006'' \<and>
     valid_json ''1584513763'' \<and> valid_json ''16'' \<and> valid_json ''{}'' \<and>
     valid_json ''1584513771'' \<and> valid_json ''17'' \<and> valid_json ''1584513791'' \<and>
     valid_json ''1462'' \<and> valid_json ''18'' \<and> valid_json ''-1'' \<and> valid_json ''90'' \<and>
     valid_json ''60'' \<and> valid_json ''1584512346'' \<and> valid_json ''100'' \<and>
     valid_json ''1584512345'' \<and> valid_json ''1584512667'' \<and> valid_json ''1220'' \<and>
     valid_json ''1024'' \<and> valid_json ''60.0'' \<and> valid_json ''1584512636'' \<and> valid_json ''1584512638''\<close>
  by code_simp

lemma valid_text1 [example_data]:
  \<open>valid_json ''[\<newline>            "agenda.can_see",\<newline>            "agenda.can_see_internal_items",\<newline>            "assignments.can_see",\<newline>            "core.can_see_frontpage",\<newline>            "core.can_see_projector",\<newline>            "mediafiles.can_see",\<newline>            "motions.can_see",\<newline>            "users.can_see_name"\<newline>        ]''\<close>
  by code_simp

lemma valid_text2 [example_data]:
  \<open>valid_json ''[\<newline>            "agenda.can_manage",\<newline>            "agenda.can_see",\<newline>            "agenda.can_see_internal_items",\<newline>            "agenda.can_be_speaker",\<newline>            "assignments.can_manage",\<newline>            "assignments.can_nominate_other",\<newline>            "assignments.can_nominate_self",\<newline>            "assignments.can_see",\<newline>            "core.can_manage_projector",\<newline>            "core.can_see_frontpage",\<newline>            "core.can_see_projector",\<newline>            "core.can_manage_tags",\<newline>            "mediafiles.can_manage",\<newline>            "mediafiles.can_see",\<newline>            "motions.can_create",\<newline>            "motions.can_manage",\<newline>            "motions.can_see",\<newline>            "users.can_manage",\<newline>            "users.can_see_extra_data",\<newline>            "users.can_see_name"\<newline>        ]''\<close>
  by code_simp

lemma valid_text3 [example_data]:
  \<open>valid_json ''[\<newline>            "agenda.can_see",\<newline>            "agenda.can_see_internal_items",\<newline>            "assignments.can_see",\<newline>            "core.can_see_frontpage",\<newline>            "core.can_see_projector",\<newline>            "mediafiles.can_see",\<newline>            "motions.can_create",\<newline>            "motions.can_see",\<newline>            "motions.can_support",\<newline>            "users.can_see_name"\<newline>        ]''\<close>
  by code_simp

lemma valid_text4 [example_data]:
  \<open>valid_json ''[\<newline>            "agenda.can_see",\<newline>            "agenda.can_see_internal_items",\<newline>            "agenda.can_be_speaker",\<newline>            "assignments.can_nominate_other",\<newline>            "assignments.can_nominate_self",\<newline>            "assignments.can_see",\<newline>            "core.can_see_frontpage",\<newline>            "core.can_see_projector",\<newline>            "mediafiles.can_see",\<newline>            "motions.can_create",\<newline>            "motions.can_manage",\<newline>            "motions.can_see",\<newline>            "motions.can_support",\<newline>            "users.can_see_name"\<newline>        ]''\<close>
  by code_simp

lemma valid_objects [example_data]:
  \<open>valid_json ''{\<newline>            "mode": "diff"\<newline>        }'' \<and>
     valid_json ''{\<newline>            "stable": true\<newline>        }''\<close>
  by code_simp

text \<open>The lists, as they are sent, are decoded to numbers or to strings.\<close>

definition is_ints :: "string \<Rightarrow> bool" where
  "is_ints v \<longleftrightarrow> \<not> isl (unmarshal decode_ints (compact False v))"

definition is_strings :: "string \<Rightarrow> bool" where
  "is_strings v \<longleftrightarrow> \<not> isl (unmarshal decode_strings (compact False v))"

lemma valid_lists [example_data]:
  \<open>valid_json ''["web_header"]'' \<and> valid_json ''[]'' \<and> valid_json ''[14]'' \<and> valid_json ''[2]'' \<and> valid_json ''[1, 2, 3]'' \<and>
     valid_json ''[1]'' \<and> valid_json ''[1, 2]'' \<and> valid_json ''[4]'' \<and> valid_json ''[4, 5]'' \<and>
     valid_json ''[3]'' \<and> valid_json ''[2, 3, 4]'' \<and> valid_json ''[5, 6]'' \<and>
     valid_json ''[1, 3]'' \<and> valid_json ''[11, 12, 13]'' \<and> valid_json ''[6, 7, 8]'' \<and>
     valid_json ''[9, 10]'' \<and> valid_json ''[3, 4]'' \<and> valid_json ''[5]'' \<and> valid_json ''[2, 3]'' \<and>
     valid_json ''[1, 2, 3, 4, 5, 6, 7, 8, 9, 10, 11, 12, 13, 14, 15]'' \<and> valid_json ''[3, 5]'' \<and>
     valid_json ''[1, 2, 3, 5, 6]'' \<and> valid_json ''[1, 2, 3, 4]'' \<and>
     valid_json ''[1, 2, 3, 4, 5, 6, 7, 8, 9, 10, 11, 12, 13]'' \<and> valid_json ''[1, 2, 3, 4, 5, 6, 7, 8]'' \<and>
     valid_json ''[3, 6]'' \<and> valid_json ''[6]'' \<and> valid_json ''[6, 9, 14]'' \<and>
     valid_json ''[7, 8, 9, 10, 11, 12, 13]'' \<and> valid_json ''[5, 6, 7, 8, 9, 10, 11, 12, 13, 14]'' \<and>
     valid_json ''[1, 4, 5, 6, 7, 8, 9, 10, 11, 12, 13]'' \<and> valid_json ''[1, 5, 6, 12]'' \<and>
     valid_json ''[2, 3, 7, 10, 11, 13]'' \<and> valid_json ''[2, 4]'' \<and> valid_json ''[3, 4, 5]'' \<and>
     valid_json ''[4, 8, 9]'' \<and> valid_json ''["motion/4"]'' \<and> valid_json ''["assignment/1"]'' \<and>
     valid_json ''["clock/1"]'' \<and> valid_json ''["motion/2"]'' \<and>
     valid_json ''["assignment/2", "agenda_item/4"]'' \<and> valid_json ''["motion/2", "motion/3"]'' \<and>
     valid_json ''["1"]''\<close>
  by code_simp

lemma int_lists [example_data]:
  \<open>is_ints ''[]'' \<and> is_ints ''[14]'' \<and> is_ints ''[2]'' \<and> is_ints ''[1, 2, 3]'' \<and>
     is_ints ''[1]'' \<and> is_ints ''[1, 2]'' \<and> is_ints ''[4]'' \<and> is_ints ''[4, 5]'' \<and>
     is_ints ''[3]'' \<and> is_ints ''[2, 3, 4]'' \<and> is_ints ''[5, 6]'' \<and> is_ints ''[1, 3]'' \<and>
     is_ints ''[11, 12, 13]'' \<and> is_ints ''[6, 7, 8]'' \<and> is_ints ''[9, 10]'' \<and> is_ints ''[3, 4]'' \<and>
     is_ints ''[5]'' \<and> is_ints ''[2, 3]'' \<and>
     is_ints ''[1, 2, 3, 4, 5, 6, 7, 8, 9, 10, 11, 12, 13, 14, 15]'' \<and> is_ints ''[3, 5]'' \<and>
     is_ints ''[1, 2, 3, 5, 6]'' \<and> is_ints ''[1, 2, 3, 4]'' \<and>
     is_ints ''[1, 2, 3, 4, 5, 6, 7, 8, 9, 10, 11, 12, 13]'' \<and> is_ints ''[1, 2, 3, 4, 5, 6, 7, 8]'' \<and>
     is_ints ''[3, 6]'' \<and> is_ints ''[6]'' \<and> is_ints ''[6, 9, 14]'' \<and>
     is_ints ''[7, 8, 9, 10, 11, 12, 13]'' \<and> is_ints ''[5, 6, 7, 8, 9, 10, 11, 12, 13, 14]'' \<and>
     is_ints ''[1, 4, 5, 6, 7, 8, 9, 10, 11, 12, 13]'' \<and> is_ints ''[1, 5, 6, 12]'' \<and>
     is_ints ''[2, 3, 7, 10, 11, 13]'' \<and> is_ints ''[2, 4]'' \<and> is_ints ''[3, 4, 5]'' \<and>
     is_ints ''[4, 8, 9]''\<close>
  by code_simp

lemma string_lists [example_data]:
  \<open>is_strings ''[]'' \<and> is_strings ''["motion/4"]'' \<and> is_strings ''["assignment/1"]'' \<and>
     is_strings ''["clock/1"]'' \<and> is_strings ''["motion/2"]'' \<and>
     is_strings ''["assignment/2", "agenda_item/4"]'' \<and> is_strings ''["motion/2", "motion/3"]'' \<and>
     is_strings ''["1"]''\<close>
  by code_simp

section \<open>Fields\<close>

text \<open>The fields whose values are lists of strings: the generic relations and the templates.\<close>

lemma generic_fields:
  "map fst (filter (\<lambda>(k, v). v = ''*'') relationLists) =
     [''mediafile/attachment_ids'', ''motion/recommendation_extension_reference_ids'', ''projector/current_element_ids'',
      ''tag/tagged_ids'']"
  by code_simp

lemma template_fields:
  "map fst (filter (\<lambda>(k, v). CHR ''$'' \<in> set k) relationLists) =
     [''user/assignment_candidate_$_ids'',
      ''user/assignment_option_$_ids'',
      ''user/assignment_poll_voted_$_ids'',
      ''user/assignment_vote_$_ids'',
      ''user/group_$_ids'',
      ''user/motion_poll_voted_$_ids'',
      ''user/motion_vote_$_ids'',
      ''user/personal_note_$_ids'',
      ''user/speaker_$_ids'',
      ''user/submitted_motion_$_ids'',
      ''user/supported_motion_$_ids'']"
  by code_simp

lemma generic_only:
  "list_all (\<lambda>(k, v). v \<noteq> ''*'' \<longrightarrow>
     k \<notin> set [''mediafile/attachment_ids'', ''motion/recommendation_extension_reference_ids'', ''projector/current_element_ids'',
      ''tag/tagged_ids'']) relationLists"
  by code_simp

abbreviation generics :: "string list" where
  "generics \<equiv> map fst (filter (\<lambda>(k, v). v = ''*'') relationLists)"

abbreviation templates :: "string list" where
  "templates \<equiv> map fst (filter (\<lambda>(k, v). CHR ''$'' \<in> set k) relationLists)"

text \<open>
  What the table has for a field. There is one exception to the rule that a template field has a
  list of strings.
\<close>

definition bad_key :: string where
  "bad_key = ''user/3/supported_motion_$_ids''"

definition expected :: "string \<Rightarrow> string \<Rightarrow> string \<Rightarrow> string \<Rightarrow> bool" where
  "expected c i f v \<longleftrightarrow>
     (if \<not> sublist ''_ids'' f then True
      else if f = ''supported_motion_$_ids'' \<and> i = ''3'' \<and> c = ''user'' then v = ''[3]''
      else if v = ''null'' then True
      else if CHR ''$'' \<in> set f then is_strings v \<and> c @ ''/'' @ f \<in> set templates
      else if c @ ''/'' @ f \<in> set generics then is_strings v
      else is_ints v)"

definition plain :: "string \<Rightarrow> bool" where
  "plain s \<longleftrightarrow> list_all (\<lambda>c. is_ascii c \<and> c \<noteq> CHR ''/'') s"

definition table_ok :: "table \<Rightarrow> bool" where
  "table_ok t \<longleftrightarrow>
     list_all (\<lambda>(c, i, fs). plain c \<and> plain i \<and> \<not> sublist ''_ids'' c \<and> CHR ''$'' \<notin> set c \<and>
       list_all (\<lambda>(f, v). plain f \<and> valid_json v \<and> expected c i f v) fs) t"

lemma plain_simps [example_data]: "plain []" "plain (c # s) \<longleftrightarrow> \<not> digit7 c \<and> c \<noteq> CHR ''/'' \<and> plain s"
  by (simp_all add: plain_def is_ascii_code)

lemmas table_simps = table_ok_def expected_def generic_fields template_fields sublist_code is_escape_def example_data

section \<open>The table\<close>

lemma discussion_ok:
  "table_ok exampleData_agenda_item_1" "table_ok exampleData_agenda_item_2" "table_ok exampleData_topic"
  "table_ok exampleData_list_of_speakers" "table_ok exampleData_speaker"
  unfolding exampleData_agenda_item_1_def exampleData_agenda_item_2_def exampleData_topic_def
    exampleData_list_of_speakers_def exampleData_speaker_def
  by (simp_all add: table_simps)

lemma motion_ok:
  "table_ok exampleData_motion_1" "table_ok exampleData_motion_2" "table_ok exampleData_motion_block"
  "table_ok exampleData_motion_category" "table_ok exampleData_motion_change_recommendation"
  "table_ok exampleData_motion_comment" "table_ok exampleData_motion_comment_section"
  "table_ok exampleData_motion_option" "table_ok exampleData_motion_poll" "table_ok exampleData_motion_state_1"
  "table_ok exampleData_motion_state_2" "table_ok exampleData_motion_submitter" "table_ok exampleData_motion_vote"
  "table_ok exampleData_motion_workflow"
  unfolding exampleData_motion_1_def exampleData_motion_2_def exampleData_motion_block_def exampleData_motion_category_def
    exampleData_motion_change_recommendation_def exampleData_motion_comment_def
    exampleData_motion_comment_section_def exampleData_motion_option_def exampleData_motion_poll_def
    exampleData_motion_state_1_def exampleData_motion_state_2_def exampleData_motion_submitter_def
    exampleData_motion_vote_def exampleData_motion_workflow_def
  by (simp_all add: table_simps)

lemma meeting_ok:
  "table_ok exampleData_group" "table_ok exampleData_mediafile" "table_ok exampleData_meeting"
  "table_ok exampleData_committee" "table_ok exampleData_organisation" "table_ok exampleData_tag"
  "table_ok exampleData_role" "table_ok exampleData_personal_note" "table_ok exampleData_user"
  unfolding exampleData_group_def exampleData_mediafile_def exampleData_meeting_def exampleData_committee_def
    exampleData_organisation_def exampleData_tag_def exampleData_role_def exampleData_personal_note_def
    exampleData_user_def
  by (simp_all add: table_simps)

lemma assignment_ok:
  "table_ok exampleData_assignment" "table_ok exampleData_assignment_candidate"
  "table_ok exampleData_assignment_option" "table_ok exampleData_assignment_poll"
  "table_ok exampleData_assignment_vote" "table_ok exampleData_projection" "table_ok exampleData_projectiondefault"
  "table_ok exampleData_projector" "table_ok exampleData_projector_countdown"
  "table_ok exampleData_projector_message"
  unfolding exampleData_assignment_def exampleData_assignment_candidate_def exampleData_assignment_option_def
    exampleData_assignment_poll_def exampleData_assignment_vote_def exampleData_projection_def
    exampleData_projectiondefault_def exampleData_projector_def exampleData_projector_countdown_def
    exampleData_projector_message_def
  by (simp_all add: table_simps)

lemmas tables_ok = discussion_ok motion_ok meeting_ok assignment_ok

lemma table_ok_append [simp]: "table_ok (s @ t) \<longleftrightarrow> table_ok s \<and> table_ok t" "table_ok []"
  by (simp_all add: table_ok_def)

lemma exampleTable_ok: "table_ok exampleTable"
  unfolding exampleTable_def by (simp add: tables_ok)

lemma exampleData_entry:
  assumes "exampleData k = Some v"
  obtains c i f where "k = c @ ''/'' @ i @ ''/'' @ f" "plain c" "plain i" "plain f" "\<not> sublist ''_ids'' c"
    "CHR ''$'' \<notin> set c" "valid_json v" "expected c i f v"
proof -
  have "(k, v) \<in> set (rows exampleTable)"
    using assms unfolding exampleData_def by (rule map_of_SomeD)
  then obtain c i fs f where e: "(c, i, fs) \<in> set exampleTable" "(f, v) \<in> set fs" "k = c @ ''/'' @ i @ ''/'' @ f"
    by (auto simp: rows_def)
  then show ?thesis
    using exampleTable_ok that by (fastforce simp: table_ok_def list_all_iff)
qed

lemma plainD: "plain s \<Longrightarrow> list_all is_ascii s" "plain s \<Longrightarrow> CHR ''/'' \<notin> set s"
  by (auto simp: plain_def list_all_iff)

text \<open>The example server can send all of its data.\<close>

lemma exampleData_valid: "example_valid exampleData"
  unfolding example_valid_def
proof (intro allI impI)
  fix k v assume "exampleData k = Some v"
  then obtain c i f where k: "k = c @ ''/'' @ i @ ''/'' @ f" "plain c" "plain i" "plain f" "valid_json v"
    by (rule exampleData_entry)
  then show "list_all is_ascii k \<and> 2 \<le> count_char CHR ''/'' k \<and> json_valid v \<noteq> None"
    using plainD(1) by (auto simp: valid_json_def is_ascii_code count_char_def)
qed

section \<open>What can be read\<close>

lemma model_field: "plain c \<Longrightarrow> plain i \<Longrightarrow> plain f \<Longrightarrow> fqfieldToModelField (c @ ''/'' @ i @ ''/'' @ f) = Inr (c @ ''/'' @ f)"
  using split_on_append [of "CHR ''/''" c] split_on_append [of "CHR ''/''" i] plainD(2)
  by (simp add: fqfieldToModelField_def split_on_notin)

lemma sublist_model_field:
  assumes "sublist ''_ids'' (c @ ''/'' @ f)"
  shows "sublist ''_ids'' c \<or> sublist ''_ids'' f"
proof -
  consider "sublist ''_ids'' c" | "sublist ''_ids'' (CHR ''/'' # f)"
    | xs ys where "''_ids'' = xs @ ys" "suffix xs c" "prefix ys (CHR ''/'' # f)"
    using assms by (auto simp: sublist_append)
  then show ?thesis
  proof cases
    case (3 xs ys)
    have "CHR ''/'' \<notin> set ''_ids''" by simp
    then have "CHR ''/'' \<notin> set ys" unfolding 3(1) by simp
    then have "ys = []" using 3(3) by (cases ys) auto
    then show ?thesis using 3 by (simp add: suffix_imp_sublist)
  qed (auto simp: sublist_code)
qed

lemma template_checker:
  assumes "mf \<in> set templates"
  obtains ch pre suf where "find_checker main_restricter mf = Some (structuredField ch pre suf)"
proof -
  have mf: "CHR ''$'' \<in> set mf" "mf \<in> fst ` set (rev relationLists)"
    using assms by auto
  then obtain v where "map_of (rev relationLists) mf = Some v"
    using map_of_eq_None_iff [of "rev relationLists" mf] by auto
  from find_checker_named [OF this] mf(1) show ?thesis
    using that by (auto simp: main_restricter_def OpenSlidesChecker_entry_def Let_def)
qed

lemma generic_checker:
  assumes "mf \<in> set generics" "CHR ''$'' \<notin> set mf"
  shows "find_checker main_restricter mf = Some genericRelationList"
proof -
  have "mf \<in> fst ` set (rev relationLists)"
    using assms(1) by auto
  then obtain v where v: "map_of (rev relationLists) mf = Some v"
    using map_of_eq_None_iff [of "rev relationLists" mf] by auto
  then have "(mf, v) \<in> set relationLists"
    using map_of_SomeD by fastforce
  then have "v = ''*''"
    using assms(1) generic_only unfolding generic_fields list_all_iff by blast
  with find_checker_named [OF v] assms(2) show ?thesis
    by (simp add: main_restricter_def OpenSlidesChecker_entry_def Let_def)
qed

lemma number_checker:
  assumes "mf \<notin> set generics" "CHR ''$'' \<notin> set mf" "find_checker main_restricter mf = Some ch"
  shows "\<exists>m. ch = relationList m"
proof (rule find_checker_plain)
  show "find_checker (New_Restricter OpenSlidesChecker) mf = Some ch"
    using assms(3) by (simp add: main_restricter_def)
  show "map_of (rev relationLists) mf \<noteq> Some ''*''"
    using assms(1) map_of_SomeD [of "rev relationLists" mf "''*''"] by force
qed (rule assms(2))

text \<open>Every entry but one can be read.\<close>

lemma expected_readable:
  assumes "plain c" "plain i" "plain f" "\<not> sublist ''_ids'' c" "CHR ''$'' \<notin> set c" "expected c i f v"
    and "(c, i, f) \<noteq> (''user'', ''3'', ''supported_motion_$_ids'')"
  shows "\<not> isl (restrict_value main_perm main_restricter uid True (c @ ''/'' @ i @ ''/'' @ f) (null_to_nil (Some (compact False v))))"
proof (cases "v = ''null''")
  case True
  then have "compact False v = ''null''" by (simp add: is_ws_def)
  then show ?thesis by (simp add: null_to_nil_def restrict_value_def)
next
  case False
  let ?mf = "c @ ''/'' @ f" and ?t = "compact False v"
  have "\<not> isl (Check main_perm ch uid (c @ ''/'' @ i @ ''/'' @ f) (Some ?t))" if ch: "find_checker main_restricter ?mf = Some ch" for ch
  proof -
    have ids: "sublist ''_ids'' f"
      using find_checker_no_list [of ?mf] sublist_model_field [of c f] assms(4) ch unfolding main_restricter_def by auto
    consider (template) "is_strings v" "?mf \<in> set templates"
      | (generic) "CHR ''$'' \<notin> set ?mf" "?mf \<in> set generics" "is_strings v"
      | (number) "CHR ''$'' \<notin> set ?mf" "?mf \<notin> set generics" "is_ints v"
    proof (cases "CHR ''$'' \<in> set f")
      case True
      with ids False assms(6,7) have "is_strings v \<and> ?mf \<in> set templates"
        unfolding expected_def by (simp only: if_True if_False simp_thms prod.inject split: if_splits)
      with that(1) show ?thesis by blast
    next
      case no: False
      then have "CHR ''$'' \<notin> set ?mf" "f \<noteq> ''supported_motion_$_ids''" using assms(5) by auto
      with that(2,3) ids False no assms(6) show ?thesis
        unfolding expected_def by (simp only: if_False simp_thms split: if_splits)
    qed
    then show ?thesis
    proof cases
      case template
      obtain ch' pre suf where "find_checker main_restricter ?mf = Some (structuredField ch' pre suf)"
        by (rule template_checker [OF template(2)])
      with ch template(1) show ?thesis
        unfolding main_Check_ok by (simp add: is_strings_def)
    next
      case generic
      have "ch = genericRelationList"
        using generic_checker [OF generic(2,1)] ch by simp
      with generic(3) show ?thesis
        unfolding main_Check_ok by (simp add: is_strings_def)
    next
      case number
      with number_checker [OF number(2,1) ch] show ?thesis
        unfolding main_Check_ok by (simp add: is_ints_def)
    qed
  qed
  then show ?thesis
    using restrict_value_isl [OF model_field [OF assms(1-3)]] by (auto simp: null_to_nil_def restrict_value_def)
qed

lemma rows_member: "(c, i, fs) \<in> set t \<Longrightarrow> (f, v) \<in> set fs \<Longrightarrow> (c @ ''/'' @ i @ ''/'' @ f, v) \<in> set (rows t)"
  by (force simp: rows_def)

lemma bad_key_data: "exampleData bad_key = Some ''[3]''"
proof -
  have "list_ex (\<lambda>(c, i, fs). c = ''user'' \<and> i = ''3'' \<and> list_ex (\<lambda>(f, v). f = ''supported_motion_$_ids'' \<and> v = ''[3]'') fs)
      exampleData_user"
    unfolding exampleData_user_def by simp
  then obtain fs where fs: "(''user'', ''3'', fs) \<in> set exampleData_user" "(''supported_motion_$_ids'', ''[3]'') \<in> set fs"
    by (auto simp: list_ex_iff)
  have "(''user'', ''3'', fs) \<in> set exampleTable"
    using fs(1) by (simp add: exampleTable_def)
  from rows_member [OF this fs(2)] have "(bad_key, ''[3]'') \<in> set (rows exampleTable)"
    by (simp add: bad_key_def)
  then obtain v where v: "exampleData bad_key = Some v"
    using weak_map_of_SomeI unfolding exampleData_def by fast
  then obtain c i f where k: "bad_key = c @ ''/'' @ i @ ''/'' @ f" "plain c" "plain i" "plain f" "expected c i f v"
    by (rule exampleData_entry)
  have "[c, i, f] = split_on CHR ''/'' bad_key"
    unfolding k(1) using k(2-4) plainD(2) split_on_append [of "CHR ''/''" c] split_on_append [of "CHR ''/''" i]
    by (simp add: split_on_notin)
  also have "\<dots> = [''user'', ''3'', ''supported_motion_$_ids'']"
    unfolding bad_key_def by code_simp
  finally have "v = ''[3]''"
    using k(5) by (simp add: expected_def sublist_code)
  with v show ?thesis by simp
qed

lemma bad_key_unreadable: "isl (restrict_value main_perm main_restricter uid True bad_key (Some ''[3]''))"
proof -
  have mf: "fqfieldToModelField bad_key = Inr ''user/supported_motion_$_ids''"
    unfolding bad_key_def by code_simp
  have "''user/supported_motion_$_ids'' \<in> set templates"
    unfolding template_fields by simp
  then obtain ch pre suf where "find_checker main_restricter ''user/supported_motion_$_ids'' = Some (structuredField ch pre suf)"
    by (rule template_checker)
  moreover have "isl (unmarshal decode_strings ''[3]'')"
    by code_simp
  ultimately show ?thesis
    unfolding restrict_value_isl [OF mf] main_Check_ok by simp
qed

lemma bad_key_main: "\<not> main_readable accepts (sent exampleData) bad_key"
proof -
  have "sent exampleData bad_key = Some ''[3]''"
    using bad_key_data by (simp add: sent_def is_ws_def)
  with bad_key_unreadable [of 1] show ?thesis
    by (simp add: readable_def null_to_nil_def)
qed

section \<open>Properties\<close>

text \<open>
  C6. The service in front of the example datastore can show all of the data that ship with it,
  and what it reads of a key that is not in the data, with one exception: the value of
  \<^verbatim>\<open>user/3/supported_motion_$_ids\<close> is a list of numbers, where the checker of the field
  expects a list of strings.
\<close>

theorem shipped_readable:
  "main_readable (list_all is_ascii) (sent exampleData) k \<longleftrightarrow> list_all is_ascii k \<and> k \<noteq> ''user/3/supported_motion_$_ids''"
proof (cases "exampleData k")
  case None
  then have "k \<noteq> bad_key" using bad_key_data by auto
  with None show ?thesis
    by (simp add: readable_def sent_def null_to_nil_def restrict_value_def bad_key_def)
next
  case (Some v)
  obtain c i f where k: "k = c @ ''/'' @ i @ ''/'' @ f" "plain c" "plain i" "plain f" "\<not> sublist ''_ids'' c"
    "CHR ''$'' \<notin> set c" "expected c i f v"
    using Some by (rule exampleData_entry)
  show ?thesis
  proof (cases "k = bad_key")
    case True
    with bad_key_main show ?thesis
      by (simp add: bad_key_def)
  next
    case False
    then have "(c, i, f) \<noteq> (''user'', ''3'', ''supported_motion_$_ids'')"
      using k(1) by (auto simp: bad_key_def)
    from expected_readable [OF k(2-7) this] show ?thesis
      using Some k(1) False by (simp add: readable_def sent_def bad_key_def)
  qed
qed

end
