(* ===== verification/Fake_Server.thy ===== *)
theory Fake_Server
  imports Command Example_Datastore
begin

text \<open>
  The fake datastore that \<^verbatim>\<open>cmd/autoupdate\<close> starts by default: the test server of
  \<^verbatim>\<open>internal/test/datastore_server.go\<close> with the values of
  \<^verbatim>\<open>internal/test/datastore_mock.go\<close>.
\<close>

section \<open>Values\<close>

record datastore_values =
  dv_Data :: "string \<rightharpoonup> raw"
  OnlyData :: bool

definition HasPrefix :: "string \<Rightarrow> string \<Rightarrow> bool" where
  "HasPrefix s p \<longleftrightarrow> take (length p) s = p"

definition HasSuffix :: "string \<Rightarrow> string \<Rightarrow> bool" where
  "HasSuffix s p \<longleftrightarrow> HasPrefix (rev s) (rev p)"

text \<open>The value of a key and whether it exists.\<close>

definition DatastoreValues_Value :: "datastore_values \<Rightarrow> string \<Rightarrow> goerror + raw \<times> bool" where
  "DatastoreValues_Value d key =
     (case dv_Data d key of
        Some v \<Rightarrow> Inr (v, True)
      | None \<Rightarrow>
          if OnlyData d then Inr (None, False)
          else if HasPrefix key ''error'' then Inl (EMsg ''mock datastore error'')
          else if HasSuffix key ''_id'' then Inr (Some ''1'', True)
          else if HasSuffix key ''_ids'' then Inr (Some ''[1,2]'', True)
          else Inr (Some (dquote @ ''Hello World'' @ dquote), True))"

definition DatastoreValues_Update :: "data \<Rightarrow> datastore_values \<Rightarrow> datastore_values" where
  "DatastoreValues_Update data d = d\<lparr>dv_Data := fold (\<lambda>(key, v) m. m(key \<mapsto> v)) data (dv_Data d)\<rparr>"

section \<open>Server\<close>

record datastore_server =
  RequestCount :: nat
  ds_values :: datastore_values

definition NewDatastoreServer :: datastore_server where
  "NewDatastoreServer = \<lparr>RequestCount = 0, ds_values = \<lparr>dv_Data = Map.empty, OnlyData = False\<rparr>\<rparr>"

fun server_loop :: "datastore_values \<Rightarrow> string list \<Rightarrow> nested \<Rightarrow> goerror + nested" where
  "server_loop d [] m = Inr m"
| "server_loop d (key # keys) m =
     (case DatastoreValues_Value d key of
        Inl e \<Rightarrow> Inl e
      | Inr (v, False) \<Rightarrow> server_loop d keys m
      | Inr (v, True) \<Rightarrow>
          (case split_n CHR ''/'' 3 key of
             [c, i, f] \<Rightarrow> server_loop d keys (put_nested c i f v m)
           | _ \<Rightarrow> Inl (EPanic ''index out of range'')))"

text \<open>The handler: the response or a panic, and the new state of the server.\<close>

definition server_handler :: "(goerror \<Rightarrow> string) \<Rightarrow> string \<Rightarrow> datastore_server \<Rightarrow> (goerror + response) \<times> datastore_server" where
  "server_handler std body s =
     (let bad = (\<lambda>msg. (Inr \<lparr>StatusCode = 400, Status = ''400 Bad Request'', Body = Inr (msg @ [CHR 0x0A])\<rparr>, s))
      in (case (case decoder_decode body of
                  Inl e \<Rightarrow> Inl (decoder_error e)
                | Inr v \<Rightarrow> map_sum EType id (decode_requests v)) of
            Inl e \<Rightarrow> bad (''Invalid json input: '' @ Error_string std e)
          | Inr keys \<Rightarrow>
              (case server_loop (ds_values s) keys [] of
                 Inl (EPanic m) \<Rightarrow> (Inl (EPanic m), s)
               | Inl e \<Rightarrow> bad (Error_string std e)
               | Inr responceData \<Rightarrow>
                   (Inr \<lparr>StatusCode = 200, Status = ''200 OK'',
                         Body = Inr (case encode_nested responceData of None \<Rightarrow> [] | Some t \<Rightarrow> t @ [CHR 0x0A])\<rparr>,
                    s\<lparr>RequestCount := Suc (RequestCount s)\<rparr>))))"

definition server_client :: "(goerror \<Rightarrow> string) \<Rightarrow> datastore_server http_client" where
  "server_client std =
     \<lparr>NewRequest = (\<lambda>u. None),
      Do = (\<lambda>u body s. map_prod (map_sum (\<lambda>_. EMsg ''EOF'') id) id (server_handler std body s))\<rparr>"

section \<open>The server keeps the contract of the datastore\<close>

text \<open>
  The keys a request may have, and the data it sees. The values in \<open>Data\<close> are canonical JSON; a
  key whose name starts with \<^verbatim>\<open>error\<close> is answered with an error on purpose.
\<close>

definition server_ok :: "datastore_values \<Rightarrow> bool" where
  "server_ok d \<longleftrightarrow> (\<forall>k v. dv_Data d k = Some v \<longrightarrow> v \<noteq> None \<and> canonical_raw v)"

definition server_accepts :: "datastore_values \<Rightarrow> string \<Rightarrow> bool" where
  "server_accepts d k \<longleftrightarrow> list_all is_ascii k \<and> 2 \<le> count_char CHR ''/'' k \<and> \<not> isl (DatastoreValues_Value d k)"

definition server_data :: "datastore_values \<Rightarrow> example_data" where
  "server_data d k =
     (if server_accepts d k then (case DatastoreValues_Value d k of Inr (v, True) \<Rightarrow> v | _ \<Rightarrow> None) else None)"

lemma canonical_defaults:
  "canonical_raw (Some ''1'')" "canonical_raw (Some ''[1,2]'')" "canonical_raw (Some (dquote @ ''Hello World'' @ dquote))"
  by (rule canonical_rawI [of "JNum ''1''"], code_simp)
    (rule canonical_rawI [of "JArr [JNum ''1'', JNum ''2'']"], code_simp,
     rule canonical_rawI [of "JStr ''Hello World''"], code_simp)

lemma Value_canonical:
  assumes "server_ok d" "DatastoreValues_Value d k = Inr (v, True)"
  shows "\<exists>s. v = Some s \<and> canonical_raw (Some s)"
  using assms canonical_defaults
  by (auto simp: DatastoreValues_Value_def server_ok_def split: option.splits if_splits)

lemma server_data_ok: "server_ok d \<Longrightarrow> example_ok (server_data d)"
  using Value_canonical [of d]
  by (fastforce simp: example_ok_def server_data_def server_accepts_def split: if_splits sum.splits prod.splits bool.splits)

lemma server_loop_example:
  assumes "server_ok d" "\<forall>k \<in> set keys. server_accepts d k"
  shows "server_loop d keys m = example_loop (server_data d) keys m"
  using assms(2)
proof (induction keys arbitrary: m)
  case (Cons k keys)
  then have k: "server_accepts d k" by simp
  then obtain v b where v: "DatastoreValues_Value d k = Inr (v, b)"
    unfolding server_accepts_def by (cases "DatastoreValues_Value d k") auto
  show ?case
  proof (cases b)
    case True
    obtain s where "v = Some s"
      using Value_canonical [OF assms(1), of k v] v True by auto
    with Cons k v True show ?thesis
      by (auto simp: server_data_def [of d k] split: list.split)
  next
    case False
    with Cons k v show ?thesis by (simp add: server_data_def [of d k])
  qed
qed simp

lemma server_serves:
  assumes "server_ok d"
  shows "serves (server_client std) u (server_accepts d) (\<lambda>s. ds_values s = d) (server_data d)"
proof -
  have "\<exists>resp s' data. Do (server_client std) u (keysToGetManyRequest keys) s = (Inr resp, s') \<and> ds_values s' = d \<and>
      StatusCode resp = 200 \<and> getManyResponceToKeyValue (Body resp) = Inr data \<and>
      (\<forall>k \<in> set keys. null_to_nil (mraw data k) = null_to_nil (server_data d k))"
    if s: "ds_values s = d" and ks: "\<forall>k \<in> set keys. server_accepts d k" for keys s
  proof -
    have ascii: "\<forall>k \<in> set keys. list_all is_ascii k"
      using ks by (simp add: server_accepts_def)
    have "\<exists>resp w' data. Do (example_client std) u (keysToGetManyRequest keys) (server_data d) = (Inr resp, w') \<and>
        w' = server_data d \<and> StatusCode resp = 200 \<and> getManyResponceToKeyValue (Body resp) = Inr data \<and>
        (\<forall>k \<in> set keys. null_to_nil (mraw data k) = null_to_nil (server_data d k))"
      using example_serves [OF server_data_ok [OF assms], of std u] ascii unfolding serves_def by blast
    then obtain resp data where ex: "map_sum (\<lambda>_. EMsg ''EOF'') id (exampleHandler std (server_data d) (keysToGetManyRequest keys)) = Inr resp"
      "StatusCode resp = 200" "getManyResponceToKeyValue (Body resp) = Inr data"
      "\<forall>k \<in> set keys. null_to_nil (mraw data k) = null_to_nil (server_data d k)"
      by (auto simp: example_client_def)
    obtain m where m: "example_loop (server_data d) keys [] = Inr m"
      using ex(1) decode_requests_round_trip [OF ascii] by (auto simp: exampleHandler_def split: sum.splits)
    have "Do (server_client std) u (keysToGetManyRequest keys) s = (Inr resp, s\<lparr>RequestCount := Suc (RequestCount s)\<rparr>)"
      using ex(1) decode_requests_round_trip [OF ascii] m server_loop_example [OF assms ks, of "[]"] s
      by (simp add: server_client_def server_handler_def exampleHandler_def)
    with ex(2-4) s show ?thesis by simp
  qed
  then show ?thesis
    unfolding serves_def by (simp add: server_client_def)
qed

section \<open>Properties\<close>

text \<open>The value that a new server has for a key.\<close>

definition default_value :: "string \<Rightarrow> string" where
  "default_value key =
     (if HasSuffix key ''_id'' then ''1'' else if HasSuffix key ''_ids'' then ''[1,2]''
      else dquote @ ''Hello World'' @ dquote)"

lemma new_server:
  "server_ok (ds_values NewDatastoreServer)"
  "server_accepts (ds_values NewDatastoreServer) k \<longleftrightarrow>
     list_all is_ascii k \<and> 2 \<le> count_char CHR ''/'' k \<and> \<not> HasPrefix k ''error''"
  "server_accepts (ds_values NewDatastoreServer) k \<Longrightarrow> server_data (ds_values NewDatastoreServer) k = Some (default_value k)"
  by (auto simp: server_ok_def server_accepts_def server_data_def DatastoreValues_Value_def NewDatastoreServer_def
      default_value_def)



lemma quiescent_SetIfExist:
  assumes "quiescent c" "wf_map data"
  shows "quiescent (SetIfExist data c)"
proof -
  have "pending (SetIfExist data c) k = None" for k
  proof (cases "k \<in> fst ` set data")
    case True
    then obtain x where "(k, x) \<in> set data" by force
    from SetIfExist_in [OF assms(2) this, of c] show ?thesis by simp
  next
    case False
    from SetIfExist_notin [OF this, of c] assms(1) show ?thesis by (simp add: quiescent_def)
  qed
  then have "pending (SetIfExist data c) = Map.empty" by auto
  with assms(1) show ?thesis by (simp add: quiescent_def cache_ok_SetIfExist)
qed

lemma Get_cached_key:
  assumes "quiescent (cache_of d)" "cdata (cache_of d) k = Some x"
  shows "fst (Get http [k] d w) = Inr [x]"
  using GetOrSet_cached [OF assms(1), of "[k]" "requestKeys http (url d)" w] assms(2) by (simp add: Get_def)

lemma Get_fake_key:
  assumes "quiescent (cache_of d)" "cdata (cache_of d) k = None" "ds_values s = ds_values NewDatastoreServer"
    and "server_accepts (ds_values NewDatastoreServer) k"
  shows "fst (Get (server_client std) [k] d s) = Inr [Some (default_value k)]"
proof -
  let ?c = "cache_of d" and ?dv = "ds_values NewDatastoreServer" and ?ks = "missing_keys [k] (cache_of d)"
  let ?req = "requestKeys (server_client std) (url d)"
  have ks: "set ?ks = {k}"
    unfolding missing_keys_quiescent(1) [OF assms(1)] using assms(2) by auto
  then have "?ks \<noteq> []"
    by (metis insert_not_empty list.set(1))
  note ks = ks this
  have acc: "\<forall>k' \<in> set ?ks. server_accepts ?dv k'"
    unfolding ks(1) using  assms(4) by simp
  obtain data s' where r: "?req ?ks s = (Inr data, s')" "wf_map data"
    "\<forall>k' \<in> set ?ks. null_to_nil (mraw data k') = null_to_nil (server_data ?dv k')"
    using requestKeys_serves [OF server_serves [OF new_server(1), of std "url d"] assms(3) acc] by blast

  obtain c where "GetOrSet ?req [k] ?c s = (Inr (map (cached_or ?c data) [k]), c, s')"
    using GetOrSet_fetched [where setf = ?req, OF assms(1) ks(2) r(1,2)] by blast
  moreover have "null_to_nil (mraw data k) = null_to_nil (Some (default_value k))"
    using r(3) [unfolded ks(1)] new_server(3) [OF assms(4)] by simp
  then have "cached_or ?c data k = Some (default_value k)"
    using assms(2) by (simp add: cached_or_def) (simp add: null_to_nil_def default_value_def split: if_splits)
  ultimately show ?thesis
    unfolding Get_def by simp
qed

text \<open>
  C39. In the fake mode an update of a key is lost when no client has asked for the key before:
  the updater returns the new value and the cache drops it, but the fake server, which
  \<^verbatim>\<open>Update\<close> never changes, keeps its value, and the next \<^verbatim>\<open>Get\<close> returns that one.
  Only for a key in the cache it returns the new value.
\<close>

theorem fake_update_lost:
  assumes "assignments_ok [(k, v)]" "faker_buf f = assignments_line [(k, v)] @ CHR 0x0A # rest"
    and "quiescent (cache_of d)" "ds_values s = ds_values NewDatastoreServer"
    and "server_accepts (ds_values NewDatastoreServer) k"
  shows "\<exists>data. faker_Update now (Some f) = Some (Inr data, f\<lparr>faker_buf := rest\<rparr>) \<and> data = [(k, Some v)] \<and>
    fst (Get (server_client std) [k] (d\<lparr>cache_of := SetIfExist data (cache_of d)\<rparr>) s) =
      Inr [if cdata (cache_of d) k = None then Some (default_value k) else null_to_nil (Some v)]"
proof -
  let ?d = "d\<lparr>cache_of := SetIfExist [(k, Some v)] (cache_of d)\<rparr>"
  have upd: "faker_Update now (Some f) = Some (Inr [(k, Some v)], f\<lparr>faker_buf := rest\<rparr>)"
    using ReadString_line [OF split_assignments(3) [OF assms(1)] assms(2)] faker_line_data [OF assms(1), of now]
    by (simp add: faker_Update_def mput_def)
  have q: "quiescent (cache_of ?d)"
    using quiescent_SetIfExist [OF assms(3), of "[(k, Some v)]"] by (simp add: wf_map_def)
  have "cdata (cache_of ?d) k = (if cdata (cache_of d) k = None then None else Some (null_to_nil (Some v)))"
    using assms(3) by (simp add: quiescent_keyState)
  then have "fst (Get (server_client std) [k] ?d s) =
      Inr [if cdata (cache_of d) k = None then Some (default_value k) else null_to_nil (Some v)]"
    using Get_cached_key [OF q, of k "null_to_nil (Some v)" "server_client std" s] Get_fake_key [OF q _ assms(4,5), of std]
    by (cases "cdata (cache_of d) k = None") (simp_all only: if_True if_False simp_thms)
  with upd show ?thesis by (intro exI conjI) (assumption | rule refl)+
qed

theorem fake_update_lost_witness:
  "fst (Get (server_client (\<lambda>_. [])) [''user/1/age'']
     ((New [] :: unit datastore)\<lparr>cache_of := SetIfExist [(''user/1/age'', Some ''5'')] newCache\<rparr>) NewDatastoreServer) =
   Inr [Some (dquote @ ''Hello World'' @ dquote)]"
proof -
  let ?d = "New [] :: unit datastore" and ?ps = "[(''user/1/age'', ''5'')]"
  let ?f = "newFaker [] (assignments_line ?ps @ [CHR 0x0A]) None"
  have "assignments_ok ?ps" "faker_buf ?f = assignments_line ?ps @ [CHR 0x0A]" "quiescent (cache_of ?d)"
    by (simp_all add: assignments_ok_def is_space_def newFaker_def New_def)
  moreover have "server_accepts (ds_values NewDatastoreServer) ''user/1/age''"
    by (simp add: new_server is_ascii_def in_range_def count_char_def HasPrefix_def)
  ultimately obtain data where "data = [(''user/1/age'', Some ''5'')]"
    "fst (Get (server_client (\<lambda>_. [])) [''user/1/age''] (?d\<lparr>cache_of := SetIfExist data (cache_of ?d)\<rparr>) NewDatastoreServer) =
      Inr [if cdata (cache_of ?d) ''user/1/age'' = None then Some (default_value ''user/1/age'') else null_to_nil (Some ''5'')]"
    using fake_update_lost [OF _ _ _ refl, of "''user/1/age''" "''5''" ?f "[]" ?d "[]" "\<lambda>_. []"] by blast
  moreover have "cache_of ?d = newCache" "cdata newCache ''user/1/age'' = None"
    by (simp_all add: New_def newCache_def)
  moreover have "default_value ''user/1/age'' = dquote @ ''Hello World'' @ dquote"
    by (simp add: default_value_def HasSuffix_def HasPrefix_def)
  ultimately show ?thesis
    by (simp only: if_True simp_thms)
qed

end
