(* ===== verification/Tools.thy ===== *)
theory Tools
  imports Redis Restrict Example_Datastore
begin

text \<open>
  The tools of the repository: the generator of the example data
  (\<^verbatim>\<open>cmd/datastore/example_data/main.go\<close>), the generator of the table of relation lists
  (\<^verbatim>\<open>internal/restrict/gendef/main.go\<close>) and the load generator
  (\<^verbatim>\<open>cmd/performance\<close>).

  HTTP requests are parameters. The lines that \<^verbatim>\<open>bufio.Scanner\<close> returns and the error
  with which it ends are given.
\<close>

section \<open>Generator of the example data\<close>

definition exampleDataURL :: string where
  "exampleDataURL = ''https://raw.githubusercontent.com/OpenSlides/OpenSlides/openslides4-dev/docs/example-data.json''"

definition loadExampleData :: "(string \<Rightarrow> 'w \<Rightarrow> (goerror + response) \<times> 'w) \<Rightarrow> 'w \<Rightarrow> (goerror + (goerror + string)) \<times> 'w" where
  "loadExampleData get w =
     (case get exampleDataURL w of
        (Inl e, w') \<Rightarrow> (Inl (EWrap ''request defition: '' e), w')
      | (Inr r, w') \<Rightarrow>
          if StatusCode r \<noteq> 200 then (Inl (EMsg (''request returned status '' @ Status r)), w')
          else (Inr (Body r), w'))"

text \<open>The loops of \<^verbatim>\<open>decode\<close>: over the elements of a collection and over the collections.\<close>

fun example_elements :: "string \<Rightarrow> nat \<Rightarrow> (string, raw) gomap list \<Rightarrow> (string, string) gomap \<Rightarrow> goerror + (string, string) gomap" where
  "example_elements c i [] data = Inr data"
| "example_elements c i (element # v) data =
     (case unmarshal decode_int (raw_bytes (mraw element ''id'')) of
        Inl e \<Rightarrow> Inl (EMsg (''decoding id of '' @ show_nat i @ ''th element in collection '' @ c))
      | Inr id' \<Rightarrow>
          example_elements c (Suc i) v
            (mput_all (map (\<lambda>(k, x). (c @ ''/'' @ Itoa id' @ ''/'' @ k, raw_bytes x)) element) data))"

fun example_collections :: "(string, (string, raw) gomap list) gomap \<Rightarrow> (string, string) gomap \<Rightarrow> goerror + (string, string) gomap" where
  "example_collections [] data = Inr data"
| "example_collections ((c, v) # d) data =
     (case example_elements c 0 v data of
        Inl e \<Rightarrow> Inl e
      | Inr data' \<Rightarrow> example_collections d data')"

definition example_decode :: "goerror + string \<Rightarrow> goerror + (string, string) gomap" where
  "example_decode r =
     (case (case r of
              Inl e \<Rightarrow> Inl e
            | Inr body \<Rightarrow>
                (case decoder_decode body of
                   Inl e \<Rightarrow> Inl (decoder_error e)
                 | Inr v \<Rightarrow>
                     map_sum EType id (decode_gomap (\<lambda>_. decode_slice TMap (decode_gomap (\<lambda>t _. Inr (Some t)))) v))) of
        Inl e \<Rightarrow> Inl (EWrap ''decoding full file: '' e)
      | Inr d \<Rightarrow> example_collections d [])"

text \<open>
  The template, over the entries in the order of their keys, and the writer that replaces the byte
  1 by a backtick.
\<close>

definition escape :: char where
  "escape = CHR 0x01"

definition example_line :: "string \<times> string \<Rightarrow> string" where
  "example_line kv = [CHR 0x0A, CHR 0x09, CHR 0x22] @ fst kv @ [CHR 0x22] @ '': []byte('' @ [escape] @ snd kv @ [escape] @ ''),''"

definition example_tpl :: "(string, string) gomap \<Rightarrow> string" where
  "example_tpl data =
     ''// Code generated with example-data.json DO NOT EDIT.'' @ [CHR 0x0A] @ ''package main'' @ [CHR 0x0A, CHR 0x0A] @
     ''import '' @ [CHR 0x22] @ ''encoding/json'' @ [CHR 0x22, CHR 0x0A, CHR 0x0A] @
     ''var exampleData = map[string]json.RawMessage{'' @ concat (map example_line (sort_key fst data)) @
     [CHR 0x0A, CHR ''}'', CHR 0x0A]"

definition replacer_Write :: "string \<Rightarrow> string" where
  "replacer_Write p = map (\<lambda>b. if b = escape then CHR 0x60 else b) p"

definition example_main :: "(string \<Rightarrow> 'w \<Rightarrow> (goerror + response) \<times> 'w) \<Rightarrow> 'w \<Rightarrow> (goerror + string) \<times> 'w" where
  "example_main get w =
     (case loadExampleData get w of
        (Inl e, w') \<Rightarrow> (Inl (EWrap ''Can not load example data: '' e), w')
      | (Inr r, w') \<Rightarrow>
          (case example_decode r of
             Inl e \<Rightarrow> (Inl (EWrap ''Can not decode example data: '' e), w')
           | Inr data \<Rightarrow> (Inr (replacer_Write (example_tpl data)), w')))"

section \<open>Generator of the relation lists\<close>

definition defURL :: string where
  "defURL = ''https://raw.githubusercontent.com/OpenSlides/OpenSlides/openslides4-dev/docs/models.txt''"

definition loadDefition :: "(string \<Rightarrow> 'w \<Rightarrow> (goerror + response) \<times> 'w) \<Rightarrow> 'w \<Rightarrow> (goerror + (goerror + string)) \<times> 'w" where
  "loadDefition get w =
     (case get defURL w of
        (Inl e, w') \<Rightarrow> (Inl (EWrap ''request defition: '' e), w')
      | (Inr r, w') \<Rightarrow>
          if StatusCode r \<noteq> 200 then (Inl (EMsg (''request returned status '' @ Status r)), w')
          else (Inr (Body r), w'))"

text \<open>
  The three regular expressions. The classes of consecutive parts are disjoint, so that every part
  takes the longest text.
\<close>

definition is_name :: "char \<Rightarrow> bool" where
  "is_name c \<longleftrightarrow> in_range 97 122 c \<or> c = CHR ''_''"

definition is_re_space :: "char \<Rightarrow> bool" where
  "is_re_space c \<longleftrightarrow> c \<in> {CHR 0x09, CHR 0x0A, CHR 0x0C, CHR 0x0D, CHR 0x20}"

definition strip_prefix :: "string \<Rightarrow> string \<Rightarrow> string option" where
  "strip_prefix p s = (if take (length p) s = p then Some (drop (length p) s) else None)"

text \<open>\<^verbatim>\<open>^Interface ([a-z_]+) {$\<close>\<close>

definition reInterface :: "string \<Rightarrow> string option" where
  "reInterface line =
     (case strip_prefix ''Interface '' line of
        None \<Rightarrow> None
      | Some r \<Rightarrow>
          (let m = takeWhile is_name r
           in if m \<noteq> [] \<and> dropWhile is_name r = '' {'' then Some m else None))"

text \<open>The optional \<^verbatim>\<open>\$<[^>]+>\<close> of a template field: its text and the rest.\<close>

definition template_part :: "string \<Rightarrow> string \<times> string" where
  "template_part s =
     (case strip_prefix ''$<'' s of
        None \<Rightarrow> ([], s)
      | Some r \<Rightarrow>
          (let t = takeWhile (\<lambda>c. c \<noteq> CHR ''>'') r
           in (case dropWhile (\<lambda>c. c \<noteq> CHR ''>'') r of
                 [] \<Rightarrow> ([], s)
               | c # rest \<Rightarrow> if t = [] then ([], s) else (''$<'' @ t @ ''>'', rest))))"

text \<open>The end of the line: \<^verbatim>\<open>: \((\*|[a-z_]+)/[^)]*\)\[\];\s*(?://.*)?$\<close>\<close>

definition relation_target :: "string \<Rightarrow> string option" where
  "relation_target s =
     (case strip_prefix '': ('' s of
        None \<Rightarrow> None
      | Some r \<Rightarrow>
          (let target = (if take 1 r = ''*'' then ''*'' else takeWhile is_name r)
           in if target = [] then None
              else (case strip_prefix ''/'' (drop (length target) r) of
                      None \<Rightarrow> None
                    | Some r2 \<Rightarrow>
                        (case strip_prefix '')[];'' (dropWhile (\<lambda>c. c \<noteq> CHR '')'') r2) of
                           None \<Rightarrow> None
                         | Some r3 \<Rightarrow>
                             (let r4 = dropWhile is_re_space r3
                              in if r4 = [] \<or> take 2 r4 = ''//'' then Some target else None)))))"

definition reRelationField :: "string \<Rightarrow> (string \<times> string) option" where
  "reRelationField line =
     (let s = dropWhile is_re_space line;
          w1 = takeWhile is_word s;
          (t, r) = template_part (dropWhile is_word s);
          w2 = takeWhile is_word r
      in if w1 = [] then None
         else map_option (Pair (w1 @ t @ w2)) (relation_target (dropWhile is_word r)))"

text \<open>\<^verbatim>\<open>ReplaceAllString(key, "")\<close> for \<^verbatim>\<open><[^>]+>\<close>\<close>

function reTemplateID_remove :: "string \<Rightarrow> string" where
  "reTemplateID_remove [] = []"
| "reTemplateID_remove (c # cs) =
     (let t = takeWhile (\<lambda>c. c \<noteq> CHR ''>'') cs; r = dropWhile (\<lambda>c. c \<noteq> CHR ''>'') cs
      in if c = CHR ''<'' \<and> t \<noteq> [] \<and> r \<noteq> [] then reTemplateID_remove (tl r)
         else c # reTemplateID_remove cs)"
  by pat_completeness auto
termination
  by (relation "measure length")
    (auto simp: Let_def intro: le_imp_less_Suc order_trans [OF diff_le_self length_dropWhile_le])

fun gendef_scan :: "string list \<Rightarrow> string \<Rightarrow> (string, string) gomap \<Rightarrow> (string, string) gomap" where
  "gendef_scan [] currentModel out = out"
| "gendef_scan (line # rest) currentModel out =
     (case reInterface line of
        Some m \<Rightarrow> gendef_scan rest m out
      | None \<Rightarrow>
          if currentModel = [] then gendef_scan rest currentModel out
          else (case reRelationField line of
                  Some (field, target) \<Rightarrow>
                    gendef_scan rest currentModel (mput (reTemplateID_remove (currentModel @ ''/'' @ field)) target out)
                | None \<Rightarrow> gendef_scan rest currentModel out))"

definition gendef_parse :: "string list \<Rightarrow> goerror option \<Rightarrow> goerror + (string, string) gomap" where
  "gendef_parse input e =
     (let out = gendef_scan input [] []
      in (case e of None \<Rightarrow> Inr out | Some err \<Rightarrow> Inl (EWrap ''scanning: '' err)))"

definition gendef_tpl :: "(string, string) gomap \<Rightarrow> string" where
  "gendef_tpl rlist =
     ''// Code generated with models.txt DO NOT EDIT.'' @ [CHR 0x0A] @ ''package restrict'' @ [CHR 0x0A, CHR 0x0A] @
     ''var relationLists = map[string]string{'' @
     concat (map (\<lambda>(k, v). [CHR 0x0A, CHR 0x09, CHR 0x22] @ k @ [CHR 0x22] @ '': '' @ [CHR 0x22] @ v @ [CHR 0x22, CHR '','']) (sort_key fst rlist)) @
     [CHR 0x0A, CHR ''}'', CHR 0x0A]"

text \<open>\<open>scan\<close> gives the lines of the body and the error with which the scanner ends.\<close>

definition gendef_main :: "(string \<Rightarrow> 'w \<Rightarrow> (goerror + response) \<times> 'w) \<Rightarrow> (goerror + string \<Rightarrow> string list \<times> goerror option)
    \<Rightarrow> 'w \<Rightarrow> (goerror + string) \<times> 'w" where
  "gendef_main get scan w =
     (case loadDefition get w of
        (Inl e, w') \<Rightarrow> (Inl (EWrap ''Can not load defition: '' e), w')
      | (Inr r, w') \<Rightarrow>
          (case gendef_parse (fst (scan r)) (snd (scan r)) of
             Inl e \<Rightarrow> (Inl (EWrap ''Can not parse model definition: '' e), w')
           | Inr data \<Rightarrow> (Inr (gendef_tpl data), w')))"

section \<open>Load generator\<close>

definition connections :: nat where
  "connections = 5000"

definition perf_keyName :: string where
  "perf_keyName = ''user/5/name''"

definition perf_url :: string where
  "perf_url = ''https://localhost:9012/system/autoupdate/keys?'' @ perf_keyName"

definition redisTopic :: string where
  "redisTopic = ''ModifiedFields''"

definition newPool :: "string \<Rightarrow> pool" where
  "newPool addr = \<lparr>MaxActive = 10, Wait = True, MaxIdle = 2, IdleTimeout = 240, Dial = (''tcp'', addr)\<rparr>"

definition sendKey :: "(string \<Rightarrow> string list \<Rightarrow> 'w \<Rightarrow> (goerror + reply) \<times> 'w) \<Rightarrow> string \<Rightarrow> 'w \<Rightarrow> goerror option \<times> 'w" where
  "sendKey do_cmd key w =
     (case do_cmd ''XADD'' [redisTopic, ''*'', key, [CHR 0x22] @ ''new value'' @ [CHR 0x22]] w of
        (Inl e, w') \<Rightarrow> (Some (EWrap ''Can not send data to redis: '' e), w')
      | (Inr _, w') \<Rightarrow> (None, w'))"

text \<open>The response of the service, or the error of \<^verbatim>\<open>connect\<close>.\<close>

definition connect :: "'w http_client \<Rightarrow> 'w \<Rightarrow> (goerror + response) \<times> 'w" where
  "connect http w =
     (case NewRequest http perf_url of
        Some e \<Rightarrow> (Inl (EWrap ''create request: '' e), w)
      | None \<Rightarrow>
          (case Do http perf_url [] w of
             (Inl e, w') \<Rightarrow> (Inl (EWrap ''send request: '' e), w')
           | (Inr resp, w') \<Rightarrow>
               if StatusCode resp \<noteq> 200 then
                 (case Body resp of
                    Inl e \<Rightarrow> (Inl (EMsg (''server returned '' @ Status resp)), w')
                  | Inr body \<Rightarrow> (Inl (EMsg (''server returned '' @ Status resp @ '': '' @ body)), w'))
               else (Inr resp, w')))"

text \<open>
  The loop that reads the body, over the results of \<^verbatim>\<open>Read\<close> with a buffer of 1024 bytes: the
  messages that are sent to the channel, and the error with which the process ends. \<open>data\<close>
  is what has been read of the current message.
\<close>

fun read_messages :: "(string \<times> goerror option) list \<Rightarrow> string \<Rightarrow> string list \<times> goerror option" where
  "read_messages [] data = ([], None)"
| "read_messages ((buf, err) # reads) data =
     (case err of
        Some e \<Rightarrow> ([], Some (EWrap ''Can not read from response body: '' e))
      | None \<Rightarrow>
          if length buf < 1024 then map_prod (Cons (data @ buf)) id (read_messages reads [])
          else read_messages reads (data @ buf))"

text \<open>Taking \<open>n\<close> messages from the channel; \<open>None\<close> means that it waits for more.\<close>

fun readClients :: "nat \<Rightarrow> string list \<Rightarrow> string list option" where
  "readClients 0 ch = Some ch"
| "readClients (Suc n) [] = None"
| "readClients (Suc n) (m # ch) = readClients n ch"

section \<open>The generated example data\<close>

lemma example_key_slashes: "2 \<le> count_char CHR ''/'' (c @ ''/'' @ i @ ''/'' @ k)"
  by (simp add: count_char_def)

lemma example_elements_keys:
  "example_elements c i v data = Inr data' \<Longrightarrow> k \<in> fst ` set data' \<Longrightarrow> k \<in> fst ` set data \<or> 2 \<le> count_char CHR ''/'' k"
proof (induction c i v data rule: example_elements.induct)
  case (2 c i element v data)
  then obtain id' where i: "unmarshal decode_int (raw_bytes (mraw element ''id'')) = Inr id'"
    by (auto split: sum.splits)
  let ?es = "map (\<lambda>(k, x). (c @ ''/'' @ Itoa id' @ ''/'' @ k, raw_bytes x)) element"
  have "k \<in> fst ` set (mput_all ?es data) \<or> 2 \<le> count_char CHR ''/'' k"
    using 2(1) [OF i] 2(2,3) i by simp
  moreover have "2 \<le> count_char CHR ''/'' k" if "k \<in> fst ` set ?es"
    using that example_key_slashes by auto
  ultimately show ?case
    unfolding keys_mput_all by blast
qed simp

lemma example_collections_keys:
  "example_collections d data = Inr data' \<Longrightarrow> k \<in> fst ` set data' \<Longrightarrow> k \<in> fst ` set data \<or> 2 \<le> count_char CHR ''/'' k"
proof (induction d data rule: example_collections.induct)
  case (2 c v d data)
  then obtain data1 where "example_elements c 0 v data = Inr data1"
    by (auto split: sum.splits)
  with 2 example_elements_keys [OF this, of k] show ?case by auto
qed simp

text \<open>The example server never panics on generated data.\<close>

lemma example_decode_serves:
  assumes "example_decode r = Inr data"
  shows "\<exists>m'. example_loop (map_of data) keys m = Inr m'"
proof (induction keys arbitrary: m)
  case (Cons k keys)
  have "\<exists>c i f. split_n CHR ''/'' 3 k = [c, i, f]" if "map_of data k = Some v" for v
  proof -
    have "k \<in> fst ` set data"
      using map_of_SomeD [OF that] by force
    then have "2 \<le> count_char CHR ''/'' k"
      using assms example_collections_keys [of _ "[]" data k] by (auto simp: example_decode_def split: sum.splits)
    then show ?thesis
      by (rule split_key) blast
  qed
  with Cons show ?case
    by (cases "map_of data k") fastforce+
qed simp

section \<open>The generated table of relation lists\<close>

text \<open>A field with a list of relations in a model definition, and its line.\<close>

record relation_field =
  rf_name :: string
  rf_template :: "(string \<times> string) option"
  rf_target :: string
  rf_path :: string
  rf_comment :: string

definition relation_line :: "relation_field \<Rightarrow> string" where
  "relation_line f =
     ''  '' @ rf_name f @ (case rf_template f of None \<Rightarrow> [] | Some (t, w) \<Rightarrow> ''$<'' @ t @ ''>'' @ w) @
     '': ('' @ rf_target f @ ''/'' @ rf_path f @ '')[];'' @ (if rf_comment f = [] then [] else '' //'' @ rf_comment f)"

definition field_name :: "relation_field \<Rightarrow> string" where
  "field_name f = rf_name f @ (case rf_template f of None \<Rightarrow> [] | Some (t, w) \<Rightarrow> ''$'' @ w)"

definition relation_field_ok :: "relation_field \<Rightarrow> bool" where
  "relation_field_ok f \<longleftrightarrow>
     rf_name f \<noteq> [] \<and> list_all is_word (rf_name f) \<and>
     (case rf_template f of None \<Rightarrow> True | Some (t, w) \<Rightarrow> t \<noteq> [] \<and> CHR ''>'' \<notin> set t \<and> list_all is_word w) \<and>
     (rf_target f = ''*'' \<or> rf_target f \<noteq> [] \<and> list_all is_name (rf_target f)) \<and> CHR '')'' \<notin> set (rf_path f)"

definition model_lines :: "string \<times> relation_field list \<Rightarrow> string list" where
  "model_lines m = (''Interface '' @ fst m @ '' {'') # map relation_line (snd m) @ [''}'']"

definition model_ok :: "string \<times> relation_field list \<Rightarrow> bool" where
  "model_ok m \<longleftrightarrow> fst m \<noteq> [] \<and> list_all is_name (fst m) \<and> list_all relation_field_ok (snd m)"

lemma takeWhile_prefix: "list_all p xs \<Longrightarrow> (ys = [] \<or> \<not> p (hd ys)) \<Longrightarrow> takeWhile p (xs @ ys) = xs \<and> dropWhile p (xs @ ys) = ys"
  by (induction xs) (cases ys; auto)+

lemma takeWhile_char:
  "x \<notin> set xs \<Longrightarrow> takeWhile (\<lambda>c. c \<noteq> x) (xs @ x # ys) = xs" "x \<notin> set xs \<Longrightarrow> dropWhile (\<lambda>c. c \<noteq> x) (xs @ x # ys) = x # ys"
  by (induction xs) auto

lemma strip_prefix_append [simp]: "strip_prefix p (p @ s) = Some s"
  by (simp add: strip_prefix_def)

lemma char_classes [simp]:
  "\<not> is_word CHR '':''" "\<not> is_word CHR ''$''" "\<not> is_word CHR '' ''" "\<not> is_name CHR ''/''" "\<not> is_name CHR '' ''" "\<not> is_word CHR ''}''"
  by (simp_all add: is_word_def is_name_def in_range_def)

lemma reInterface_model: "fst m \<noteq> [] \<Longrightarrow> list_all is_name (fst m) \<Longrightarrow> reInterface (''Interface '' @ fst m @ '' {'') = Some (fst m)"
  using takeWhile_prefix [of is_name "fst m" "'' {''"] unfolding reInterface_def strip_prefix_append by simp

lemma relation_target_line:
  assumes "rf_target f = ''*'' \<or> rf_target f \<noteq> [] \<and> list_all is_name (rf_target f)" "CHR '')'' \<notin> set (rf_path f)"
  shows "relation_target ('': ('' @ rf_target f @ ''/'' @ rf_path f @ '')[];'' @ (if rf_comment f = [] then [] else '' //'' @ rf_comment f)) =
    Some (rf_target f)"
proof -
  let ?rest = "if rf_comment f = [] then [] else '' //'' @ rf_comment f"
  let ?r = "rf_target f @ ''/'' @ rf_path f @ '')[];'' @ ?rest"
  have target: "(if take 1 ?r = ''*'' then ''*'' else takeWhile is_name ?r) = rf_target f" "rf_target f \<noteq> []"
  proof -
    show "rf_target f \<noteq> []" using assms(1) by auto
    show "(if take 1 ?r = ''*'' then ''*'' else takeWhile is_name ?r) = rf_target f"
    proof (cases "rf_target f = ''*''")
      case False
      then have name: "rf_target f \<noteq> []" "list_all is_name (rf_target f)" using assms(1) by auto
      then have "take 1 ?r \<noteq> ''*''"
        by (cases "rf_target f") (auto simp: is_name_def in_range_def)
      then show ?thesis
        using takeWhile_prefix [of is_name "rf_target f" "''/'' @ rf_path f @ '')[];'' @ ?rest"] name by simp
    qed simp
  qed
  have path: "dropWhile (\<lambda>c. c \<noteq> CHR '')'') (rf_path f @ '')[];'' @ ?rest) = '')[];'' @ ?rest"
    using takeWhile_char(2) [OF assms(2), of "''[];'' @ ?rest"] by simp
  have rest: "dropWhile is_re_space ?rest = [] \<or> take 2 (dropWhile is_re_space ?rest) = ''//''"
    by (simp add: is_re_space_def)
  have tail: "drop (length (rf_target f)) ?r = ''/'' @ rf_path f @ '')[];'' @ ?rest"
    by simp
  show ?thesis
    unfolding relation_target_def strip_prefix_append option.case Let_def target(1) tail path
    using target(2) rest by (simp only: if_False if_True)
qed

lemma template_part_none: "template_part ('': ('' @ s) = ([], '': ('' @ s)"
  by (simp add: template_part_def strip_prefix_def)

lemma template_part_some:
  assumes "t \<noteq> []" "CHR ''>'' \<notin> set t"
  shows "template_part (''$<'' @ t @ ''>'' @ s) = (''$<'' @ t @ ''>'', s)"
proof -
  have "takeWhile (\<lambda>c. c \<noteq> CHR ''>'') (t @ ''>'' @ s) = t" "dropWhile (\<lambda>c. c \<noteq> CHR ''>'') (t @ ''>'' @ s) = ''>'' @ s"
    using takeWhile_char [OF assms(2), of s] by simp_all
  then show ?thesis
    unfolding template_part_def strip_prefix_append option.case Let_def using assms(1) by simp
qed

lemma reRelationField_line:
  assumes "relation_field_ok f"
  shows "reRelationField (relation_line f) =
    Some (rf_name f @ (case rf_template f of None \<Rightarrow> [] | Some (t, w) \<Rightarrow> ''$<'' @ t @ ''>'' @ w), rf_target f)"
proof -
  let ?rest = "'': ('' @ rf_target f @ ''/'' @ rf_path f @ '')[];'' @ (if rf_comment f = [] then [] else '' //'' @ rf_comment f)"
  let ?tw = "case rf_template f of None \<Rightarrow> [] | Some (t, w) \<Rightarrow> ''$<'' @ t @ ''>'' @ w"
  have ok: "rf_name f \<noteq> []" "list_all is_word (rf_name f)"
    "rf_target f = ''*'' \<or> rf_target f \<noteq> [] \<and> list_all is_name (rf_target f)" "CHR '')'' \<notin> set (rf_path f)"
    using assms by (auto simp: relation_field_ok_def)
  have "\<not> is_re_space (hd (rf_name f))"
    using ok(1,2) by (cases "rf_name f") (auto simp: is_re_space_def is_word_def in_range_def)
  then have space: "dropWhile is_re_space (relation_line f) = rf_name f @ ?tw @ ?rest"
    using ok(1) by (cases "rf_name f") (simp_all add: relation_line_def is_re_space_def)
  have "?tw @ ?rest = [] \<or> \<not> is_word (hd (?tw @ ?rest))"
    by (simp split: option.split prod.split)
  note name = takeWhile_prefix [OF ok(2) this]
  have target: "relation_target ?rest = Some (rf_target f)"
    by (rule relation_target_line [OF ok(3,4)])
  show ?thesis
  proof (cases "rf_template f")
    case None
    have "takeWhile is_word ?rest = []" "dropWhile is_word ?rest = ?rest" by simp_all
    with None name target ok(1) template_part_none [of "drop 3 ?rest"] show ?thesis
      unfolding reRelationField_def space Let_def by simp
  next
    case (Some tw)
    obtain t w where tw: "tw = (t, w)" by (cases tw)
    have t: "t \<noteq> []" "CHR ''>'' \<notin> set t" "list_all is_word w"
      using assms Some tw by (auto simp: relation_field_ok_def)
    have "takeWhile is_word (w @ ?rest) = w" "dropWhile is_word (w @ ?rest) = ?rest"
      using takeWhile_prefix [of is_word w ?rest] t(3) by auto
    with Some tw name target ok(1) template_part_some [OF t(1,2), of "w @ ?rest"] show ?thesis
      unfolding reRelationField_def space Let_def by simp
  qed
qed

lemma remove_plain: "CHR ''<'' \<notin> set p \<Longrightarrow> reTemplateID_remove (p @ s) = p @ reTemplateID_remove s"
  by (induction p) (auto simp: Let_def)

lemma remove_template:
  assumes "t \<noteq> []" "CHR ''>'' \<notin> set t"
  shows "reTemplateID_remove (''<'' @ t @ ''>'' @ s) = reTemplateID_remove s"
proof -
  have "takeWhile (\<lambda>c. c \<noteq> CHR ''>'') (t @ ''>'' @ s) = t" "dropWhile (\<lambda>c. c \<noteq> CHR ''>'') (t @ ''>'' @ s) = ''>'' @ s"
    using takeWhile_char [OF assms(2), of s] by simp_all
  with assms(1) show ?thesis by (simp add: Let_def)
qed

lemma word_no_angle: "list_all is_word w \<Longrightarrow> CHR ''<'' \<notin> set w"
  by (auto simp: list_all_iff is_word_def in_range_def)

lemma name_no_angle: "list_all is_name w \<Longrightarrow> CHR ''<'' \<notin> set w"
  by (auto simp: list_all_iff is_name_def in_range_def)

lemma remove_field:
  assumes "relation_field_ok f" "list_all is_name m"
  shows "reTemplateID_remove (m @ ''/'' @ rf_name f @ (case rf_template f of None \<Rightarrow> [] | Some (t, w) \<Rightarrow> ''$<'' @ t @ ''>'' @ w)) =
    m @ ''/'' @ field_name f"
proof -
  have m: "CHR ''<'' \<notin> set m" "CHR ''<'' \<notin> set (rf_name f)"
    using name_no_angle [OF assms(2)] word_no_angle assms(1) by (auto simp: relation_field_ok_def)
  show ?thesis
  proof (cases "rf_template f")
    case None
    have "CHR ''<'' \<notin> set (m @ ''/'' @ rf_name f)" using m by simp
    from remove_plain [OF this, of "[]"] None show ?thesis by (simp add: field_name_def)
  next
    case (Some tw)
    obtain t w where tw: "tw = (t, w)" by (cases tw)
    have t: "t \<noteq> []" "CHR ''>'' \<notin> set t" "CHR ''<'' \<notin> set w"
      using assms(1) Some tw word_no_angle by (auto simp: relation_field_ok_def)
    have "CHR ''<'' \<notin> set (m @ ''/'' @ rf_name f @ ''$'')" using m by simp
    from remove_plain [OF this, of "''<'' @ t @ ''>'' @ w"] remove_template [OF t(1,2), of w] remove_plain [OF t(3), of "[]"]
    show ?thesis
      using Some tw by (simp add: field_name_def)
  qed
qed

lemma reInterface_other: "reInterface (relation_line f) = None" "reInterface ''}'' = None" "reRelationField ''}'' = None"
  by (simp_all add: reInterface_def relation_line_def strip_prefix_def reRelationField_def is_re_space_def template_part_def)

lemma gendef_scan_fields:
  assumes "m \<noteq> []" "list_all is_name m" "list_all relation_field_ok fs"
  shows "gendef_scan (map relation_line fs @ ''}'' # rest) m out =
    gendef_scan rest m (mput_all (map (\<lambda>f. (m @ ''/'' @ field_name f, rf_target f)) fs) out)"
  using assms(3)
proof (induction fs arbitrary: out)
  case (Cons f fs)
  then show ?case
    using assms(1) remove_field [OF _ assms(2), of f] by (simp add: reInterface_other reRelationField_line)
qed (simp add: assms(1) reInterface_other)


definition user_model :: "string \<times> relation_field list" where
  "user_model = (''user'',
     [\<lparr>rf_name = ''projection_ids'', rf_template = None, rf_target = ''projection'', rf_path = ''content_object_id'', rf_comment = []\<rparr>,
      \<lparr>rf_name = ''speaker_'', rf_template = Some (''meeting_id'', ''_ids''), rf_target = ''speaker'', rf_path = ''user_id'', rf_comment = '' x''\<rparr>])"


section \<open>The load generator\<close>

text \<open>
  No byte is lost or reordered: the messages, followed by what is still in the buffer, are what was
  read. A message that fills the buffer exactly is held back until the next one arrives.
\<close>

lemma read_messages_bytes:
  "list_all (\<lambda>(buf, e). e = None) reads \<Longrightarrow>
    \<exists>held. concat (fst (read_messages reads data)) @ held = data @ concat (map fst reads)"
proof (induction reads data rule: read_messages.induct)
  case (2 buf err reads data)
  then show ?case
    by (cases "length buf < 1024") (auto simp: case_prod_unfold)
qed simp

lemma readClients_drop: "readClients n ch = (if n \<le> length ch then Some (drop n ch) else None)"
  by (induction n ch rule: readClients.induct) auto

lemma read_messages_held: "length buf = 1024 \<Longrightarrow> read_messages [(buf, None)] [] = ([], None)"
  by simp

end
